(* ===== verification/Prelude.thy ===== *)
theory Prelude
  imports Main "HOL-Library.AList"
begin

text \<open>
  Shared material: JavaScript strings as character lists with the index operations the code uses,
  insertion-ordered maps (\<open>Map\<close>, \<open>Set\<close> and plain objects) as association lists in insertion
  order, results that may be errors, and the generic invariant argument for the state machines.
  \<open>AList.update\<close> is exactly \<open>Map.prototype.set\<close>: it overwrites in place or appends at the end.
\<close>

named_theorems js_defs "definitions of the string and map operations"
named_theorems omap_simps "rewrite rules for insertion-ordered maps"

subsection \<open>Strings\<close>

text \<open>
  A string is the list of its code units; the literals the code compares with are ASCII. An
  \<open>undefined\<close> string is \<open>None\<close>. The empty string is falsy.
\<close>

type_synonym js_string = string

fun str_index :: "char \<Rightarrow> js_string \<Rightarrow> nat option" where
  "str_index c [] = None"
| "str_index c (x # xs) = (if x = c then Some 0 else map_option Suc (str_index c xs))"

text \<open>\<open>text.indexOf(char, from)\<close>, with -1 for absent.\<close>

definition js_indexOf :: "js_string \<Rightarrow> char \<Rightarrow> nat \<Rightarrow> int" where
  "js_indexOf s c from =
     (case str_index c (drop from s) of None \<Rightarrow> -1 | Some i \<Rightarrow> int (from + i))"

text \<open>\<open>text.lastIndexOf(char)\<close> as an option.\<close>

definition str_last_index :: "char \<Rightarrow> js_string \<Rightarrow> nat option" where
  "str_last_index c s = map_option (\<lambda>i. length s - Suc i) (str_index c (rev s))"

definition js_slice :: "js_string \<Rightarrow> nat \<Rightarrow> nat \<Rightarrow> js_string" where
  "js_slice s a b = take (b - a) (drop a s)"

definition starts_with :: "js_string \<Rightarrow> js_string \<Rightarrow> bool" where
  "starts_with s p \<longleftrightarrow> take (length p) s = p"

definition ends_with :: "js_string \<Rightarrow> js_string \<Rightarrow> bool" where
  "ends_with s p \<longleftrightarrow> length p \<le> length s \<and> drop (length s - length p) s = p"

text \<open>\<open>s.split(c)\<close> for a one-character separator.\<close>

fun js_split :: "char \<Rightarrow> js_string \<Rightarrow> js_string list" where
  "js_split c [] = [[]]"
| "js_split c (x # xs) =
     (if x = c then [] # js_split c xs
      else (case js_split c xs of [] \<Rightarrow> [[x]] | p # ps \<Rightarrow> (x # p) # ps))"

definition is_digit :: "char \<Rightarrow> bool" where
  "is_digit c \<longleftrightarrow> 48 \<le> (of_char c :: nat) \<and> (of_char c :: nat) \<le> 57"

definition digit_val :: "char \<Rightarrow> nat" where
  "digit_val c = of_char c - 48"

definition digits_val :: "js_string \<Rightarrow> nat" where
  "digits_val s = foldl (\<lambda>n c. 10 * n + digit_val c) 0 s"

definition is_js_space :: "char \<Rightarrow> bool" where
  "is_js_space c \<longleftrightarrow> (let n = (of_char c :: nat) in (9 \<le> n \<and> n \<le> 13) \<or> n = 32 \<or> n = 160)"

text \<open>
  \<open>Number.parseInt(s, 10)\<close>: leading white space, an optional sign, then the longest run of
  digits; \<open>None\<close> is NaN.
\<close>

definition parse_int10 :: "js_string \<Rightarrow> int option" where
  "parse_int10 s =
     (let t = dropWhile is_js_space s;
          neg = (t \<noteq> [] \<and> hd t = CHR ''-'');
          u = (if t \<noteq> [] \<and> (hd t = CHR ''-'' \<or> hd t = CHR ''+'') then tl t else t);
          ds = takeWhile is_digit u
      in if ds = [] then None
         else Some (if neg then - int (digits_val ds) else int (digits_val ds)))"

text \<open>The decimal text of a number, as template literals print it.\<close>

function show_nat :: "nat \<Rightarrow> js_string" where
  "show_nat n = (if n < 10 then [char_of (48 + n)] else show_nat (n div 10) @ [char_of (48 + n mod 10)])"
  by pat_completeness auto
termination by (relation "measure id") auto

declare show_nat.simps [simp del]

lemmas [js_defs] =
  js_indexOf_def js_slice_def starts_with_def ends_with_def

lemma str_index_append:
  "str_index c (xs @ ys) =
     (case str_index c xs of Some i \<Rightarrow> Some i | None \<Rightarrow> map_option (\<lambda>i. length xs + i) (str_index c ys))"
  by (induction xs) (cases "str_index c ys"; auto split: option.splits)+

lemma str_index_None_iff: "str_index c xs = None \<longleftrightarrow> c \<notin> set xs"
  by (induction xs) auto

lemma str_index_SomeD: "str_index c xs = Some i \<Longrightarrow> i < length xs \<and> xs ! i = c \<and> c \<notin> set (take i xs)"
  by (induction xs arbitrary: i) (auto split: if_splits)

lemma str_index_Some_split:
  "str_index c xs = Some i \<Longrightarrow> xs = take i xs @ c # drop (Suc i) xs"
  by (metis str_index_SomeD id_take_nth_drop)

lemma str_index_first: "c \<notin> set xs \<Longrightarrow> str_index c (xs @ c # ys) = Some (length xs)"
  by (induction xs) auto

lemma str_index_take:
  "str_index c (take n xs) = (case str_index c xs of Some i \<Rightarrow> if i < n then Some i else None | None \<Rightarrow> None)"
proof (induction xs arbitrary: n)
  case (Cons x xs)
  then show ?case by (cases n) (auto split: option.splits)
qed simp

lemma js_split_nonempty [simp]: "js_split c s \<noteq> []"
  by (induction s) (auto split: list.splits)

lemma js_split_no_sep: "c \<notin> set s \<Longrightarrow> js_split c s = [s]"
  by (induction s) auto

lemma js_split_first:
  "c \<notin> set a \<Longrightarrow> js_split c (a @ c # b) = a # js_split c b"
  by (induction a) auto

lemma js_split_hd: "hd (js_split c s) = (case str_index c s of None \<Rightarrow> s | Some i \<Rightarrow> take i s)"
proof (cases "str_index c s")
  case None
  with js_split_no_sep [of c s] show ?thesis by (simp add: str_index_None_iff [symmetric])
next
  case (Some i)
  from str_index_Some_split [OF Some] str_index_SomeD [OF Some]
  have "js_split c s = take i s # js_split c (drop (Suc i) s)"
    by (metis js_split_first)
  with Some show ?thesis by simp
qed

lemma starts_with_iff: "starts_with s p \<longleftrightarrow> (\<exists>t. s = p @ t)"
  by (metis append_eq_conv_conj append_take_drop_id starts_with_def)

lemma ends_with_iff: "ends_with s p \<longleftrightarrow> (\<exists>t. s = t @ p)"
  unfolding ends_with_def
  by (metis append_take_drop_id append_eq_conv_conj diff_add_inverse2 length_append le_add2)

lemma digits_val_snoc: "digits_val (xs @ [c]) = 10 * digits_val xs + digit_val c"
  by (simp add: digits_val_def)

lemma digit_char: "n < 10 \<Longrightarrow> is_digit (char_of (48 + n)) \<and> digit_val (char_of (48 + n) :: char) = n"
  by (simp add: is_digit_def digit_val_def)

lemma show_nat_digits: "show_nat n \<noteq> [] \<and> list_all is_digit (show_nat n)"
proof (induction n rule: show_nat.induct)
  case (1 n)
  then show ?case
    using digit_char [of "n mod 10"] digit_char [of n]
    by (auto simp: show_nat.simps [of n])
qed

lemma show_nat_val: "digits_val (show_nat n) = n"
proof (induction n rule: show_nat.induct)
  case (1 n)
  then show ?case
    using digit_char [of "n mod 10"] digit_char [of n]
    by (auto simp: show_nat.simps [of n] digits_val_snoc) (simp add: digits_val_def)
qed

lemma show_nat_inj: "show_nat m = show_nat n \<longleftrightarrow> m = n"
  by (metis show_nat_val)

lemma set_show_nat: "c \<in> set (show_nat n) \<Longrightarrow> is_digit c"
  using show_nat_digits [of n] by (simp add: list_all_iff)

lemma digit_not_space: "is_digit c \<Longrightarrow> \<not> is_js_space c \<and> c \<noteq> CHR ''-'' \<and> c \<noteq> CHR ''+'' \<and> c \<noteq> CHR ''x'' \<and> c \<noteq> CHR ''X''"
  by (auto simp: is_digit_def is_js_space_def Let_def)

lemma show_nat_Cons:
  obtains c cs where "show_nat n = c # cs" "is_digit c" "list_all is_digit cs"
  using show_nat_digits [of n] by (cases "show_nat n") auto

lemma parse_int10_show_nat: "parse_int10 (show_nat n) = Some (int n)"
proof -
  obtain c cs where eq: "show_nat n = c # cs" and dig: "is_digit c" "list_all is_digit cs"
    by (rule show_nat_Cons)
  have "takeWhile is_digit (show_nat n) = show_nat n"
    using show_nat_digits [of n] by (simp add: takeWhile_eq_all_conv list_all_iff)
  then show ?thesis
    using digit_not_space [OF dig(1)] show_nat_val [of n] by (simp add: parse_int10_def eq)
qed

subsection \<open>Insertion-ordered maps\<close>

type_synonym ('k, 'v) omap = "('k \<times> 'v) list"

abbreviation omap_get :: "('k, 'v) omap \<Rightarrow> 'k \<Rightarrow> 'v option" where
  "omap_get \<equiv> map_of"

abbreviation omap_set :: "'k \<Rightarrow> 'v \<Rightarrow> ('k, 'v) omap \<Rightarrow> ('k, 'v) omap" where
  "omap_set \<equiv> AList.update"

abbreviation omap_del :: "'k \<Rightarrow> ('k, 'v) omap \<Rightarrow> ('k, 'v) omap" where
  "omap_del \<equiv> AList.delete"

definition omap_ok :: "('k, 'v) omap \<Rightarrow> bool" where
  "omap_ok m \<longleftrightarrow> distinct (map fst m)"

lemma omap_ok_Nil [simp]: "omap_ok []"
  by (simp add: omap_ok_def)

lemma omap_ok_set [simp, intro]: "omap_ok m \<Longrightarrow> omap_ok (omap_set k v m)"
  by (simp add: omap_ok_def distinct_update)

lemma omap_ok_del [simp, intro]: "omap_ok m \<Longrightarrow> omap_ok (omap_del k m)"
  by (simp add: omap_ok_def distinct_delete)

lemma omap_get_set [omap_simps]: "omap_get (omap_set k v m) k' = (if k' = k then Some v else omap_get m k')"
  by (simp add: update_conv')

lemma omap_get_del [omap_simps]: "omap_get (omap_del k m) k' = (if k' = k then None else omap_get m k')"
  by (simp add: delete_conv')

lemma keys_del [omap_simps]: "fst ` set (omap_del k m) = fst ` set m - {k}"
  by (auto simp: AList.delete_eq image_iff)

lemma length_del: "omap_get m k = Some v \<Longrightarrow> omap_ok m \<Longrightarrow> Suc (length (omap_del k m)) = length m"
proof (induction m)
  case (Cons p m)
  then show ?case
    by (cases p) (auto simp: omap_ok_def split: if_splits; metis delete_notin_dom dom_map_of_conv_image_fst)
qed simp

lemma length_del_le: "length (omap_del k m) \<le> length m"
  by (metis length_delete_le)

lemma set_absent_append: "omap_get m k = None \<Longrightarrow> omap_set k v m = m @ [(k, v)]"
  by (induction m) (auto split: if_splits)

lemma length_set: "length (omap_set k v m) = (if omap_get m k = None then Suc (length m) else length m)"
  by (induction m) auto

lemma del_absent: "omap_get m k = None \<Longrightarrow> omap_del k m = m"
  by (induction m) (auto split: if_splits)

subsection \<open>Invariants of step functions and step relations\<close>

text \<open>
  A component that reacts to inputs one at a time is an initial state and a step function; a
  component whose continuations are scheduled by the runtime is a step relation. Both lift an
  invariant of single steps to every run.
\<close>

locale reactive =
  fixes start :: 's
    and react :: "'e \<Rightarrow> 's \<Rightarrow> 's"
    and inv :: "'s \<Rightarrow> bool"
  assumes start_inv: "inv start"
    and react_inv: "inv s \<Longrightarrow> inv (react e s)"
begin

lemma run_from_inv: "inv s \<Longrightarrow> inv (fold react es s)"
  by (induction es arbitrary: s) (auto intro: react_inv)

lemma run_inv: "inv (fold react es start)"
  by (rule run_from_inv [OF start_inv])

end

locale transition_system =
  fixes start :: "'s \<Rightarrow> bool"
    and trans :: "'s \<Rightarrow> 's \<Rightarrow> bool"
    and inv :: "'s \<Rightarrow> bool"
  assumes start_holds: "start s \<Longrightarrow> inv s"
    and trans_holds: "inv s \<Longrightarrow> trans s t \<Longrightarrow> inv t"
begin

lemma from_holds: "trans\<^sup>*\<^sup>* s t \<Longrightarrow> inv s \<Longrightarrow> inv t"
  by (induction rule: rtranclp_induct) (auto intro: trans_holds)

lemma reach_holds: "start s \<Longrightarrow> trans\<^sup>*\<^sup>* s t \<Longrightarrow> inv t"
  by (auto intro: from_holds start_holds)

end

text \<open>A fact about the numbers below a bound is a computation.\<close>

lemma below_all: "list_all P [0..<n] \<Longrightarrow> k < n \<Longrightarrow> P k"
  by (simp add: list_all_iff)

end
