(* ===== verification/LruMap.thy ===== *)
theory LruMap
  imports Prelude
begin

text \<open>
  \<open>src/src/Compatibility/internal/expiring-lru-map.ts\<close> and the cache built on it
  (\<open>cache-store.ts\<close>). The insertion order of the map is the recency order. An entry is an object
  with an identity, because a timer that fires compares the stored entry with the one it was armed
  for; \<open>Date.now()\<close> is an argument, the armed timers are part of the state, and a timer callback is
  an operation that may run once its timer is armed. Operations return the entries they hand to
  the \<open>dispose\<close> option, in call order.
\<close>

record 'v lru_entry =
  entry_value :: 'v
  expiresAt :: nat
  entry_timer :: nat
  entry_id :: nat

record ('k, 'v) lru =
  lru_entries :: "('k, 'v lru_entry) omap"
  lru_timers :: "(nat, 'k \<times> nat \<times> nat) omap"  \<comment> \<open>timer \<mapsto> key, entry identity, due time\<close>
  lru_fresh :: nat

record lru_options =
  ttl :: nat
  lru_max :: "nat option"
  updateAgeOnGet :: bool

definition lru_new :: "('k, 'v) lru" where
  "lru_new = \<lparr>lru_entries = [], lru_timers = [], lru_fresh = 0\<rparr>"

definition lru_delete :: "'k \<Rightarrow> ('k, 'v) lru \<Rightarrow> ('k, 'v) lru \<times> ('k \<times> 'v) list" where
  "lru_delete k m =
     (case omap_get (lru_entries m) k of
        None \<Rightarrow> (m, [])
      | Some e \<Rightarrow>
          (m\<lparr>lru_entries := omap_del k (lru_entries m),
             lru_timers := omap_del (entry_timer e) (lru_timers m)\<rparr>,
           [(k, entry_value e)]))"

text \<open>The boolean \<open>delete\<close> returns.\<close>

definition lru_has :: "'k \<Rightarrow> ('k, 'v) lru \<Rightarrow> bool" where
  "lru_has k m \<longleftrightarrow> omap_get (lru_entries m) k \<noteq> None"

definition lru_store :: "lru_options \<Rightarrow> nat \<Rightarrow> 'k \<Rightarrow> 'v \<Rightarrow> ('k, 'v) lru \<Rightarrow> ('k, 'v) lru" where
  "lru_store opts now k v m =
     (let n = lru_fresh m;
          entry = \<lparr>entry_value = v, expiresAt = now + ttl opts, entry_timer = n, entry_id = n\<rparr>
      in m\<lparr>lru_entries := omap_set k entry (lru_entries m),
           lru_timers := omap_set n (k, n, now + ttl opts) (lru_timers m),
           lru_fresh := Suc n\<rparr>)"

definition lru_evict :: "lru_options \<Rightarrow> ('k, 'v) lru \<Rightarrow> ('k, 'v) lru \<times> ('k \<times> 'v) list" where
  "lru_evict opts m =
     (case lru_max opts of
        None \<Rightarrow> (m, [])
      | Some limit \<Rightarrow>
          if length (lru_entries m) > limit then
            (case lru_entries m of [] \<Rightarrow> (m, []) | (oldest, _) # _ \<Rightarrow> lru_delete oldest m)
          else (m, []))"

definition lru_set :: "lru_options \<Rightarrow> nat \<Rightarrow> 'k \<Rightarrow> 'v \<Rightarrow> ('k, 'v) lru \<Rightarrow> ('k, 'v) lru \<times> ('k \<times> 'v) list" where
  "lru_set opts now k v m =
     (let (m1, gone1) = lru_delete k m;
          (m2, gone2) = lru_evict opts (lru_store opts now k v m1)
      in (m2, gone1 @ gone2))"

definition lru_refreshTimer :: "lru_options \<Rightarrow> nat \<Rightarrow> 'k \<Rightarrow> 'v lru_entry \<Rightarrow> ('k, 'v) lru \<Rightarrow> ('k, 'v) lru" where
  "lru_refreshTimer opts now k e m =
     (let n = lru_fresh m
      in m\<lparr>lru_entries := omap_set k (e\<lparr>expiresAt := now + ttl opts, entry_timer := n\<rparr>) (lru_entries m),
           lru_timers := omap_set n (k, entry_id e, now + ttl opts)
             (omap_del (entry_timer e) (lru_timers m)),
           lru_fresh := Suc n\<rparr>)"

definition lru_get :: "lru_options \<Rightarrow> nat \<Rightarrow> 'k \<Rightarrow> ('k, 'v) lru \<Rightarrow> 'v option \<times> ('k, 'v) lru \<times> ('k \<times> 'v) list" where
  "lru_get opts now k m =
     (case omap_get (lru_entries m) k of
        None \<Rightarrow> (None, m, [])
      | Some e \<Rightarrow>
          if expiresAt e \<le> now then (None, lru_delete k m)
          else
            (let m1 = m\<lparr>lru_entries := omap_set k e (omap_del k (lru_entries m))\<rparr>;
                 m2 = (if updateAgeOnGet opts then lru_refreshTimer opts now k e m1 else m1)
             in (Some (entry_value e), m2, [])))"

definition lru_clear :: "('k, 'v) lru \<Rightarrow> ('k, 'v) lru \<times> ('k \<times> 'v) list" where
  "lru_clear m =
     foldl (\<lambda>(m, gone) k. let (m', g) = lru_delete k m in (m', gone @ g)) (m, []) (map fst (lru_entries m))"

text \<open>A timer callback: the runtime runs it at most once, and never after \<open>clearTimeout\<close>.\<close>

definition lru_timer_fires :: "nat \<Rightarrow> ('k, 'v) lru \<Rightarrow> ('k, 'v) lru \<times> ('k \<times> 'v) list" where
  "lru_timer_fires t m =
     (case omap_get (lru_timers m) t of
        None \<Rightarrow> (m, [])
      | Some (k, i, due) \<Rightarrow>
          (let m1 = m\<lparr>lru_timers := omap_del t (lru_timers m)\<rparr>
           in case omap_get (lru_entries m1) k of
                Some e \<Rightarrow> if entry_id e = i then lru_delete k m1 else (m1, [])
              | None \<Rightarrow> (m1, [])))"

subsection \<open>The invariant\<close>

text \<open>
  Keys are distinct, every entry has exactly one armed timer and it is due when the entry expires,
  and every armed timer belongs to a stored entry: no timer leaks and none is lost.
\<close>

definition lru_inv :: "('k, 'v) lru \<Rightarrow> bool" where
  "lru_inv m \<longleftrightarrow>
     omap_ok (lru_entries m) \<and>
     (\<forall>k e. omap_get (lru_entries m) k = Some e \<longrightarrow>
        omap_get (lru_timers m) (entry_timer e) = Some (k, entry_id e, expiresAt e) \<and> entry_timer e < lru_fresh m) \<and>
     (\<forall>t k i d. omap_get (lru_timers m) t = Some (k, i, d) \<longrightarrow>
        (\<exists>e. omap_get (lru_entries m) k = Some e \<and> entry_timer e = t))"

definition lru_bounded :: "lru_options \<Rightarrow> ('k, 'v) lru \<Rightarrow> bool" where
  "lru_bounded opts m \<longleftrightarrow> (case lru_max opts of None \<Rightarrow> True | Some n \<Rightarrow> length (lru_entries m) \<le> n)"

lemma lru_invD:
  assumes "lru_inv m"
  shows "omap_ok (lru_entries m)"
    and "omap_get (lru_entries m) k = Some e \<Longrightarrow>
           omap_get (lru_timers m) (entry_timer e) = Some (k, entry_id e, expiresAt e) \<and> entry_timer e < lru_fresh m"
    and "omap_get (lru_timers m) t = Some (k, i, d) \<Longrightarrow>
           \<exists>e. omap_get (lru_entries m) k = Some e \<and> entry_timer e = t \<and> entry_id e = i \<and> expiresAt e = d"
  using assms unfolding lru_inv_def by (blast, blast, fastforce)

lemma fresh_timer: "lru_inv m \<Longrightarrow> omap_get (lru_timers m) (lru_fresh m) = None"
  by (metis lru_invD(2,3) less_irrefl option.exhaust prod_cases3)

lemma lru_inv_new: "lru_inv lru_new"
  by (simp add: lru_inv_def lru_new_def)

lemma lru_invI:
  assumes "omap_ok (lru_entries m)"
    and "\<And>k e. omap_get (lru_entries m) k = Some e \<Longrightarrow>
           omap_get (lru_timers m) (entry_timer e) = Some (k, entry_id e, expiresAt e) \<and> entry_timer e < lru_fresh m"
    and "\<And>t k i d. omap_get (lru_timers m) t = Some (k, i, d) \<Longrightarrow>
           \<exists>e. omap_get (lru_entries m) k = Some e \<and> entry_timer e = t"
  shows "lru_inv m"
  using assms unfolding lru_inv_def by blast

text \<open>Two entries never share a timer.\<close>

lemma timer_owner:
  "lru_inv m \<Longrightarrow> omap_get (lru_entries m) k = Some e \<Longrightarrow> omap_get (lru_entries m) k' = Some e' \<Longrightarrow>
     entry_timer e = entry_timer e' \<Longrightarrow> k = k'"
  by (metis lru_invD(2) option.inject prod.inject)

lemma lru_delete_get:
  "omap_get (lru_entries (fst (lru_delete k m))) = (omap_get (lru_entries m))(k := None)"
  by (auto simp: lru_delete_def omap_simps fun_eq_iff split: option.splits)

lemma lru_delete_inv:
  assumes inv: "lru_inv m"
  shows "lru_inv (fst (lru_delete k m))"
proof (cases "omap_get (lru_entries m) k")
  case None
  with inv show ?thesis by (simp add: lru_delete_def)
next
  case (Some e)
  show ?thesis
  proof (rule lru_invI)
    show "omap_ok (lru_entries (fst (lru_delete k m)))"
      using Some lru_invD(1) [OF inv] by (simp add: lru_delete_def omap_ok_del)
  next
    fix k' e' assume "omap_get (lru_entries (fst (lru_delete k m))) k' = Some e'"
    then have "k' \<noteq> k" and e': "omap_get (lru_entries m) k' = Some e'"
      using Some by (auto simp: lru_delete_def omap_simps split: if_splits)
    then have "entry_timer e' \<noteq> entry_timer e" using timer_owner [OF inv e' Some] by blast
    with lru_invD(2) [OF inv e'] Some
    show "omap_get (lru_timers (fst (lru_delete k m))) (entry_timer e') = Some (k', entry_id e', expiresAt e')
        \<and> entry_timer e' < lru_fresh (fst (lru_delete k m))"
      by (simp add: lru_delete_def omap_simps)
  next
    fix t k' i d assume "omap_get (lru_timers (fst (lru_delete k m))) t = Some (k', i, d)"
    then have "t \<noteq> entry_timer e" and "omap_get (lru_timers m) t = Some (k', i, d)"
      using Some by (auto simp: lru_delete_def omap_simps split: if_splits)
    then obtain e' where "omap_get (lru_entries m) k' = Some e'" "entry_timer e' = t"
      using lru_invD(3) [OF inv] by blast
    with \<open>t \<noteq> entry_timer e\<close> Some
    show "\<exists>e. omap_get (lru_entries (fst (lru_delete k m))) k' = Some e \<and> entry_timer e = t"
      by (auto simp: lru_delete_get)
  qed
qed

lemma lru_delete_le: "length (lru_entries (fst (lru_delete k m))) \<le> length (lru_entries m)"
  by (auto simp: lru_delete_def length_del_le split: option.splits)

text \<open>Arming a fresh timer for an entry of an unused key keeps the invariant.\<close>

lemma lru_arm_inv:
  assumes inv: "lru_inv m" and none: "omap_get (lru_entries m) k = None" and t: "entry_timer e = lru_fresh m"
  shows "lru_inv (m\<lparr>lru_entries := omap_set k e (lru_entries m),
      lru_timers := omap_set (lru_fresh m) (k, entry_id e, expiresAt e) (lru_timers m),
      lru_fresh := Suc (lru_fresh m)\<rparr>)"
proof (rule lru_invI)
  fix t' k' i d
  assume "omap_get (lru_timers (m\<lparr>lru_entries := omap_set k e (lru_entries m),
      lru_timers := omap_set (lru_fresh m) (k, entry_id e, expiresAt e) (lru_timers m),
      lru_fresh := Suc (lru_fresh m)\<rparr>)) t' = Some (k', i, d)"
  then have "(t' = lru_fresh m \<and> k' = k) \<or> omap_get (lru_timers m) t' = Some (k', i, d)"
    by (auto simp: omap_simps split: if_splits)
  then show "\<exists>e'. omap_get (lru_entries (m\<lparr>lru_entries := omap_set k e (lru_entries m),
      lru_timers := omap_set (lru_fresh m) (k, entry_id e, expiresAt e) (lru_timers m),
      lru_fresh := Suc (lru_fresh m)\<rparr>)) k' = Some e' \<and> entry_timer e' = t'"
    using lru_invD(3) [OF inv] none t by (fastforce simp: omap_simps)
next
  fix k' e' assume "omap_get (lru_entries (m\<lparr>lru_entries := omap_set k e (lru_entries m),
      lru_timers := omap_set (lru_fresh m) (k, entry_id e, expiresAt e) (lru_timers m),
      lru_fresh := Suc (lru_fresh m)\<rparr>)) k' = Some e'"
  then show "omap_get (lru_timers (m\<lparr>lru_entries := omap_set k e (lru_entries m),
      lru_timers := omap_set (lru_fresh m) (k, entry_id e, expiresAt e) (lru_timers m),
      lru_fresh := Suc (lru_fresh m)\<rparr>)) (entry_timer e') = Some (k', entry_id e', expiresAt e')
      \<and> entry_timer e' < lru_fresh (m\<lparr>lru_entries := omap_set k e (lru_entries m),
      lru_timers := omap_set (lru_fresh m) (k, entry_id e, expiresAt e) (lru_timers m),
      lru_fresh := Suc (lru_fresh m)\<rparr>)"
    using lru_invD(2) [OF inv] t by (fastforce simp: omap_simps split: if_splits)
qed (use lru_invD(1) [OF inv] in simp)

lemma lru_store_inv:
  assumes "lru_inv m" and "omap_get (lru_entries m) k = None"
  shows "lru_inv (lru_store opts now k v m)"
  using lru_arm_inv [OF assms, of "\<lparr>entry_value = v, expiresAt = now + ttl opts,
    entry_timer = lru_fresh m, entry_id = lru_fresh m\<rparr>"]
  by (simp add: lru_store_def Let_def)

lemma lru_evict_inv: "lru_inv m \<Longrightarrow> lru_inv (fst (lru_evict opts m))"
  by (auto simp: lru_evict_def lru_delete_inv split: option.splits list.splits)

lemma lru_set_fst:
  "fst (lru_set opts now k v m) = fst (lru_evict opts (lru_store opts now k v (fst (lru_delete k m))))"
  by (simp add: lru_set_def case_prod_beta Let_def)

lemma lru_set_inv:
  assumes "lru_inv m"
  shows "lru_inv (fst (lru_set opts now k v m))"
  unfolding lru_set_fst
  using assms by (intro lru_evict_inv lru_store_inv lru_delete_inv) (simp_all add: lru_delete_get)

text \<open>Moving an entry to the end, and re-arming its timer.\<close>

lemma lru_touch_inv:
  assumes inv: "lru_inv m" and e: "omap_get (lru_entries m) k = Some e"
  shows "lru_inv (m\<lparr>lru_entries := omap_set k e (omap_del k (lru_entries m))\<rparr>)"
proof -
  have "omap_get (omap_set k e (omap_del k (lru_entries m))) = omap_get (lru_entries m)"
    using e by (auto simp: omap_simps)
  with inv show ?thesis by (simp add: lru_inv_def)
qed

lemma lru_refresh_eq:
  assumes "omap_get (lru_entries m) k = Some e"
  shows "lru_refreshTimer opts now k e m =
    (let m1 = m\<lparr>lru_timers := omap_del (entry_timer e) (lru_timers m)\<rparr>
     in m1\<lparr>lru_entries := omap_set k (e\<lparr>expiresAt := now + ttl opts, entry_timer := lru_fresh m\<rparr>) (lru_entries m),
           lru_timers := omap_set (lru_fresh m) (k, entry_id e, now + ttl opts) (lru_timers m1),
           lru_fresh := Suc (lru_fresh m)\<rparr>)"
  by (simp add: lru_refreshTimer_def Let_def)

lemma lru_refresh_inv:
  assumes inv: "lru_inv m" and e: "omap_get (lru_entries m) k = Some e"
  shows "lru_inv (lru_refreshTimer opts now k e m)"
proof (rule lru_invI)
  show "omap_ok (lru_entries (lru_refreshTimer opts now k e m))"
    using lru_invD(1) [OF inv] by (simp add: lru_refreshTimer_def Let_def)
next
  fix k' e' assume a: "omap_get (lru_entries (lru_refreshTimer opts now k e m)) k' = Some e'"
  show "omap_get (lru_timers (lru_refreshTimer opts now k e m)) (entry_timer e') = Some (k', entry_id e', expiresAt e')
      \<and> entry_timer e' < lru_fresh (lru_refreshTimer opts now k e m)"
  proof (cases "k' = k")
    case True
    with a show ?thesis by (auto simp: lru_refreshTimer_def Let_def omap_simps)
  next
    case False
    with a have e': "omap_get (lru_entries m) k' = Some e'"
      by (simp add: lru_refreshTimer_def Let_def omap_simps)
    with False have "entry_timer e' \<noteq> entry_timer e" using timer_owner [OF inv e' e] by blast
    with lru_invD(2) [OF inv e'] show ?thesis
      by (simp add: lru_refreshTimer_def Let_def omap_simps)
  qed
next
  fix t k' i d assume a: "omap_get (lru_timers (lru_refreshTimer opts now k e m)) t = Some (k', i, d)"
  show "\<exists>e'. omap_get (lru_entries (lru_refreshTimer opts now k e m)) k' = Some e' \<and> entry_timer e' = t"
  proof (cases "t = lru_fresh m")
    case True
    with a show ?thesis by (simp add: lru_refreshTimer_def Let_def omap_simps)
  next
    case False
    with a have t: "t \<noteq> entry_timer e" "omap_get (lru_timers m) t = Some (k', i, d)"
      by (auto simp: lru_refreshTimer_def Let_def omap_simps split: if_splits)
    then obtain e' where "omap_get (lru_entries m) k' = Some e'" "entry_timer e' = t"
      using lru_invD(3) [OF inv] by blast
    with e t(1) show ?thesis
      by (auto simp: lru_refreshTimer_def Let_def omap_simps)
  qed
qed

lemma lru_get_inv:
  assumes "lru_inv m"
  shows "lru_inv (fst (snd (lru_get opts now k m)))"
proof (cases "omap_get (lru_entries m) k")
  case None
  with assms show ?thesis by (simp add: lru_get_def)
next
  case (Some e)
  let ?m1 = "m\<lparr>lru_entries := omap_set k e (omap_del k (lru_entries m))\<rparr>"
  have "lru_inv ?m1" by (rule lru_touch_inv [OF assms Some])
  moreover have "lru_inv (lru_refreshTimer opts now k e ?m1)"
    by (rule lru_refresh_inv [OF \<open>lru_inv ?m1\<close>]) (simp add: omap_simps)
  ultimately show ?thesis
    using Some lru_delete_inv [OF assms, of k] by (simp add: lru_get_def Let_def)
qed

lemma lru_timer_inv:
  assumes inv: "lru_inv m"
  shows "lru_inv (fst (lru_timer_fires t m))"
proof (cases "omap_get (lru_timers m) t")
  case None
  with inv show ?thesis by (simp add: lru_timer_fires_def)
next
  case (Some p)
  then obtain k i d where p: "omap_get (lru_timers m) t = Some (k, i, d)" by (cases p) auto
  then obtain e where e: "omap_get (lru_entries m) k = Some e" "entry_timer e = t" "entry_id e = i"
    using lru_invD(3) [OF inv] by blast
  have "fst (lru_timer_fires t m) = fst (lru_delete k m)"
    using p e by (simp add: lru_timer_fires_def lru_delete_def Let_def delete_idem)
  with lru_delete_inv [OF inv] show ?thesis by simp
qed

lemma lru_clear_inv:
  assumes "lru_inv m"
  shows "lru_inv (fst (lru_clear m))"
proof -
  have "lru_inv (fst (foldl (\<lambda>(m, gone) k. let (m', g) = lru_delete k m in (m', gone @ g)) (m, gone) ks))"
    if "lru_inv m" for m gone and ks :: "'a list"
    using that
  proof (induction ks arbitrary: m gone)
    case (Cons k ks)
    then show ?case using lru_delete_inv [of m k] by (auto split: prod.splits)
  qed simp
  with assms show ?thesis by (simp add: lru_clear_def)
qed

subsection \<open>What a lookup sees\<close>

text \<open>The value a \<open>get\<close> at time \<open>now\<close> would return.\<close>

definition lru_live :: "('k, 'v) lru \<Rightarrow> nat \<Rightarrow> 'k \<Rightarrow> 'v option" where
  "lru_live m now k =
     (case omap_get (lru_entries m) k of
        None \<Rightarrow> None | Some e \<Rightarrow> if expiresAt e \<le> now then None else Some (entry_value e))"

lemma lru_get_value: "fst (lru_get opts now k m) = lru_live m now k"
  by (auto simp: lru_get_def lru_live_def Let_def split: option.splits)

lemma lru_delete_live: "lru_live (fst (lru_delete k m)) t k' = (if k' = k then None else lru_live m t k')"
  by (auto simp: lru_live_def lru_delete_get split: option.splits)

lemma lru_store_live:
  "lru_live (lru_store opts now k v m) t k' =
     (if k' = k then if t < now + ttl opts then Some v else None else lru_live m t k')"
  by (auto simp: lru_live_def lru_store_def Let_def omap_simps)


lemma lru_evict_subset:
  "lru_live (fst (lru_evict opts m)) t k = Some v \<Longrightarrow> lru_live m t k = Some v"
  by (auto simp: lru_evict_def lru_delete_live split: option.splits list.splits if_splits)

text \<open>Eviction removes the oldest key, which is not the one just stored.\<close>

lemma lru_evict_newest:
  assumes "omap_ok (lru_entries m)" and "lru_entries m = xs @ [(k, e)]" and "lru_max opts \<noteq> Some 0"
  shows "lru_live (fst (lru_evict opts m)) t k = lru_live m t k"
proof (cases xs)
  case Nil
  with assms show ?thesis by (auto simp: lru_evict_def split: option.splits)
next
  case (Cons p ps)
  then have "fst p \<noteq> k" using assms(1,2) by (auto simp: omap_ok_def)
  with Cons assms(2) show ?thesis
    by (cases p) (auto simp: lru_evict_def lru_delete_live split: option.splits)
qed

lemma lru_set_live:
  assumes "lru_inv m" and "lru_max opts \<noteq> Some 0"
  shows "lru_live (fst (lru_set opts now k v m)) t k = (if t < now + ttl opts then Some v else None)"
proof -
  let ?s = "lru_store opts now k v (fst (lru_delete k m))"
  have "omap_get (lru_entries (fst (lru_delete k m))) k = None" by (simp add: lru_delete_get)
  then obtain xs e where last: "lru_entries ?s = xs @ [(k, e)]"
    by (simp add: lru_store_def Let_def set_absent_append)
  have "omap_ok (lru_entries ?s)"
    using assms(1) by (intro lru_invD(1) lru_store_inv lru_delete_inv) (simp_all add: lru_delete_get)
  from lru_evict_newest [OF this last assms(2)] show ?thesis
    by (simp add: lru_set_fst lru_store_live)
qed

lemma lru_set_frame:
  "k' \<noteq> k \<Longrightarrow> lru_live (fst (lru_set opts now k v m)) t k' = Some w \<Longrightarrow> lru_live m t k' = Some w"
  unfolding lru_set_fst by (drule lru_evict_subset) (simp add: lru_store_live lru_delete_live)

lemma lru_set_bounded:
  assumes "lru_bounded opts m" and "lru_inv m"
  shows "lru_bounded opts (fst (lru_set opts now k v m))"
proof (cases "lru_max opts")
  case None
  then show ?thesis by (simp add: lru_bounded_def)
next
  case (Some limit)
  let ?s = "lru_store opts now k v (fst (lru_delete k m))"
  have ok: "omap_ok (lru_entries ?s)"
    using assms(2) by (intro lru_invD(1) lru_store_inv lru_delete_inv) (simp_all add: lru_delete_get)
  have "length (lru_entries ?s) \<le> Suc limit"
    using assms(1) Some lru_delete_le [of k m]
    by (simp add: lru_bounded_def lru_store_def Let_def length_set)
  moreover have "length (lru_entries (fst (lru_delete (fst p) ?s))) < length (lru_entries ?s)"
    if "lru_entries ?s = p # ps" for p ps
    using that ok length_del [of "lru_entries ?s" "fst p" "snd p"]
    by (cases p) (simp add: lru_delete_def)
  ultimately show ?thesis
    using Some unfolding lru_set_fst lru_bounded_def lru_evict_def
    by (fastforce split: list.splits)
qed

lemma lru_get_frame:
  "k' \<noteq> k \<Longrightarrow> lru_live (fst (snd (lru_get opts now k m))) t k' = lru_live m t k'"
  by (auto simp: lru_get_def lru_delete_live Let_def split: option.splits)
    (auto simp: lru_live_def lru_refreshTimer_def Let_def omap_simps split: option.splits)

lemma lru_get_same:
  "now \<le> t \<Longrightarrow> t < now + ttl opts \<or> \<not> updateAgeOnGet opts \<Longrightarrow> lru_live m t k = Some v \<Longrightarrow>
     lru_live (fst (snd (lru_get opts now k m))) t k = Some v"
  by (auto simp: lru_get_def lru_live_def lru_refreshTimer_def Let_def omap_simps
      split: option.splits if_splits)

lemma lru_get_bounded:
  assumes "lru_inv m" and "lru_bounded opts m"
  shows "lru_bounded opts (fst (snd (lru_get opts now k m)))"
proof -
  have "length (lru_entries (fst (snd (lru_get opts now k m)))) \<le> length (lru_entries m)"
  proof (cases "omap_get (lru_entries m) k")
    case None
    then show ?thesis by (simp add: lru_get_def)
  next
    case (Some e)
    have "length (omap_set k x (omap_del k (lru_entries m))) = length (lru_entries m)" for x
      using length_del [OF Some lru_invD(1) [OF assms(1)]] by (simp add: length_set omap_simps)
    then show ?thesis using Some lru_delete_le [of k m]
      by (auto simp: lru_get_def Let_def lru_refreshTimer_def length_set omap_simps)
  qed
  with assms(2) show ?thesis by (auto simp: lru_bounded_def split: option.splits)
qed

lemma lru_delete_bounded: "lru_bounded opts m \<Longrightarrow> lru_bounded opts (fst (lru_delete k m))"
  using lru_delete_le [of k m] by (auto simp: lru_bounded_def split: option.splits)

subsection \<open>The interface of an expiring cache\<close>

text \<open>
  What the users of the map rely on: a stored value is returned until it expires, storing one key
  never invents a value of another, and a removed key is gone.
\<close>

locale expiring_cache =
  fixes live :: "'m \<Rightarrow> nat \<Rightarrow> 'k \<Rightarrow> 'v option"
    and put :: "nat \<Rightarrow> 'k \<Rightarrow> 'v \<Rightarrow> 'm \<Rightarrow> 'm"
    and seen :: "nat \<Rightarrow> 'k \<Rightarrow> 'm \<Rightarrow> 'm"
    and remove :: "'k \<Rightarrow> 'm \<Rightarrow> 'm"
    and ok :: "'m \<Rightarrow> bool"
    and life :: nat
  assumes ok_put: "ok m \<Longrightarrow> ok (put now k v m)"
    and ok_seen: "ok m \<Longrightarrow> ok (seen now k m)"
    and ok_remove: "ok m \<Longrightarrow> ok (remove k m)"
    and put_same: "ok m \<Longrightarrow> live (put now k v m) t k = (if t < now + life then Some v else None)"
    and put_frame: "ok m \<Longrightarrow> k' \<noteq> k \<Longrightarrow> live (put now k v m) t k' = Some w \<Longrightarrow> live m t k' = Some w"
    and seen_same: "ok m \<Longrightarrow> now \<le> t \<Longrightarrow> t < now + life \<Longrightarrow> live m t k = Some v \<Longrightarrow> live (seen now k m) t k = Some v"
    and seen_frame: "ok m \<Longrightarrow> k' \<noteq> k \<Longrightarrow> live (seen now k m) t k' = live m t k'"
    and remove_same: "ok m \<Longrightarrow> live (remove k m) t k = None"
    and remove_frame: "ok m \<Longrightarrow> k' \<noteq> k \<Longrightarrow> live (remove k m) t k' = live m t k'"
begin

lemma put_then_seen: "ok m \<Longrightarrow> now \<le> t \<Longrightarrow> t < now + life \<Longrightarrow> live (seen now k (put now k v m)) t k = Some v"
  by (rule seen_same) (simp_all add: ok_put put_same)

lemma expired_after_put: "ok m \<Longrightarrow> now + life \<le> t \<Longrightarrow> live (put now k v m) t k = None"
  by (simp add: put_same)

end

text \<open>Times that follow each other within a life time.\<close>

fun spaced :: "nat \<Rightarrow> nat \<Rightarrow> nat list \<Rightarrow> bool" where
  "spaced life t0 [] \<longleftrightarrow> True"
| "spaced life t0 (t # ts) \<longleftrightarrow> t0 \<le> t \<and> t < t0 + life \<and> spaced life t ts"

text \<open>A counter kept in such a cache: read, store the successor, read again.\<close>

locale counting_cache = expiring_cache live put seen remove ok life
  for live :: "'m \<Rightarrow> nat \<Rightarrow> 'k \<Rightarrow> nat option" and put seen remove ok life +
  fixes bump :: "nat \<Rightarrow> 'k \<Rightarrow> 'm \<Rightarrow> 'm"
  assumes bump_eq: "bump now k m =
    seen now k (put now k (Suc (case live m now k of None \<Rightarrow> 0 | Some n \<Rightarrow> n)) (seen now k m))"
begin

lemma ok_bump: "ok m \<Longrightarrow> ok (bump now k m)"
  by (simp add: bump_eq ok_put ok_seen)

lemma bump_live:
  "ok m \<Longrightarrow> now \<le> t \<Longrightarrow> t < now + life \<Longrightarrow>
     live (bump now k m) t k = Some (Suc (case live m now k of None \<Rightarrow> 0 | Some n \<Rightarrow> n))"
  unfolding bump_eq by (rule put_then_seen) (simp_all add: ok_seen)

text \<open>From a bump at \<open>t0\<close> on, the count is visible for a life time; later bumps extend it.\<close>

lemma bump_counts_on:
  assumes "ok m" and "\<forall>t. t0 \<le> t \<longrightarrow> t < t0 + life \<longrightarrow> live m t k = Some n" and "t0 \<le> now" and "now < t0 + life"
  shows "\<forall>t. now \<le> t \<longrightarrow> t < now + life \<longrightarrow> live (bump now k m) t k = Some (Suc n)"
  using assms by (simp add: bump_live)

lemma bumps_count:
  assumes "ok m" and "\<forall>t. t0 \<le> t \<longrightarrow> t < t0 + life \<longrightarrow> live m t k = Some n" and "spaced life t0 ts"
  shows "\<forall>t. last (t0 # ts) \<le> t \<longrightarrow> t < last (t0 # ts) + life \<longrightarrow>
    live (foldl (\<lambda>m t. bump t k m) m ts) t k = Some (n + length ts)"
  using assms
proof (induction ts arbitrary: m n t0)
  case (Cons t ts)
  then have "\<forall>t'. t \<le> t' \<longrightarrow> t' < t + life \<longrightarrow> live (bump t k m) t' k = Some (Suc n)"
    by (intro bump_counts_on) auto
  with Cons.IH [OF ok_bump [OF Cons.prems(1)] this] Cons.prems(3) show ?case by simp
qed simp

lemma bumps_count_from_absent:
  assumes "ok m" and "live m t0 k = None" and "spaced life t0 ts" and "0 < life"
  shows "live (foldl (\<lambda>m t. bump t k m) m (t0 # ts)) (last (t0 # ts)) k = Some (Suc (length ts))"
proof -
  have "\<forall>t. t0 \<le> t \<longrightarrow> t < t0 + life \<longrightarrow> live (bump t0 k m) t k = Some 1"
    using assms(1,2) by (simp add: bump_live)
  from bumps_count [OF ok_bump [OF assms(1)] this assms(3)] assms(4) show ?thesis by simp
qed

end

subsection \<open>The map provides the interface\<close>

definition lru_put :: "lru_options \<Rightarrow> nat \<Rightarrow> 'k \<Rightarrow> 'v \<Rightarrow> ('k, 'v) lru \<Rightarrow> ('k, 'v) lru" where
  "lru_put opts now k v m = fst (lru_set opts now k v m)"

definition lru_seen :: "lru_options \<Rightarrow> nat \<Rightarrow> 'k \<Rightarrow> ('k, 'v) lru \<Rightarrow> ('k, 'v) lru" where
  "lru_seen opts now k m = fst (snd (lru_get opts now k m))"

definition lru_remove :: "'k \<Rightarrow> ('k, 'v) lru \<Rightarrow> ('k, 'v) lru" where
  "lru_remove k m = fst (lru_delete k m)"

definition lru_ok :: "lru_options \<Rightarrow> ('k, 'v) lru \<Rightarrow> bool" where
  "lru_ok opts m \<longleftrightarrow> lru_inv m \<and> lru_bounded opts m"

lemma lru_expiring_cache:
  assumes "lru_max opts \<noteq> Some 0"
  shows "expiring_cache lru_live (lru_put opts) (lru_seen opts) lru_remove (lru_ok opts) (ttl opts)"
  by unfold_locales
    (auto simp: lru_put_def lru_seen_def lru_remove_def lru_ok_def lru_set_inv lru_get_inv lru_delete_inv
      lru_set_bounded lru_get_bounded lru_delete_bounded lru_set_live [OF _ assms] lru_get_frame
      lru_delete_live lru_get_same intro: lru_set_frame)

text \<open>
  \<open>makeStandaloneCacheStore\<close>: an unbounded instance with a time to live in seconds. \<open>del\<close> reports
  how many entries it removed.
\<close>

definition cache_store_options :: "nat \<Rightarrow> lru_options" where
  "cache_store_options ttlSeconds = \<lparr>ttl = ttlSeconds * 1000, lru_max = None, updateAgeOnGet = False\<rparr>"

definition cache_store_del :: "'k \<Rightarrow> ('k, 'v) lru \<Rightarrow> nat \<times> ('k, 'v) lru" where
  "cache_store_del k m = (if lru_has k m then 1 else 0, lru_remove k m)"

interpretation cache_store: expiring_cache lru_live "lru_put (cache_store_options s)"
    "lru_seen (cache_store_options s)" lru_remove "lru_ok (cache_store_options s)" "s * 1000" for s
  using lru_expiring_cache [of "cache_store_options s"] by (simp add: cache_store_options_def)

subsection \<open>Properties\<close>

text \<open>
  C5: Every operation of the map, timer callbacks included, keeps its invariant: distinct keys, one
  armed timer per entry, due when the entry expires, and no timer without its entry.
\<close>

theorem lru_operations_keep_invariant:
  assumes "lru_inv m"
  shows "lru_inv (fst (lru_set opts now k v m)) \<and> lru_inv (fst (snd (lru_get opts now k m)))
    \<and> lru_inv (fst (lru_delete k m)) \<and> lru_inv (fst (lru_timer_fires t m)) \<and> lru_inv (fst (lru_clear m))"
  using assms by (simp add: lru_set_inv lru_get_inv lru_delete_inv lru_timer_inv lru_clear_inv)

theorem lru_operations_keep_invariant_witness:
  "lru_inv (fst (lru_set \<lparr>ttl = 5, lru_max = Some 1, updateAgeOnGet = True\<rparr> 0 ''a'' (7 :: nat) lru_new))"
  by (rule conjunct1 [OF lru_operations_keep_invariant [OF lru_inv_new]])

text \<open>
  A stored value is what a lookup returns until its time to live is over and never after; with a
  bound of at least one the new entry is never the one evicted, the bound holds after every store,
  and no other key gains a value.
\<close>

theorem lru_set_get:
  assumes "lru_inv m" and "lru_bounded opts m" and "lru_max opts \<noteq> Some 0"
  shows "fst (lru_get opts later k (fst (lru_set opts now k v m))) = (if later < now + ttl opts then Some v else None)
    \<and> lru_bounded opts (fst (lru_set opts now k v m))
    \<and> (\<forall>k' w. k' \<noteq> k \<longrightarrow> fst (lru_get opts later k' (fst (lru_set opts now k v m))) = Some w \<longrightarrow>
         fst (lru_get opts later k' m) = Some w)"
  using assms by (auto simp: lru_get_value lru_set_live lru_set_bounded dest: lru_set_frame)

theorem lru_set_get_witness:
  "fst (lru_get \<lparr>ttl = 5, lru_max = Some 1, updateAgeOnGet = False\<rparr> 4 ''b''
      (fst (lru_set \<lparr>ttl = 5, lru_max = Some 1, updateAgeOnGet = False\<rparr> 0 ''b'' (1 :: nat) lru_new))) = Some 1"
  using lru_set_get [OF lru_inv_new, of "\<lparr>ttl = 5, lru_max = Some 1, updateAgeOnGet = False\<rparr>" 4 "''b''" 0 "1 :: nat"]
  by (simp add: lru_bounded_def lru_new_def)

end
