(* ===== verification/Bytes.thy ===== *)
theory Bytes
  imports Prelude "HOL-Library.Word"
begin

text \<open>
  \<open>src/src/Runtime/bytes.ts\<close>: the portable byte codecs. A \<open>Uint8Array\<close> is a list of 8-bit words;
  the 32-bit integers that JavaScript's bitwise operators work on are 32-bit words, and storing
  one into a byte array truncates it. The errors the decoders throw are values.
\<close>

unbundle bit_operations_syntax

type_synonym byte = "8 word"
type_synonym i32 = "32 word"

datatype range_error =
    OddHexLength | InvalidHexAt nat | InvalidPadding | InvalidLength | InvalidBase64Char char

definition HEX_DIGITS :: js_string where
  "HEX_DIGITS = ''0123456789abcdef''"

definition BASE64_ALPHABET :: js_string where
  "BASE64_ALPHABET = ''ABCDEFGHIJKLMNOPQRSTUVWXYZabcdefghijklmnopqrstuvwxyz0123456789+/''"

definition concatBytes :: "byte list list \<Rightarrow> byte list" where
  "concatBytes parts = foldl (\<lambda>out part. out @ part) [] parts"

fun bytesEqual_from :: "byte list \<Rightarrow> byte list \<Rightarrow> bool" where
  "bytesEqual_from (a # as) (b # bs) = (if a \<noteq> b then False else bytesEqual_from as bs)"
| "bytesEqual_from _ _ = True"

definition bytesEqual :: "byte list \<Rightarrow> byte list \<Rightarrow> bool" where
  "bytesEqual a b = (if length a \<noteq> length b then False else bytesEqual_from a b)"

definition unixTimestampSeconds :: "int \<Rightarrow> int" where
  "unixTimestampSeconds millis = millis div 1000"

text \<open>The \<open>{ low, high }\<close> shape of a 64-bit number and the others \<open>toNumber\<close> accepts.\<close>

datatype number_like =
    Nullish | PlainNumber int | WithToNumber int | LowHigh int "int option" | OtherShape

fun toNumber :: "number_like \<Rightarrow> int" where
  "toNumber Nullish = 0"
| "toNumber (PlainNumber n) = n"
| "toNumber (WithToNumber n) = n"
| "toNumber (LowHigh low high) =
     (case high of None \<Rightarrow> 0 | Some h \<Rightarrow> h) * 0x100000000 + low mod 2 ^ 32"
| "toNumber OtherShape = 0"

subsection \<open>Hexadecimal\<close>

definition hexEncode :: "byte list \<Rightarrow> js_string" where
  "hexEncode bytes =
     concat (map (\<lambda>b. [HEX_DIGITS ! unat (drop_bit 4 b), HEX_DIGITS ! unat (b AND 0x0f)]) bytes)"

definition to_lower :: "char \<Rightarrow> char" where
  "to_lower c = (let n = (of_char c :: nat) in if 65 \<le> n \<and> n \<le> 90 then char_of (n + 32) else c)"

fun hex_pairs :: "nat \<Rightarrow> js_string \<Rightarrow> range_error + byte list" where
  "hex_pairs offset (h # l # rest) =
     (case (str_index (to_lower h) HEX_DIGITS, str_index (to_lower l) HEX_DIGITS) of
        (Some hi, Some lo) \<Rightarrow>
          (case hex_pairs (offset + 2) rest of
             Inl e \<Rightarrow> Inl e
           | Inr out \<Rightarrow> Inr ((push_bit 4 (of_nat hi) OR of_nat lo) # out))
      | _ \<Rightarrow> Inl (InvalidHexAt offset))"
| "hex_pairs offset _ = Inr []"

definition hexDecode :: "js_string \<Rightarrow> range_error + byte list" where
  "hexDecode text = (if length text mod 2 \<noteq> 0 then Inl OddHexLength else hex_pairs 0 text)"

subsection \<open>Base 64\<close>

text \<open>One round of the encoding loop; an absent second or third byte counts as zero.\<close>

definition base64_group :: "byte \<Rightarrow> byte option \<Rightarrow> byte option \<Rightarrow> js_string" where
  "base64_group a b c =
     (let triple = (push_bit 16 (ucast a) OR push_bit 8 (ucast (case b of None \<Rightarrow> 0 | Some x \<Rightarrow> x)))
                    OR ucast (case c of None \<Rightarrow> 0 | Some x \<Rightarrow> x) :: i32
      in [BASE64_ALPHABET ! unat (drop_bit 18 triple AND 0x3f),
          BASE64_ALPHABET ! unat (drop_bit 12 triple AND 0x3f),
          (if b \<noteq> None then BASE64_ALPHABET ! unat (drop_bit 6 triple AND 0x3f) else CHR ''=''),
          (if c \<noteq> None then BASE64_ALPHABET ! unat (triple AND 0x3f) else CHR ''='')])"

fun base64Encode :: "byte list \<Rightarrow> js_string" where
  "base64Encode [] = []"
| "base64Encode [a] = base64_group a None None"
| "base64Encode [a, b] = base64_group a (Some b) None"
| "base64Encode (a # b # c # rest) = base64_group a (Some b) (Some c) @ base64Encode rest"

definition base64Value :: "char \<Rightarrow> range_error + i32" where
  "base64Value c =
     (if c = CHR ''='' then Inr 0
      else (case str_index c BASE64_ALPHABET of
              None \<Rightarrow> Inl (InvalidBase64Char c) | Some index \<Rightarrow> Inr (of_nat index)))"

definition base64_quad :: "char \<Rightarrow> char \<Rightarrow> char \<Rightarrow> char \<Rightarrow> range_error + byte list" where
  "base64_quad p q r s =
     (case base64Value p of Inl e \<Rightarrow> Inl e | Inr v0 \<Rightarrow>
      (case base64Value q of Inl e \<Rightarrow> Inl e | Inr v1 \<Rightarrow>
       (case base64Value r of Inl e \<Rightarrow> Inl e | Inr v2 \<Rightarrow>
        (case base64Value s of Inl e \<Rightarrow> Inl e | Inr v3 \<Rightarrow>
          (let quad = ((push_bit 18 v0 OR push_bit 12 v1) OR push_bit 6 v2) OR v3
           in Inr [ucast (drop_bit 16 quad AND 0xff), ucast (drop_bit 8 quad AND 0xff),
                   ucast (quad AND 0xff)])))))"

fun base64_quads :: "js_string \<Rightarrow> range_error + byte list" where
  "base64_quads (p # q # r # s # rest) =
     (case base64_quad p q r s of Inl e \<Rightarrow> Inl e | Inr bs \<Rightarrow>
       (case base64_quads rest of Inl e \<Rightarrow> Inl e | Inr out \<Rightarrow> Inr (bs @ out)))"
| "base64_quads _ = Inr []"

definition url_to_plain :: "char \<Rightarrow> char" where
  "url_to_plain c = (if c = CHR ''-'' then CHR ''+'' else if c = CHR ''_'' then CHR ''/'' else c)"

definition pad_to_four :: "js_string \<Rightarrow> js_string" where
  "pad_to_four s = s @ replicate ((4 - length s mod 4) mod 4) (CHR ''='')"

definition check_padding :: "js_string \<Rightarrow> range_error option" where
  "check_padding clean =
     (case str_index (CHR ''='') clean of
        Some firstPadding \<Rightarrow>
          (let padding = length clean - firstPadding in
           if padding > 2 \<or> (\<exists>c\<in>set (drop firstPadding clean). c \<noteq> CHR ''='') then Some InvalidPadding
           else if length clean mod 4 \<noteq> 0 \<or> firstPadding mod 4 < 2 then Some InvalidPadding
           else None)
      | None \<Rightarrow> if length clean mod 4 = 1 then Some InvalidLength else None)"

text \<open>The guarded stores of the loop keep the first \<open>out.length\<close> of the decoded bytes.\<close>

definition base64Decode :: "js_string \<Rightarrow> range_error + byte list" where
  "base64Decode text =
     (let clean0 = map url_to_plain (filter (\<lambda>c. \<not> is_js_space c) text)
      in case check_padding clean0 of
           Some e \<Rightarrow> Inl e
         | None \<Rightarrow>
            (let clean = pad_to_four clean0;
                 pad = (if ends_with clean ''=='' then 2 else if ends_with clean ''='' then 1 else 0);
                 out_length = length clean div 4 * 3 - pad
             in case base64_quads clean of
                  Inl e \<Rightarrow> Inl e
                | Inr bs \<Rightarrow> Inr (take out_length bs)))"

definition plain_to_url :: "char \<Rightarrow> char" where
  "plain_to_url c = (if c = CHR ''+'' then CHR ''-'' else if c = CHR ''/'' then CHR ''_'' else c)"

definition strip_padding :: "js_string \<Rightarrow> js_string" where
  "strip_padding s = rev (dropWhile (\<lambda>c. c = CHR ''='') (rev s))"

definition base64UrlEncode :: "byte list \<Rightarrow> js_string" where
  "base64UrlEncode bytes = strip_padding (map plain_to_url (base64Encode bytes))"

definition base64UrlDecode :: "js_string \<Rightarrow> range_error + byte list" where
  "base64UrlDecode text = base64Decode (pad_to_four (map url_to_plain text))"

subsection \<open>Fixed-width integers\<close>

text \<open>
  \<open>bytes[offset]\<close> out of range is \<open>undefined\<close>, which the bitwise operators read as 0.
\<close>

definition byte_at :: "byte list \<Rightarrow> nat \<Rightarrow> i32" where
  "byte_at bytes i = (if i < length bytes then ucast (bytes ! i) else 0)"

definition readU16BE :: "byte list \<Rightarrow> nat \<Rightarrow> i32" where
  "readU16BE bytes offset = push_bit 8 (byte_at bytes offset) OR byte_at bytes (offset + 1)"

definition writeU16BE :: "i32 \<Rightarrow> byte list" where
  "writeU16BE v = [ucast (drop_bit 8 v AND 0xff), ucast (v AND 0xff)]"

definition writeU64BE :: "i32 \<Rightarrow> i32 \<Rightarrow> byte list" where
  "writeU64BE high low =
     [ucast (drop_bit 24 high AND 0xff), ucast (drop_bit 16 high AND 0xff),
      ucast (drop_bit 8 high AND 0xff), ucast (high AND 0xff),
      ucast (drop_bit 24 low AND 0xff), ucast (drop_bit 16 low AND 0xff),
      ucast (drop_bit 8 low AND 0xff), ucast (low AND 0xff)]"

subsection \<open>Lemmas\<close>

lemma concatBytes_concat: "concatBytes parts = concat parts"
proof -
  have "foldl (@) acc parts = acc @ concat parts" for acc
    by (induction parts arbitrary: acc) simp_all
  then show ?thesis by (simp add: concatBytes_def)
qed

lemma bytesEqual_iff: "bytesEqual a b \<longleftrightarrow> a = b"
proof -
  have "length a = length b \<Longrightarrow> bytesEqual_from a b = (a = b)"
    by (induction a b rule: list_induct2) auto
  then show ?thesis by (auto simp: bytesEqual_def)
qed

lemma str_index_nth: "distinct xs \<Longrightarrow> n < length xs \<Longrightarrow> str_index (xs ! n) xs = Some n"
proof (induction xs arbitrary: n)
  case (Cons x xs)
  then show ?case by (cases n) (auto simp: nth_mem)
qed simp

lemma alphabet_facts:
  "distinct HEX_DIGITS" "length HEX_DIGITS = 16"
  "distinct BASE64_ALPHABET" "length BASE64_ALPHABET = 64"
  by (simp_all add: HEX_DIGITS_def BASE64_ALPHABET_def)

lemma hex_digits_lower: "c \<in> set HEX_DIGITS \<Longrightarrow> to_lower c = c"
proof -
  have "list_all (\<lambda>c. to_lower c = c) HEX_DIGITS" by code_simp
  then show "c \<in> set HEX_DIGITS \<Longrightarrow> to_lower c = c" by (simp add: list_all_iff)
qed

lemma alphabet_chars:
  assumes "c \<in> set BASE64_ALPHABET"
  shows "\<not> is_js_space c \<and> c \<noteq> CHR ''='' \<and> c \<noteq> CHR ''-'' \<and> c \<noteq> CHR ''_'' \<and> url_to_plain (plain_to_url c) = c
     \<and> url_to_plain c = c \<and> plain_to_url c \<noteq> CHR ''=''"
proof -
  have "list_all (\<lambda>c. \<not> is_js_space c \<and> c \<noteq> CHR ''='' \<and> c \<noteq> CHR ''-'' \<and> c \<noteq> CHR ''_''
      \<and> url_to_plain (plain_to_url c) = c \<and> url_to_plain c = c \<and> plain_to_url c \<noteq> CHR ''='') BASE64_ALPHABET"
    by code_simp
  with assms show ?thesis by (simp add: list_all_iff)
qed

lemma nibble_bounds: "unat (drop_bit 4 (b :: byte)) < 16" "unat (b AND 0x0f) < 16"
proof -
  have "unat (drop_bit 4 b) = unat b div 16"
    by (subst unat_drop_bit_eq) (simp add: drop_bit_eq_div)
  then show "unat (drop_bit 4 b) < 16"
    using unsigned_less [of b, where 'a = nat] by simp
  have "b AND 0x0f \<le> 0x0f" by (rule word_and_le1)
  then have "unat (b AND 0x0f) \<le> unat (0x0f :: byte)" by (simp add: word_le_nat_alt)
  then show "unat (b AND 0x0f) < 16" by simp
qed

lemma sextet_bound: "unat ((x :: i32) AND 0x3f) < 64"
proof -
  have "x AND 0x3f \<le> 0x3f" by (rule word_and_le1)
  then have "unat (x AND 0x3f) \<le> unat (0x3f :: i32)" by (simp add: word_le_nat_alt)
  then show ?thesis by simp
qed

lemma masks:
  "(0x0f :: byte) = mask 4" "(0x3f :: i32) = mask 6" "(0xff :: i32) = mask 8"
  by (simp_all add: mask_eq_exp_minus_1)

lemma nibbles_join: "push_bit 4 (drop_bit 4 b) OR (b AND 0x0f) = (b :: byte)"
  unfolding masks by (rule bit_word_eqI) (auto simp: bit_simps)

lemma hex_digit_roundtrip:
  assumes "n < 16"
  shows "str_index (to_lower (HEX_DIGITS ! n)) HEX_DIGITS = Some n"
  using assms alphabet_facts by (simp add: hex_digits_lower str_index_nth)

lemma hex_pairs_encode: "hex_pairs k (hexEncode bs) = Inr bs"
proof (induction bs arbitrary: k)
  case Nil
  then show ?case by (simp add: hexEncode_def)
next
  case (Cons b bs)
  then have "hex_pairs (k + 2) (hexEncode bs) = Inr bs" by blast
  then show ?case
    using nibbles_join [of b]
    by (simp add: hexEncode_def hex_digit_roundtrip nibble_bounds)
qed

lemma length_hexEncode: "length (hexEncode bs) = 2 * length bs"
  by (induction bs) (simp_all add: hexEncode_def)


definition triple_of :: "byte \<Rightarrow> byte \<Rightarrow> byte \<Rightarrow> i32" where
  "triple_of a b c = (push_bit 16 (ucast a) OR push_bit 8 (ucast b)) OR ucast c"

lemma bit_triple:
  "bit (triple_of a b c) n \<longleftrightarrow>
     (16 \<le> n \<and> n < 24 \<and> bit a (n - 16)) \<or> (8 \<le> n \<and> n < 16 \<and> bit b (n - 8)) \<or> (n < 8 \<and> bit c n)"
  by (auto simp: triple_of_def bit_simps dest: bit_imp_le_length)

lemma triple_bytes:
  "(ucast (drop_bit 16 (triple_of a b c) AND 0xff) :: byte) = a"
  "(ucast (drop_bit 8 (triple_of a b c) AND 0xff) :: byte) = b"
  "(ucast (triple_of a b c AND 0xff) :: byte) = c"
  unfolding masks by (rule bit_word_eqI, auto simp: bit_simps bit_triple)+

lemma bit_sextet:
  "bit (push_bit k (drop_bit k (x :: i32) AND mask 6)) n \<longleftrightarrow> k \<le> n \<and> n < k + 6 \<and> bit x n"
  by (auto simp: bit_simps dest: bit_imp_le_length)

lemma sextets_join:
  "((push_bit 18 (drop_bit 18 (triple_of a b c) AND 0x3f) OR push_bit 12 (drop_bit 12 (triple_of a b c) AND 0x3f))
     OR push_bit 6 (drop_bit 6 (triple_of a b c) AND 0x3f)) OR (triple_of a b c AND 0x3f) = triple_of a b c"
    (is "?l = ?t")
proof (rule bit_word_eqI)
  fix n
  have "bit ?l n \<longleftrightarrow> n < 24 \<and> bit ?t n"
    unfolding masks bit_or_iff bit_sextet by (auto simp: bit_and_iff bit_mask_iff)
  then show "bit ?l n \<longleftrightarrow> bit ?t n" by (auto simp: bit_triple)
qed

lemma triple_pad:
  "triple_of a b 0 AND 0x3f = 0" "drop_bit 6 (triple_of a 0 0) AND 0x3f = 0"
  unfolding masks by (rule bit_word_eqI, auto simp: bit_simps bit_triple)+

lemma base64Value_sextet: "base64Value (BASE64_ALPHABET ! unat (x AND 0x3f)) = Inr (x AND 0x3f)"
proof -
  have "BASE64_ALPHABET ! unat (x AND 0x3f) \<in> set BASE64_ALPHABET"
    using sextet_bound [of x] alphabet_facts by (simp add: nth_mem)
  with alphabet_chars [OF this] sextet_bound [of x] alphabet_facts show ?thesis
    by (simp add: base64Value_def str_index_nth)
qed

lemma base64Value_pad: "base64Value (CHR ''='') = Inr 0"
  by (simp add: base64Value_def)

lemma quad_of_group:
  assumes "b = None \<Longrightarrow> c = None" and "base64_group a b c = [p, q, r, s]"
  shows "base64_quad p q r s =
    Inr [a, case b of None \<Rightarrow> 0 | Some x \<Rightarrow> x, case c of None \<Rightarrow> 0 | Some x \<Rightarrow> x]"
proof -
  let ?b = "case b of None \<Rightarrow> 0 | Some x \<Rightarrow> x" and ?c = "case c of None \<Rightarrow> 0 | Some x \<Rightarrow> x"
  let ?t = "triple_of a ?b ?c"
  have chars: "[p, q, r, s] = [BASE64_ALPHABET ! unat (drop_bit 18 ?t AND 0x3f),
       BASE64_ALPHABET ! unat (drop_bit 12 ?t AND 0x3f),
       (if b \<noteq> None then BASE64_ALPHABET ! unat (drop_bit 6 ?t AND 0x3f) else CHR ''=''),
       (if c \<noteq> None then BASE64_ALPHABET ! unat (?t AND 0x3f) else CHR ''='')]"
    by (simp only: assms(2) [symmetric] base64_group_def triple_of_def Let_def)
  have "base64Value p = Inr (drop_bit 18 ?t AND 0x3f)" "base64Value q = Inr (drop_bit 12 ?t AND 0x3f)"
    using chars by (simp_all add: base64Value_sextet)
  moreover have "base64Value r = Inr (drop_bit 6 ?t AND 0x3f)"
    using chars assms(1) by (cases b) (auto simp: base64Value_sextet base64Value_pad triple_pad)
  moreover have "base64Value s = Inr (?t AND 0x3f)"
    using chars by (cases c) (auto simp: base64Value_sextet base64Value_pad triple_pad)
  ultimately show ?thesis
    by (simp only: base64_quad_def sum.case Let_def sextets_join triple_bytes)
qed

lemma group_shape:
  "\<exists>p q r s. base64_group a b c = [p, q, r, s] \<and> p \<in> set BASE64_ALPHABET \<and> q \<in> set BASE64_ALPHABET
     \<and> (if b = None then r = CHR ''='' else r \<in> set BASE64_ALPHABET)
     \<and> (if c = None then s = CHR ''='' else s \<in> set BASE64_ALPHABET)"
  using sextet_bound alphabet_facts by (auto simp: base64_group_def Let_def nth_mem)

text \<open>How an encoding is laid out: alphabet characters, then as many pads as the tail lacks.\<close>

definition b64_tail :: "byte list \<Rightarrow> nat" where
  "b64_tail bs = (3 - length bs mod 3) mod 3"

lemma b64_tail_simps:
  "b64_tail [] = 0" "b64_tail [a] = 2" "b64_tail [a, b] = 1" "b64_tail (a # b # c # rest) = b64_tail rest"
proof -
  have "length (a # b # c # rest) mod 3 = length rest mod 3" by (simp add: numeral_3_eq_3 [symmetric])
  then show "b64_tail (a # b # c # rest) = b64_tail rest" by (simp only: b64_tail_def)
qed (simp_all add: b64_tail_def)

lemma encode_shape:
  "\<exists>body. base64Encode bs = body @ replicate (b64_tail bs) (CHR ''='') \<and> set body \<subseteq> set BASE64_ALPHABET
     \<and> length body + b64_tail bs = 4 * ((length bs + 2) div 3)"
proof (induction bs rule: base64Encode.induct)
  case (2 a)
  obtain p q where "base64Encode [a] = [p, q, CHR ''='', CHR ''='']" "p \<in> set BASE64_ALPHABET" "q \<in> set BASE64_ALPHABET"
    using group_shape [of a None None] by auto
  then show ?case by (intro exI [of _ "[p, q]"]) (simp add: b64_tail_simps numeral_2_eq_2)
next
  case (3 a b)
  obtain p q r where "base64Encode [a, b] = [p, q, r, CHR ''='']"
    "p \<in> set BASE64_ALPHABET" "q \<in> set BASE64_ALPHABET" "r \<in> set BASE64_ALPHABET"
    using group_shape [of a "Some b" None] by auto
  then show ?case by (intro exI [of _ "[p, q, r]"]) (simp add: b64_tail_simps)
next
  case (4 a b c rest)
  then obtain body where body: "base64Encode rest = body @ replicate (b64_tail rest) (CHR ''='')"
    "set body \<subseteq> set BASE64_ALPHABET" "length body + b64_tail rest = 4 * ((length rest + 2) div 3)"
    by blast
  obtain p q r s where grp: "base64_group a (Some b) (Some c) = [p, q, r, s]" "set [p, q, r, s] \<subseteq> set BASE64_ALPHABET"
    using group_shape [of a "Some b" "Some c"] by auto
  show ?case
    using body grp div_add_self1 [of 3 "length rest + 2"]
    by (intro exI [of _ "[p, q, r, s] @ body"]) (auto simp: b64_tail_simps)
qed (simp add: b64_tail_simps)

lemma quads_encode: "base64_quads (base64Encode bs) = Inr (bs @ replicate (b64_tail bs) 0)"
proof (induction bs rule: base64Encode.induct)
  case (2 a)
  obtain p q r s where "base64_group a None None = [p, q, r, s]" using group_shape by blast
  with quad_of_group [OF _ this] show ?case by (simp add: b64_tail_simps numeral_2_eq_2)
next
  case (3 a b)
  obtain p q r s where "base64_group a (Some b) None = [p, q, r, s]" using group_shape by blast
  with quad_of_group [OF _ this] show ?case by (simp add: b64_tail_simps)
next
  case (4 a b c rest)
  obtain p q r s where "base64_group a (Some b) (Some c) = [p, q, r, s]" using group_shape by blast
  with quad_of_group [OF _ this] 4 show ?case by (simp add: b64_tail_simps)
qed (simp add: b64_tail_simps)


lemma check_padding_shape:
  assumes "set body \<subseteq> set BASE64_ALPHABET" and "(length body + k) mod 4 = 0" and "k < 3"
  shows "check_padding (body @ replicate k (CHR ''='')) = None"
proof -
  have no: "CHR ''='' \<notin> set body" using assms(1) alphabet_chars by blast
  show ?thesis
  proof (cases k)
    case 0
    have "str_index (CHR ''='') body = None" using no by (simp add: str_index_None_iff)
    with 0 assms(2) show ?thesis by (simp add: check_padding_def)
  next
    case (Suc m)
    then have "str_index (CHR ''='') (body @ replicate k (CHR ''='')) = Some (length body)"
      using no by (simp add: str_index_first)
    moreover have "2 \<le> length body mod 4"
      using assms(2,3) Suc by presburger
    ultimately show ?thesis
      using assms(2,3) by (simp add: check_padding_def Let_def)
  qed
qed

lemma pads_at_end:
  assumes "set body \<subseteq> set BASE64_ALPHABET" and "k < 3"
  shows "(if ends_with (body @ replicate k (CHR ''='')) ''=='' then 2
          else if ends_with (body @ replicate k (CHR ''='')) ''='' then 1 else 0) = k"
proof -
  have no: "CHR ''='' \<notin> set body" using assms(1) alphabet_chars by blast
  have "k = 0 \<or> k = 1 \<or> k = 2" using assms(2) by arith
  then show ?thesis
  proof (elim disjE)
    assume "k = 0"
    then show ?thesis using no by (auto simp: ends_with_iff)
  next
    assume "k = 1"
    moreover have "\<not> ends_with (body @ ''='') ''==''"
      using no by (auto simp: ends_with_iff append_eq_append_conv2 Cons_eq_append_conv)
    ultimately show ?thesis by (auto simp: ends_with_iff)
  next
    assume "k = 2"
    then show ?thesis by (auto simp: ends_with_iff numeral_2_eq_2)
  qed
qed

lemma map_filter_clean:
  assumes "set body \<subseteq> set BASE64_ALPHABET"
  shows "map url_to_plain (filter (\<lambda>c. \<not> is_js_space c) (body @ replicate k (CHR ''=''))) =
    body @ replicate k (CHR ''='')"
proof -
  have "filter (\<lambda>c. \<not> is_js_space c) body = body" "map url_to_plain body = body"
    using assms alphabet_chars by (auto intro!: filter_True map_idI)
  moreover have "\<not> is_js_space (CHR ''='')" "url_to_plain (CHR ''='') = CHR ''=''"
    by (simp_all add: is_js_space_def url_to_plain_def)
  ultimately show ?thesis by simp
qed

lemma round_up_three: "(n + 2) div 3 * 3 = n + (3 - n mod 3) mod (3 :: nat)"
proof -
  define q r where "q = n div 3" and "r = n mod 3"
  then have n: "n = 3 * q + r" and "r = 0 \<or> r = 1 \<or> r = 2" by auto
  then have "(3 * q + r + 2) div 3 * 3 = 3 * q + r + (3 - r) mod 3" by (elim disjE) simp_all
  with n show ?thesis by (simp add: r_def)
qed

lemma pad_four:
  assumes "L + t = 4 * (m :: nat)" and "t < 3"
  shows "(4 - L mod 4) mod 4 = t"
proof -
  have "t = 0 \<or> t = 1 \<or> t = 2" using assms(2) by arith
  then have "L mod 4 = (4 - t) mod 4" using assms(1) by (elim disjE; simp; presburger)
  with \<open>t = 0 \<or> t = 1 \<or> t = 2\<close> show ?thesis by (elim disjE) simp_all
qed

lemma tail_bound: "b64_tail bs < 3"
  by (simp add: b64_tail_def)

lemma base64Decode_shape:
  assumes "set body \<subseteq> set BASE64_ALPHABET" and "(length body + k) mod 4 = 0" and "k < 3"
    and "base64_quads (body @ replicate k (CHR ''='')) = Inr bs"
  shows "base64Decode (body @ replicate k (CHR ''='')) = Inr (take ((length body + k) div 4 * 3 - k) bs)"
  using map_filter_clean [OF assms(1), of k] check_padding_shape [OF assms(1-3)]
    pads_at_end [OF assms(1,3)] assms(2,4)
  by (simp add: base64Decode_def Let_def pad_to_four_def)

lemma base64Decode_encode: "base64Decode (base64Encode bs) = Inr bs"
proof -
  obtain body where body: "base64Encode bs = body @ replicate (b64_tail bs) (CHR ''='')"
    "set body \<subseteq> set BASE64_ALPHABET" "length body + b64_tail bs = 4 * ((length bs + 2) div 3)"
    using encode_shape by blast
  have len: "(length body + b64_tail bs) div 4 * 3 - b64_tail bs = length bs"
    using round_up_three [of "length bs"] body(3) by (simp add: b64_tail_def)
  have "base64_quads (body @ replicate (b64_tail bs) (CHR ''='')) = Inr (bs @ replicate (b64_tail bs) 0)"
    using quads_encode [of bs] body(1) by simp
  moreover have "(length body + b64_tail bs) mod 4 = 0" using body(3) by simp
  ultimately show ?thesis
    using base64Decode_shape [OF body(2) _ tail_bound] len body(1) by simp
qed

lemma strip_padding_shape:
  assumes "CHR ''='' \<notin> set body"
  shows "strip_padding (body @ replicate k (CHR ''='')) = body"
proof -
  have "dropWhile (\<lambda>c. c = CHR ''='') (replicate k (CHR ''='') @ rev body) = rev body"
    using assms by (induction k) (cases "rev body"; auto)+
  then show ?thesis by (simp add: strip_padding_def)
qed

lemma base64UrlDecode_encode: "base64UrlDecode (base64UrlEncode bs) = Inr bs"
proof -
  obtain body where body: "base64Encode bs = body @ replicate (b64_tail bs) (CHR ''='')"
    "set body \<subseteq> set BASE64_ALPHABET" "length body + b64_tail bs = 4 * ((length bs + 2) div 3)"
    using encode_shape by blast
  have "CHR ''='' \<notin> set (map plain_to_url body)"
    using body(2) alphabet_chars by (metis (no_types, lifting) image_iff in_mono list.set_map)
  then have url: "base64UrlEncode bs = map plain_to_url body"
    by (simp add: base64UrlEncode_def body(1) strip_padding_shape plain_to_url_def)
  have orig: "map url_to_plain (map plain_to_url body) = body"
    using body(2) alphabet_chars by (auto intro!: map_idI)
  have "(4 - length body mod 4) mod 4 = b64_tail bs"
    by (rule pad_four [OF body(3) tail_bound])
  then have "pad_to_four (map url_to_plain (base64UrlEncode bs)) = base64Encode bs"
    by (simp only: url orig pad_to_four_def body(1))
  then show ?thesis by (simp add: base64UrlDecode_def base64Decode_encode)
qed

subsection \<open>Properties\<close>

text \<open>
  C4: Hexadecimal, base 64 and URL-safe base 64 all decode what they encode, byte for byte, with
  padding handled for every length, and the encoded lengths are the documented ones.
\<close>

theorem byte_codecs_roundtrip:
  "hexDecode (hexEncode bs) = Inr bs \<and> length (hexEncode bs) = 2 * length bs
   \<and> base64Decode (base64Encode bs) = Inr bs \<and> length (base64Encode bs) = 4 * ((length bs + 2) div 3)
   \<and> base64UrlDecode (base64UrlEncode bs) = Inr bs"
proof -
  have "length (base64Encode bs) = 4 * ((length bs + 2) div 3)"
    using encode_shape [of bs] by (auto simp: b64_tail_def)
  then show ?thesis
    by (simp add: hexDecode_def length_hexEncode hex_pairs_encode base64Decode_encode base64UrlDecode_encode)
qed

end
