(* ===== verification/RetryManager.thy ===== *)
theory RetryManager
  imports LruMap Bytes
begin

text \<open>
  \<open>src/src/Compatibility/public-api/message-retry-manager.ts\<close>: the retry bookkeeping of the
  compatibility layer, over four expiring maps. The map of recent messages disposes into the index
  from message ids to their keys. \<open>Date.now()\<close> is an argument; timers are those of the maps and
  the pending phone requests.
\<close>

datatype RetryReason =
    UnknownError | SignalErrorNoSession | SignalErrorInvalidKey | SignalErrorInvalidKeyId
  | SignalErrorInvalidMessage | SignalErrorInvalidSignature | SignalErrorFutureMessage
  | SignalErrorBadMac | SignalErrorInvalidSession | SignalErrorInvalidMsgKey
  | BadBroadcastEphemeralSetting | UnknownCompanionNoPrekey | AdvFailure | StatusRevokeDelay

definition RetryReasonValues :: "(RetryReason \<times> js_string) list" where
  "RetryReasonValues =
     [(UnknownError, ''UnknownError''), (SignalErrorNoSession, ''SignalErrorNoSession''),
      (SignalErrorInvalidKey, ''SignalErrorInvalidKey''), (SignalErrorInvalidKeyId, ''SignalErrorInvalidKeyId''),
      (SignalErrorInvalidMessage, ''SignalErrorInvalidMessage''),
      (SignalErrorInvalidSignature, ''SignalErrorInvalidSignature''),
      (SignalErrorFutureMessage, ''SignalErrorFutureMessage''), (SignalErrorBadMac, ''SignalErrorBadMac''),
      (SignalErrorInvalidSession, ''SignalErrorInvalidSession''), (SignalErrorInvalidMsgKey, ''SignalErrorInvalidMsgKey''),
      (BadBroadcastEphemeralSetting, ''BadBroadcastEphemeralSetting''),
      (UnknownCompanionNoPrekey, ''UnknownCompanionNoPrekey''), (AdvFailure, ''AdvFailure''),
      (StatusRevokeDelay, ''StatusRevokeDelay'')]"

definition reason_of_code :: "nat \<Rightarrow> RetryReason" where
  "reason_of_code n = fst (RetryReasonValues ! n)"

fun code_of_reason :: "RetryReason \<Rightarrow> nat" where
  "code_of_reason UnknownError = 0"
| "code_of_reason SignalErrorNoSession = 1"
| "code_of_reason SignalErrorInvalidKey = 2"
| "code_of_reason SignalErrorInvalidKeyId = 3"
| "code_of_reason SignalErrorInvalidMessage = 4"
| "code_of_reason SignalErrorInvalidSignature = 5"
| "code_of_reason SignalErrorFutureMessage = 6"
| "code_of_reason SignalErrorBadMac = 7"
| "code_of_reason SignalErrorInvalidSession = 8"
| "code_of_reason SignalErrorInvalidMsgKey = 9"
| "code_of_reason BadBroadcastEphemeralSetting = 10"
| "code_of_reason UnknownCompanionNoPrekey = 11"
| "code_of_reason AdvFailure = 12"
| "code_of_reason StatusRevokeDelay = 13"

definition MAC_ERROR_CODES :: "RetryReason set" where
  "MAC_ERROR_CODES = {SignalErrorInvalidMessage, SignalErrorBadMac}"

definition MESSAGE_KEY_SEPARATOR :: char where
  "MESSAGE_KEY_SEPARATOR = CHR 0x00"

definition RECREATE_SESSION_TIMEOUT :: nat where
  "RECREATE_SESSION_TIMEOUT = 60 * 60 * 1000"

definition recent_options :: lru_options where
  "recent_options = \<lparr>ttl = 5 * 60 * 1000, lru_max = Some 512, updateAgeOnGet = False\<rparr>"

definition history_options :: lru_options where
  "history_options = \<lparr>ttl = RECREATE_SESSION_TIMEOUT * 2, lru_max = None, updateAgeOnGet = False\<rparr>"

definition counter_options :: lru_options where
  "counter_options = \<lparr>ttl = 15 * 60 * 1000, lru_max = None, updateAgeOnGet = True\<rparr>"

definition base_key_options :: lru_options where
  "base_key_options = \<lparr>ttl = 15 * 60 * 1000, lru_max = Some 1024, updateAgeOnGet = False\<rparr>"

record 'msg recent_message =
  recent_body :: 'msg
  recent_at :: nat

record retry_statistics =
  totalRetries :: nat
  successfulRetries :: nat
  failedRetries :: nat
  mediaRetries :: nat
  sessionRecreations :: nat
  phoneRequests :: nat

definition no_statistics :: retry_statistics where
  "no_statistics = \<lparr>totalRetries = 0, successfulRetries = 0, failedRetries = 0, mediaRetries = 0,
     sessionRecreations = 0, phoneRequests = 0\<rparr>"

record 'msg retry_manager =
  recentMessagesMap :: "(js_string, 'msg recent_message) lru"
  messageKeyIndex :: "(js_string, js_string) omap"
  sessionRecreateHistory :: "(js_string, nat) lru"
  retryCounters :: "(js_string, nat) lru"
  baseKeys :: "(js_string, byte list) lru"
  pendingPhoneRequests :: "(js_string, nat) omap"
  nextPhoneTimer :: nat
  statistics :: retry_statistics
  maxMsgRetryCount :: nat

definition new_manager :: "nat \<Rightarrow> 'msg retry_manager" where
  "new_manager maxCount =
     \<lparr>recentMessagesMap = lru_new, messageKeyIndex = [], sessionRecreateHistory = lru_new,
      retryCounters = lru_new, baseKeys = lru_new, pendingPhoneRequests = [], nextPhoneTimer = 0,
      statistics = no_statistics, maxMsgRetryCount = maxCount\<rparr>"

subsection \<open>Recent messages\<close>

definition keyToString :: "js_string \<Rightarrow> js_string \<Rightarrow> js_string" where
  "keyToString dest mid = dest @ MESSAGE_KEY_SEPARATOR # mid"

text \<open>The \<open>dispose\<close> callback of the map of recent messages.\<close>

definition dispose_recent :: "js_string \<Rightarrow> (js_string, js_string) omap \<Rightarrow> (js_string, js_string) omap" where
  "dispose_recent key index =
     (case str_last_index MESSAGE_KEY_SEPARATOR key of
        None \<Rightarrow> index | Some i \<Rightarrow> omap_del (drop (i + 1) key) index)"

definition with_recent ::
  "(js_string, 'msg recent_message) lru \<times> (js_string \<times> 'msg recent_message) list \<Rightarrow>
     'msg retry_manager \<Rightarrow> 'msg retry_manager" where
  "with_recent r mgr =
     mgr\<lparr>recentMessagesMap := fst r,
         messageKeyIndex := foldl (\<lambda>ix p. dispose_recent (fst p) ix) (messageKeyIndex mgr) (snd r)\<rparr>"

definition addRecentMessage :: "nat \<Rightarrow> js_string \<Rightarrow> js_string \<Rightarrow> 'msg \<Rightarrow> 'msg retry_manager \<Rightarrow> 'msg retry_manager" where
  "addRecentMessage now dest mid msg mgr =
     (let keyString = keyToString dest mid;
          mgr1 = with_recent (lru_set recent_options now keyString \<lparr>recent_body = msg, recent_at = now\<rparr>
                   (recentMessagesMap mgr)) mgr
      in mgr1\<lparr>messageKeyIndex := omap_set mid keyString (messageKeyIndex mgr1)\<rparr>)"

definition getRecentMessage :: "nat \<Rightarrow> js_string \<Rightarrow> js_string \<Rightarrow> 'msg retry_manager \<Rightarrow> 'msg recent_message option \<times> 'msg retry_manager" where
  "getRecentMessage now dest mid mgr =
     (let (v, r) = lru_get recent_options now (keyToString dest mid) (recentMessagesMap mgr)
      in (v, with_recent r mgr))"

definition recent_timer_fires :: "nat \<Rightarrow> 'msg retry_manager \<Rightarrow> 'msg retry_manager" where
  "recent_timer_fires t mgr = with_recent (lru_timer_fires t (recentMessagesMap mgr)) mgr"

text \<open>A missing index entry and an empty key string are both falsy.\<close>

definition removeRecentMessage :: "js_string \<Rightarrow> 'msg retry_manager \<Rightarrow> 'msg retry_manager" where
  "removeRecentMessage messageId mgr =
     (case omap_get (messageKeyIndex mgr) messageId of
        None \<Rightarrow> mgr
      | Some keyString \<Rightarrow>
          if keyString = [] then mgr
          else
            (let mgr1 = with_recent (lru_delete keyString (recentMessagesMap mgr)) mgr
             in mgr1\<lparr>messageKeyIndex := omap_del messageId (messageKeyIndex mgr1)\<rparr>))"

subsection \<open>Session recreation\<close>

definition note_recreation :: "nat \<Rightarrow> js_string \<Rightarrow> 'msg retry_manager \<Rightarrow> 'msg retry_manager" where
  "note_recreation now jid mgr =
     mgr\<lparr>sessionRecreateHistory := lru_put history_options now jid now (sessionRecreateHistory mgr),
         statistics := (statistics mgr)\<lparr>sessionRecreations := Suc (sessionRecreations (statistics mgr))\<rparr>\<rparr>"

record recreate_answer =
  reason :: js_string
  recreate :: bool

text \<open>The rate-limited tail: a recreation more than an hour ago, or none, allows another.\<close>

definition recreate_by_age :: "nat \<Rightarrow> js_string \<Rightarrow> 'msg retry_manager \<Rightarrow> recreate_answer \<times> 'msg retry_manager" where
  "recreate_by_age now jid mgr =
     (let previous = lru_live (sessionRecreateHistory mgr) now jid;
          mgr1 = mgr\<lparr>sessionRecreateHistory := lru_seen history_options now jid (sessionRecreateHistory mgr)\<rparr>;
          due = (case previous of None \<Rightarrow> True
                 | Some p \<Rightarrow> p = 0 \<or> int now - int p > int RECREATE_SESSION_TIMEOUT)
      in if due then
           (\<lparr>reason = ''retry count > 1 and over an hour since last recreation'', recreate = True\<rparr>,
            note_recreation now jid mgr1)
         else (\<lparr>reason = [], recreate = False\<rparr>, mgr1))"

definition shouldRecreateSession ::
  "nat \<Rightarrow> js_string \<Rightarrow> bool \<Rightarrow> RetryReason option \<Rightarrow> 'msg retry_manager \<Rightarrow> recreate_answer \<times> 'msg retry_manager" where
  "shouldRecreateSession now jid hasSession errorCode mgr =
     (if \<not> hasSession then
        (\<lparr>reason = ''we don't have a Signal session with them'', recreate = True\<rparr>, note_recreation now jid mgr)
      else
        (case errorCode of
           Some e \<Rightarrow>
             if e \<in> MAC_ERROR_CODES then
               (\<lparr>reason = ''MAC error (code '' @ show_nat (code_of_reason e) @ '': '' @
                   (case map_of RetryReasonValues e of Some n \<Rightarrow> n | None \<Rightarrow> ''undefined'') @
                   ''), immediate session recreation'',
                 recreate = True\<rparr>, note_recreation now jid mgr)
             else recreate_by_age now jid mgr
         | None \<Rightarrow> recreate_by_age now jid mgr))"

definition parseRetryErrorCode :: "js_string option \<Rightarrow> RetryReason option" where
  "parseRetryErrorCode errorAttr =
     (case errorAttr of None \<Rightarrow> None
      | Some s \<Rightarrow>
          if s = [] then None
          else (case parse_int10 s of
                  None \<Rightarrow> None
                | Some code \<Rightarrow>
                    if code \<ge> 0 \<and> code \<le> 13 then Some (reason_of_code (nat code)) else Some UnknownError))"

definition isMacError :: "RetryReason option \<Rightarrow> bool" where
  "isMacError errorCode = (case errorCode of None \<Rightarrow> False | Some e \<Rightarrow> e \<in> MAC_ERROR_CODES)"

subsection \<open>Retry counters\<close>

text \<open>\<open>set(id, (get(id) || 0) + 1)\<close> and the read that produces the returned count.\<close>

definition bump_counter :: "nat \<Rightarrow> js_string \<Rightarrow> (js_string, nat) lru \<Rightarrow> (js_string, nat) lru" where
  "bump_counter now messageId counters =
     (let (old, c1, _) = lru_get counter_options now messageId counters;
          c2 = lru_put counter_options now messageId ((case old of None \<Rightarrow> 0 | Some n \<Rightarrow> n) + 1) c1
      in lru_seen counter_options now messageId c2)"

definition incrementRetryCount :: "nat \<Rightarrow> js_string \<Rightarrow> 'msg retry_manager \<Rightarrow> nat option \<times> 'msg retry_manager" where
  "incrementRetryCount now messageId mgr =
     (let counters = bump_counter now messageId (retryCounters mgr)
      in (lru_live counters now messageId,
          mgr\<lparr>retryCounters := counters,
              statistics := (statistics mgr)\<lparr>totalRetries := Suc (totalRetries (statistics mgr))\<rparr>\<rparr>))"

definition getRetryCount :: "nat \<Rightarrow> js_string \<Rightarrow> 'msg retry_manager \<Rightarrow> nat \<times> 'msg retry_manager" where
  "getRetryCount now messageId mgr =
     (let (v, c, _) = lru_get counter_options now messageId (retryCounters mgr)
      in (case v of None \<Rightarrow> 0 | Some n \<Rightarrow> n, mgr\<lparr>retryCounters := c\<rparr>))"

definition hasExceededMaxRetries :: "nat \<Rightarrow> js_string \<Rightarrow> 'msg retry_manager \<Rightarrow> bool \<times> 'msg retry_manager" where
  "hasExceededMaxRetries now messageId mgr =
     (let (n, mgr1) = getRetryCount now messageId mgr in (n \<ge> maxMsgRetryCount mgr, mgr1))"

subsection \<open>Phone requests and outcomes\<close>

definition cancelPendingPhoneRequest :: "js_string \<Rightarrow> 'msg retry_manager \<Rightarrow> 'msg retry_manager" where
  "cancelPendingPhoneRequest messageId mgr =
     mgr\<lparr>pendingPhoneRequests := omap_del messageId (pendingPhoneRequests mgr)\<rparr>"

definition schedulePhoneRequest :: "js_string \<Rightarrow> 'msg retry_manager \<Rightarrow> 'msg retry_manager" where
  "schedulePhoneRequest messageId mgr =
     (let mgr1 = cancelPendingPhoneRequest messageId mgr
      in mgr1\<lparr>pendingPhoneRequests := omap_set messageId (nextPhoneTimer mgr1) (pendingPhoneRequests mgr1),
              nextPhoneTimer := Suc (nextPhoneTimer mgr1)\<rparr>)"

text \<open>
  The timer callback of a request; the boolean says whether the caller's callback ran. A cleared
  timer never fires.
\<close>

definition phone_timer_fires :: "js_string \<Rightarrow> nat \<Rightarrow> 'msg retry_manager \<Rightarrow> bool \<times> 'msg retry_manager" where
  "phone_timer_fires messageId t mgr =
     (if omap_get (pendingPhoneRequests mgr) messageId = Some t then
        (True, mgr\<lparr>pendingPhoneRequests := omap_del messageId (pendingPhoneRequests mgr),
                   statistics := (statistics mgr)\<lparr>phoneRequests := Suc (phoneRequests (statistics mgr))\<rparr>\<rparr>)
      else (False, mgr))"

definition forget_message :: "js_string \<Rightarrow> 'msg retry_manager \<Rightarrow> 'msg retry_manager" where
  "forget_message messageId mgr =
     removeRecentMessage messageId
       (cancelPendingPhoneRequest messageId
         (mgr\<lparr>retryCounters := lru_remove messageId (retryCounters mgr)\<rparr>))"

definition markRetrySuccess :: "js_string \<Rightarrow> 'msg retry_manager \<Rightarrow> 'msg retry_manager" where
  "markRetrySuccess messageId mgr =
     forget_message messageId
       (mgr\<lparr>statistics := (statistics mgr)\<lparr>successfulRetries := Suc (successfulRetries (statistics mgr))\<rparr>\<rparr>)"

definition markRetryFailed :: "js_string \<Rightarrow> 'msg retry_manager \<Rightarrow> 'msg retry_manager" where
  "markRetryFailed messageId mgr =
     forget_message messageId
       (mgr\<lparr>statistics := (statistics mgr)\<lparr>failedRetries := Suc (failedRetries (statistics mgr))\<rparr>\<rparr>)"

definition clear_manager :: "'msg retry_manager \<Rightarrow> 'msg retry_manager" where
  "clear_manager mgr =
     (let mgr1 = with_recent (lru_clear (recentMessagesMap mgr)) mgr
      in mgr1\<lparr>messageKeyIndex := [],
              sessionRecreateHistory := fst (lru_clear (sessionRecreateHistory mgr)),
              retryCounters := fst (lru_clear (retryCounters mgr)),
              baseKeys := fst (lru_clear (baseKeys mgr)),
              pendingPhoneRequests := [],
              statistics := no_statistics\<rparr>)"

subsection \<open>Base keys\<close>

definition base_key_id :: "js_string \<Rightarrow> js_string \<Rightarrow> js_string" where
  "base_key_id addr msgId = addr @ '':'' @ msgId"

definition saveBaseKey :: "nat \<Rightarrow> js_string \<Rightarrow> js_string \<Rightarrow> byte list \<Rightarrow> 'msg retry_manager \<Rightarrow> 'msg retry_manager" where
  "saveBaseKey now addr msgId baseKey mgr =
     mgr\<lparr>baseKeys := lru_put base_key_options now (base_key_id addr msgId) baseKey (baseKeys mgr)\<rparr>"

definition hasSameBaseKey :: "nat \<Rightarrow> js_string \<Rightarrow> js_string \<Rightarrow> byte list \<Rightarrow> 'msg retry_manager \<Rightarrow> bool \<times> 'msg retry_manager" where
  "hasSameBaseKey now addr msgId baseKey mgr =
     (let (stored, m, _) = lru_get base_key_options now (base_key_id addr msgId) (baseKeys mgr)
      in (case stored of
            None \<Rightarrow> False
          | Some s \<Rightarrow> length s = length baseKey \<and> list_all2 (=) s baseKey,
          mgr\<lparr>baseKeys := m\<rparr>))"

definition deleteBaseKey :: "js_string \<Rightarrow> js_string \<Rightarrow> 'msg retry_manager \<Rightarrow> 'msg retry_manager" where
  "deleteBaseKey addr msgId mgr = mgr\<lparr>baseKeys := lru_remove (base_key_id addr msgId) (baseKeys mgr)\<rparr>"

subsection \<open>The maps are expiring caches\<close>

interpretation recent: expiring_cache lru_live "lru_put recent_options" "lru_seen recent_options"
    lru_remove "lru_ok recent_options" "5 * 60 * 1000"
  using lru_expiring_cache [of recent_options] by (simp add: recent_options_def)

interpretation history: expiring_cache lru_live "lru_put history_options" "lru_seen history_options"
    lru_remove "lru_ok history_options" "RECREATE_SESSION_TIMEOUT * 2"
  using lru_expiring_cache [of history_options] by (simp add: history_options_def)

interpretation base_keys: expiring_cache lru_live "lru_put base_key_options" "lru_seen base_key_options"
    lru_remove "lru_ok base_key_options" "15 * 60 * 1000"
  using lru_expiring_cache [of base_key_options] by (simp add: base_key_options_def)

lemma counter_cache:
  "expiring_cache lru_live (lru_put counter_options) (lru_seen counter_options)
    lru_remove (lru_ok counter_options) (15 * 60 * 1000)"
  using lru_expiring_cache [of counter_options] by (simp add: counter_options_def)

lemma bump_counter_eq:
  "bump_counter now k m = lru_seen counter_options now k
     (lru_put counter_options now k (Suc (case lru_live m now k of None \<Rightarrow> 0 | Some n \<Rightarrow> n))
       (lru_seen counter_options now k m))"
  by (simp add: bump_counter_def lru_seen_def lru_get_value case_prod_beta Let_def)

interpretation counters: counting_cache lru_live "lru_put counter_options" "lru_seen counter_options"
    lru_remove "lru_ok counter_options" "15 * 60 * 1000" bump_counter
  by (intro counting_cache.intro counter_cache counting_cache_axioms.intro bump_counter_eq)


subsection \<open>The index and the map of recent messages\<close>

text \<open>Keys leave the map only through \<open>dispose\<close>.\<close>

definition disposes :: "('k, 'v) lru \<Rightarrow> ('k, 'v) lru \<times> ('k \<times> 'v) list \<Rightarrow> bool" where
  "disposes m r \<longleftrightarrow> (\<forall>k. lru_has k m \<longrightarrow> lru_has k (fst r) \<or> k \<in> fst ` set (snd r))"

lemma lru_has_delete: "lru_has k' (fst (lru_delete k m)) \<longleftrightarrow> k' \<noteq> k \<and> lru_has k' m"
  by (simp add: lru_has_def lru_delete_get)

lemma delete_disposes: "disposes m (lru_delete k m)"
  by (auto simp: disposes_def lru_has_def lru_delete_def omap_simps split: option.splits)

lemma evict_disposes: "disposes m (lru_evict opts m)"
  by (auto simp: lru_evict_def delete_disposes split: option.splits list.splits)
    (auto simp: disposes_def)

lemma has_store: "lru_has k' (lru_store opts now k v m) \<longleftrightarrow> k' = k \<or> lru_has k' m"
  by (simp add: lru_has_def lru_store_def Let_def omap_simps)

lemma set_disposes: "disposes m (lru_set opts now k v m)"
proof -
  obtain m1 g1 where d: "lru_delete k m = (m1, g1)" by fastforce
  obtain m2 g2 where e: "lru_evict opts (lru_store opts now k v m1) = (m2, g2)" by fastforce
  have "disposes m (m1, g1)" "disposes (lru_store opts now k v m1) (m2, g2)"
    using delete_disposes [of m k] evict_disposes [of "lru_store opts now k v m1" opts] d e by simp_all
  then show ?thesis by (fastforce simp: lru_set_def d e disposes_def has_store)
qed

lemma get_disposes: "disposes m (snd (lru_get opts now k m))"
  using delete_disposes [of m k]
  by (auto simp: lru_get_def disposes_def Let_def lru_has_def lru_refreshTimer_def omap_simps split: option.splits)

lemma timer_disposes: "disposes m (lru_timer_fires t m)"
proof -
  have "lru_has k' (m\<lparr>lru_timers := ts\<rparr>) \<longleftrightarrow> lru_has k' m" for k' ts by (simp add: lru_has_def)
  then show ?thesis
    using delete_disposes by (fastforce simp: lru_timer_fires_def disposes_def Let_def split: option.splits)
qed

lemma disposed_id:
  "MESSAGE_KEY_SEPARATOR \<notin> set mid \<Longrightarrow> dispose_recent (keyToString dest mid) ix = omap_del mid ix"
proof -
  assume "MESSAGE_KEY_SEPARATOR \<notin> set mid"
  then have "str_index MESSAGE_KEY_SEPARATOR (rev mid @ MESSAGE_KEY_SEPARATOR # rev dest) = Some (length mid)"
    using str_index_first [of MESSAGE_KEY_SEPARATOR "rev mid" "rev dest"] by simp
  then show ?thesis by (simp add: dispose_recent_def str_last_index_def keyToString_def)
qed

lemma dispose_get:
  "omap_get (dispose_recent key ix) i = Some ks \<Longrightarrow> omap_get ix i = Some ks"
  by (auto simp: dispose_recent_def omap_simps split: option.splits if_splits)

lemma disposals_get:
  "omap_get (foldl (\<lambda>ix p. dispose_recent (fst p) ix) ix ps) i = Some ks \<Longrightarrow>
     omap_get ix i = Some ks \<and>
     (MESSAGE_KEY_SEPARATOR \<notin> set i \<longrightarrow> (\<forall>dest. keyToString dest i \<notin> fst ` set ps))"
proof (induction ps arbitrary: ix)
  case (Cons p ps)
  then have "omap_get (dispose_recent (fst p) ix) i = Some ks"
    "MESSAGE_KEY_SEPARATOR \<notin> set i \<longrightarrow> (\<forall>dest. keyToString dest i \<notin> fst ` set ps)"
    by simp_all
  moreover have "fst p \<noteq> keyToString dest i" if "MESSAGE_KEY_SEPARATOR \<notin> set i" for dest
    using calculation(1) disposed_id [OF that, of dest ix] by (auto simp: omap_simps)
  ultimately show ?case by (auto dest: dispose_get) metis
qed simp

definition index_inv :: "'msg retry_manager \<Rightarrow> bool" where
  "index_inv mgr \<longleftrightarrow>
     (\<forall>i ks. omap_get (messageKeyIndex mgr) i = Some ks \<longrightarrow>
        MESSAGE_KEY_SEPARATOR \<notin> set i \<and> (\<exists>dest. ks = keyToString dest i) \<and> lru_has ks (recentMessagesMap mgr))"

lemma with_recent_inv:
  assumes "index_inv mgr" and "disposes (recentMessagesMap mgr) r"
  shows "index_inv (with_recent r mgr)"
  unfolding index_inv_def
proof (intro allI impI)
  fix i ks assume "omap_get (messageKeyIndex (with_recent r mgr)) i = Some ks"
  then have ix: "omap_get (messageKeyIndex mgr) i = Some ks"
    and gone: "MESSAGE_KEY_SEPARATOR \<notin> set i \<longrightarrow> (\<forall>dest. keyToString dest i \<notin> fst ` set (snd r))"
    using disposals_get [of "messageKeyIndex mgr" "snd r" i ks] by (simp_all add: with_recent_def)
  from assms(1) ix obtain dest where "MESSAGE_KEY_SEPARATOR \<notin> set i" and ks: "ks = keyToString dest i"
    and has: "lru_has ks (recentMessagesMap mgr)" unfolding index_inv_def by blast
  with gone have "ks \<notin> fst ` set (snd r)" by simp
  with has assms(2) have "lru_has ks (fst r)" unfolding disposes_def by blast
  with \<open>MESSAGE_KEY_SEPARATOR \<notin> set i\<close> ks
  show "MESSAGE_KEY_SEPARATOR \<notin> set i \<and> (\<exists>dest. ks = keyToString dest i)
      \<and> lru_has ks (recentMessagesMap (with_recent r mgr))"
    by (auto simp: with_recent_def)
qed

definition manager_ok :: "'msg retry_manager \<Rightarrow> bool" where
  "manager_ok mgr \<longleftrightarrow>
     lru_ok recent_options (recentMessagesMap mgr) \<and> lru_ok history_options (sessionRecreateHistory mgr) \<and>
     lru_ok counter_options (retryCounters mgr) \<and> lru_ok base_key_options (baseKeys mgr) \<and> index_inv mgr"

lemma lru_ok_new: "lru_ok opts lru_new"
  unfolding lru_ok_def lru_bounded_def
  by (rule conjI [OF lru_inv_new]) (simp add: lru_new_def split: option.splits)

lemma manager_ok_new: "manager_ok (new_manager n)"
  by (simp add: manager_ok_def new_manager_def lru_ok_new index_inv_def)

lemma has_after_set:
  assumes "lru_ok recent_options m"
  shows "lru_has k (fst (lru_set recent_options now k v m))"
  using recent.put_same [OF assms, of now k v now]
  by (auto simp: lru_put_def lru_live_def lru_has_def split: option.splits)

lemma add_recent_ok:
  assumes "manager_ok mgr" and "MESSAGE_KEY_SEPARATOR \<notin> set mid"
  shows "manager_ok (addRecentMessage now dest mid msg mgr)"
proof -
  let ?r = "lru_set recent_options now (keyToString dest mid) \<lparr>recent_body = msg, recent_at = now\<rparr> (recentMessagesMap mgr)"
  have "index_inv (with_recent ?r mgr)"
    using assms(1) by (intro with_recent_inv set_disposes) (simp add: manager_ok_def)
  moreover have "lru_has (keyToString dest mid) (fst ?r)" and "lru_ok recent_options (fst ?r)"
    using assms(1) recent.ok_put has_after_set by (auto simp: manager_ok_def lru_put_def)
  ultimately show ?thesis
    using assms by (auto simp: manager_ok_def addRecentMessage_def Let_def index_inv_def omap_simps with_recent_def)
qed

lemma with_recent_ok:
  "manager_ok mgr \<Longrightarrow> disposes (recentMessagesMap mgr) r \<Longrightarrow> lru_ok recent_options (fst r) \<Longrightarrow>
     manager_ok (with_recent r mgr)"
  using with_recent_inv [of mgr r] by (simp add: manager_ok_def) (simp add: with_recent_def)

lemma get_recent_ok: "manager_ok mgr \<Longrightarrow> manager_ok (snd (getRecentMessage now dest mid mgr))"
  unfolding getRecentMessage_def case_prod_beta snd_conv Let_def
  using recent.ok_seen [of "recentMessagesMap mgr" now "keyToString dest mid"]
  by (intro with_recent_ok get_disposes) (auto simp: manager_ok_def lru_seen_def)

lemma timer_le: "length (lru_entries (fst (lru_timer_fires t m))) \<le> length (lru_entries m)"
proof -
  have "length (lru_entries (fst (lru_delete k (m\<lparr>lru_timers := ts\<rparr>)))) \<le> length (lru_entries m)" for k ts
    using lru_delete_le [of k "m\<lparr>lru_timers := ts\<rparr>"] by simp
  then show ?thesis by (auto simp: lru_timer_fires_def Let_def split: option.splits)
qed

lemma timer_ok: "lru_ok opts m \<Longrightarrow> lru_ok opts (fst (lru_timer_fires t m))"
  using timer_le [of t m] lru_timer_inv [of m t]
  by (auto simp: lru_ok_def lru_bounded_def split: option.splits)

lemma recent_timer_ok: "manager_ok mgr \<Longrightarrow> manager_ok (recent_timer_fires t mgr)"
  unfolding recent_timer_fires_def
  by (intro with_recent_ok timer_disposes timer_ok) (auto simp: manager_ok_def)

lemma remove_recent_ok:
  assumes "manager_ok mgr"
  shows "manager_ok (removeRecentMessage mid mgr)"
proof (cases "omap_get (messageKeyIndex mgr) mid")
  case None
  with assms show ?thesis by (simp add: removeRecentMessage_def)
next
  case (Some ks)
  have "manager_ok (with_recent (lru_delete ks (recentMessagesMap mgr)) mgr)"
    using assms recent.ok_remove by (intro with_recent_ok delete_disposes) (auto simp: manager_ok_def lru_remove_def)
  with Some assms show ?thesis
    by (auto simp: removeRecentMessage_def Let_def manager_ok_def index_inv_def omap_simps)
qed

lemma forget_ok: "manager_ok mgr \<Longrightarrow> manager_ok (forget_message mid mgr)"
  unfolding forget_message_def
  by (rule remove_recent_ok)
    (auto simp: manager_ok_def cancelPendingPhoneRequest_def index_inv_def counters.ok_remove)

lemma mark_ok: "manager_ok mgr \<Longrightarrow> manager_ok (markRetrySuccess mid mgr)"
  "manager_ok mgr \<Longrightarrow> manager_ok (markRetryFailed mid mgr)"
  unfolding markRetrySuccess_def markRetryFailed_def
  by (rule forget_ok, simp add: manager_ok_def index_inv_def)+

lemma forget_effect:
  assumes "manager_ok mgr" and "omap_get (messageKeyIndex mgr) mid = Some ks"
  shows "lru_live (recentMessagesMap (forget_message mid mgr)) t ks = None
    \<and> omap_get (messageKeyIndex (forget_message mid mgr)) mid = None
    \<and> lru_live (retryCounters (forget_message mid mgr)) t mid = None
    \<and> omap_get (pendingPhoneRequests (forget_message mid mgr)) mid = None"
proof -
  obtain dest where "ks = keyToString dest mid" using assms by (auto simp: manager_ok_def index_inv_def)
  then have "ks \<noteq> []" by (simp add: keyToString_def)
  with assms show ?thesis
    by (simp add: forget_message_def removeRecentMessage_def cancelPendingPhoneRequest_def Let_def
        with_recent_def lru_delete_live omap_simps counters.remove_same manager_ok_def lru_remove_def)
qed

lemma retry_foldl:
  "retryCounters (foldl (\<lambda>m t. snd (incrementRetryCount t mid m)) mgr ts) =
     foldl (\<lambda>c t. bump_counter t mid c) (retryCounters mgr) ts
   \<and> maxMsgRetryCount (foldl (\<lambda>m t. snd (incrementRetryCount t mid m)) mgr ts) = maxMsgRetryCount mgr"
  by (induction ts arbitrary: mgr) (simp_all add: incrementRetryCount_def Let_def)

lemma note_recreation_live:
  "manager_ok mgr \<Longrightarrow> lru_live (sessionRecreateHistory (note_recreation now jid mgr)) t jid =
     (if t < now + 2 * RECREATE_SESSION_TIMEOUT then Some now else None)"
  by (simp add: note_recreation_def manager_ok_def history.put_same mult.commute)

text \<open>A granted recreation is noted in a well-formed manager.\<close>

lemma recreation_noted:
  assumes "manager_ok mgr" and "recreate (fst (shouldRecreateSession now jid has code mgr))"
  shows "\<exists>m. manager_ok m \<and> snd (shouldRecreateSession now jid has code mgr) = note_recreation now jid m"
proof -
  have "manager_ok (mgr\<lparr>sessionRecreateHistory := lru_seen history_options now jid (sessionRecreateHistory mgr)\<rparr>)"
    using assms(1) history.ok_seen by (auto simp: manager_ok_def index_inv_def)
  moreover have "snd (recreate_by_age now jid mgr) = note_recreation now jid
      (mgr\<lparr>sessionRecreateHistory := lru_seen history_options now jid (sessionRecreateHistory mgr)\<rparr>)"
    if "recreate (fst (recreate_by_age now jid mgr))"
    using that by (auto simp: recreate_by_age_def Let_def split: if_splits)
  ultimately show ?thesis
    using assms by (cases code) (auto simp: shouldRecreateSession_def split: if_splits)
qed

lemma reason_codes: "n \<le> 13 \<Longrightarrow> code_of_reason (reason_of_code n) = n"
proof -
  assume "n \<le> 13"
  moreover have "list_all (\<lambda>n. code_of_reason (reason_of_code n) = n) [0..<14]" by code_simp
  ultimately show ?thesis by (simp add: list_all_iff)
qed

subsection \<open>Properties\<close>

text \<open>
  C6: The index never dangles: every id it holds names a message that is still in the map of recent
  messages, under a key that ends in that id. Adding, reading, expiring, acknowledging and failing
  messages all keep this, together with the invariants of the four maps.
\<close>

theorem retry_index_never_dangles:
  assumes "manager_ok mgr" and "MESSAGE_KEY_SEPARATOR \<notin> set mid"
  shows "manager_ok (addRecentMessage now dest mid msg mgr)
    \<and> manager_ok (snd (getRecentMessage now dest mid mgr))
    \<and> manager_ok (recent_timer_fires t mgr)
    \<and> manager_ok (markRetrySuccess mid mgr) \<and> manager_ok (markRetryFailed mid mgr)"
  using assms by (simp add: add_recent_ok get_recent_ok recent_timer_ok mark_ok)

theorem retry_index_never_dangles_witness:
  "manager_ok (addRecentMessage 0 ''a@g.us'' ''id1'' (1 :: nat) (new_manager 5))"
  by (rule conjunct1 [OF retry_index_never_dangles [OF manager_ok_new]]) (simp add: MESSAGE_KEY_SEPARATOR_def)

text \<open>
  C7: Retries of one message that follow each other within the fifteen minutes a counter lives are
  all counted, so the limit is reported exactly when that many retries were made.
\<close>

theorem retries_counted_until_limit:
  assumes "manager_ok mgr" and "lru_live (retryCounters mgr) t0 mid = None" and "spaced 900000 t0 ts"
  shows "fst (hasExceededMaxRetries (last (t0 # ts)) mid
      (foldl (\<lambda>m t. snd (incrementRetryCount t mid m)) mgr (t0 # ts)))
    \<longleftrightarrow> maxMsgRetryCount mgr \<le> Suc (length ts)"
proof -
  have "lru_live (foldl (\<lambda>c t. bump_counter t mid c) (retryCounters mgr) (t0 # ts)) (last (t0 # ts)) mid
      = Some (Suc (length ts))"
    using assms by (intro counters.bumps_count_from_absent) (simp_all add: manager_ok_def)
  then show ?thesis
    using retry_foldl [where mgr = mgr and mid = mid and ts = "t0 # ts"]
    by (simp only: hasExceededMaxRetries_def getRetryCount_def case_prod_beta Let_def lru_get_value fst_conv
        option.case)
qed

theorem retries_counted_until_limit_witness:
  "fst (hasExceededMaxRetries 20 ''m'' (foldl (\<lambda>m t. snd (incrementRetryCount t ''m'' m))
      (new_manager 3 :: nat retry_manager) [0, 10, 20]))"
  using retries_counted_until_limit [OF manager_ok_new [of 3], where 'a = nat and mid = "''m''" and ?t0.0 = 0 and ts = "[10, 20]"]
  by (simp add: new_manager_def lru_live_def lru_new_def)

text \<open>
  A missing session or a MAC error always recreates the session at once; otherwise, after a
  recreation at time \<open>now\<close> another is refused for exactly an hour.
\<close>

theorem session_recreation_rate_limit:
  fixes mgr :: "'msg retry_manager"
  assumes "manager_ok mgr" and "0 < now" and "now \<le> later" and "\<not> isMacError code"
    and "recreate (fst (shouldRecreateSession now jid has code' mgr))"
  shows "(\<forall>m :: 'msg retry_manager. recreate (fst (shouldRecreateSession later jid False code m))
      \<and> recreate (fst (shouldRecreateSession later jid True (Some SignalErrorBadMac) m)))
    \<and> recreate (fst (shouldRecreateSession later jid True code (snd (shouldRecreateSession now jid has code' mgr))))
        = (later - now > RECREATE_SESSION_TIMEOUT)"
proof -
  let ?m = "snd (shouldRecreateSession now jid has code' mgr)"
  obtain m where "manager_ok m" and "?m = note_recreation now jid m"
    using recreation_noted [OF assms(1,5)] by blast
  then have live: "lru_live (sessionRecreateHistory ?m) later jid =
      (if later < now + 2 * RECREATE_SESSION_TIMEOUT then Some now else None)"
    by (simp add: note_recreation_live)
  have "shouldRecreateSession later jid True code ?m = recreate_by_age later jid ?m"
    using assms(4) by (cases code) (simp_all add: shouldRecreateSession_def isMacError_def)
  moreover have "recreate (fst (recreate_by_age later jid ?m)) = (later - now > RECREATE_SESSION_TIMEOUT)"
    using assms(2,3) unfolding recreate_by_age_def Let_def live
    by (auto simp: RECREATE_SESSION_TIMEOUT_def)
  ultimately show ?thesis
    by (simp add: shouldRecreateSession_def MAC_ERROR_CODES_def)
qed

theorem session_recreation_rate_limit_witness:
  "\<not> recreate (fst (shouldRecreateSession 3600005 ''a'' True None
      (snd (shouldRecreateSession 5 ''a'' False None (new_manager 5 :: nat retry_manager)))))"
proof -
  have "recreate (fst (shouldRecreateSession 5 ''a'' False None (new_manager 5 :: nat retry_manager)))"
    by (simp add: shouldRecreateSession_def)
  then show ?thesis
    using session_recreation_rate_limit [OF manager_ok_new [of 5], where 'msg = nat and now = 5 and later = 3600005
        and jid = "''a''" and has = False and code = None and code' = None]
    by (simp add: isMacError_def RECREATE_SESSION_TIMEOUT_def)
qed

text \<open>
  Acknowledging a message forgets everything the index reaches for it: the message, its counter
  and its pending phone request.
\<close>

theorem retry_success_forgets:
  assumes "manager_ok mgr" and "omap_get (messageKeyIndex mgr) mid = Some (keyToString dest mid)"
  shows "fst (getRecentMessage t dest mid (markRetrySuccess mid mgr)) = None
    \<and> fst (getRetryCount t mid (markRetrySuccess mid mgr)) = 0
    \<and> (\<forall>timer. \<not> fst (phone_timer_fires mid timer (markRetrySuccess mid mgr)))"
proof -
  let ?m0 = "mgr\<lparr>statistics := (statistics mgr)\<lparr>successfulRetries := Suc (successfulRetries (statistics mgr))\<rparr>\<rparr>"
  have "manager_ok ?m0" using assms(1) by (simp add: manager_ok_def index_inv_def)
  moreover have "omap_get (messageKeyIndex ?m0) mid = Some (keyToString dest mid)" using assms(2) by simp
  ultimately show ?thesis
    using forget_effect [of ?m0 mid "keyToString dest mid" t]
    by (simp add: markRetrySuccess_def getRecentMessage_def getRetryCount_def phone_timer_fires_def
        case_prod_beta Let_def lru_get_value)
qed

theorem retry_success_forgets_witness:
  "fst (getRecentMessage 1 ''a'' ''x'' (markRetrySuccess ''x'' (addRecentMessage 0 ''a'' ''x'' (7 :: nat) (new_manager 5)))) = None"
proof -
  have "manager_ok (addRecentMessage 0 ''a'' ''x'' (7 :: nat) (new_manager 5))"
    by (rule add_recent_ok [OF manager_ok_new]) (simp add: MESSAGE_KEY_SEPARATOR_def)
  then show ?thesis
    using retry_success_forgets [of "addRecentMessage 0 ''a'' ''x'' (7 :: nat) (new_manager 5)" "''x''" "''a''" 1]
    by (simp add: addRecentMessage_def Let_def omap_simps)
qed

text \<open>An error attribute is read as the reason it numbers, and any other number as an unknown error.\<close>

theorem parse_retry_error_code:
  "parseRetryErrorCode (Some (show_nat n)) =
     Some (if n \<le> 13 then reason_of_code n else UnknownError)
   \<and> code_of_reason (reason_of_code (n mod 14)) = n mod 14
   \<and> parseRetryErrorCode None = None \<and> parseRetryErrorCode (Some []) = None"
  using show_nat_digits [of n] reason_codes [of "n mod 14"]
  by (simp add: parseRetryErrorCode_def parse_int10_show_nat)

end
