(* ===== verification/Jid.thy ===== *)
theory Jid
  imports Prelude
begin

text \<open>
  \<open>src/src/WABinary/jid-utils.ts\<close>: building, decoding, comparing and normalising JIDs. The
  index-based decoder is related to the splitting decoder its comment names, and the comparison
  and normalisation that avoid decoding are related to the ones that decode.
\<close>

subsection \<open>Encoding\<close>

datatype js_user = UserNull | UserNum nat | UserStr js_string

fun user_text :: "js_user \<Rightarrow> js_string" where
  "user_text UserNull = []"
| "user_text (UserNum n) = (if n = 0 then [] else show_nat n)"
| "user_text (UserStr s) = s"

text \<open>An optional number that is printed after a mark when it is truthy.\<close>

definition num_suffix :: "char \<Rightarrow> nat option \<Rightarrow> js_string" where
  "num_suffix mark n = (case n of None \<Rightarrow> [] | Some k \<Rightarrow> if k = 0 then [] else mark # show_nat k)"

definition jidEncode :: "js_user \<Rightarrow> js_string \<Rightarrow> nat option \<Rightarrow> nat option \<Rightarrow> js_string" where
  "jidEncode user server device agent =
     user_text user @ num_suffix (CHR ''_'') agent @ num_suffix (CHR '':'') device @ ''@'' @ server"

definition getServerFromDomainType :: "js_string \<Rightarrow> int option \<Rightarrow> js_string" where
  "getServerFromDomainType initialServer domainType =
     (if domainType = Some 1 then ''lid''
      else if domainType = Some 128 then ''hosted''
      else if domainType = Some 129 then ''hosted.lid''
      else initialServer)"

subsection \<open>Decoding\<close>

text \<open>
  A device part is coerced to a number. Decimal digits below \<open>2 ^ 53\<close> are that number exactly;
  any other non-empty text is kept as the argument of the coercion.
\<close>

datatype device_num = DevNum nat | DevOther js_string

definition coerce_device :: "js_string \<Rightarrow> device_num" where
  "coerce_device s =
     (if list_all is_digit s \<and> digits_val s < 2 ^ 53 then DevNum (digits_val s) else DevOther s)"

definition is_hex_digit :: "char \<Rightarrow> bool" where
  "is_hex_digit c \<longleftrightarrow> is_digit c \<or> c \<in> set ''abcdefABCDEF''"

definition hex_digit_val :: "char \<Rightarrow> nat" where
  "hex_digit_val c =
     (let n = (of_char c :: nat) in if n \<le> 57 then n - 48 else if n \<le> 70 then n - 55 else n - 87)"

text \<open>\<open>parseInt(s)\<close> with no radix: as in base 10, but a \<open>0x\<close> prefix selects base 16.\<close>

definition parse_int :: "js_string \<Rightarrow> int option" where
  "parse_int s =
     (let t = dropWhile is_js_space s;
          neg = (t \<noteq> [] \<and> hd t = CHR ''-'');
          u = (if t \<noteq> [] \<and> (hd t = CHR ''-'' \<or> hd t = CHR ''+'') then tl t else t)
      in if starts_with u ''0x'' \<or> starts_with u ''0X'' then
           (let ds = takeWhile is_hex_digit (drop 2 u);
                v = int (foldl (\<lambda>n c. 16 * n + hex_digit_val c) 0 ds)
            in if ds = [] then None else Some (if neg then - v else v))
         else parse_int10 s)"

record full_jid =
  server :: js_string
  user :: js_string
  domainType :: "int option"
  device :: "device_num option"

text \<open>The result object of \<open>jidDecode\<close>, from the parts located in the JID.\<close>

definition decoded_jid :: "js_string \<Rightarrow> js_string \<Rightarrow> js_string option \<Rightarrow> js_string option \<Rightarrow> full_jid" where
  "decoded_jid srv usr agent dev =
     \<lparr>server = srv,
      user = usr,
      domainType =
        (if srv = ''lid'' then Some 1
         else if srv = ''hosted'' then Some 128
         else if srv = ''hosted.lid'' then Some 129
         else (case agent of None \<Rightarrow> Some 0 | Some a \<Rightarrow> if a = [] then Some 0 else parse_int a)),
      device = (case dev of None \<Rightarrow> None | Some d \<Rightarrow> if d = [] then None else Some (coerce_device d))\<rparr>"

definition indexBefore :: "js_string \<Rightarrow> char \<Rightarrow> nat \<Rightarrow> nat \<Rightarrow> int" where
  "indexBefore text c from limit =
     (let index = js_indexOf text c from in if index < int limit then index else -1)"

definition endBefore :: "js_string \<Rightarrow> char \<Rightarrow> nat \<Rightarrow> nat \<Rightarrow> nat" where
  "endBefore text c from limit =
     (let index = indexBefore text c from limit in if index < 0 then limit else nat index)"

definition jidDecode :: "js_string option \<Rightarrow> full_jid option" where
  "jidDecode jid =
     (case jid of None \<Rightarrow> None | Some value \<Rightarrow>
       (let sep = js_indexOf value (CHR ''@'') 0 in
        if sep < 0 then None
        else
          let sepIdx = nat sep;
              srv = js_slice value (sepIdx + 1) (length value);
              colonIdx = indexBefore value (CHR '':'') 0 sepIdx;
              userAgentEnd = (if colonIdx < 0 then sepIdx else nat colonIdx);
              dev = (if colonIdx < 0 then None
                     else Some (js_slice value (nat colonIdx + 1)
                       (endBefore value (CHR '':'') (nat colonIdx + 1) sepIdx)));
              underscoreIdx = indexBefore value (CHR ''_'') 0 userAgentEnd;
              usr = js_slice value 0 (if underscoreIdx < 0 then userAgentEnd else nat underscoreIdx);
              agent = (if underscoreIdx < 0 then None
                       else Some (js_slice value (nat underscoreIdx + 1)
                         (endBefore value (CHR ''_'') (nat underscoreIdx + 1) userAgentEnd)))
          in Some (decoded_jid srv usr agent dev)))"

text \<open>
  The reference: split the half before the at sign on colons and its first part on underscores,
  and keep the first two parts of each.
\<close>

definition second_part :: "js_string list \<Rightarrow> js_string option" where
  "second_part ps = (case ps of _ # p # _ \<Rightarrow> Some p | _ \<Rightarrow> None)"

definition jidDecode_split :: "js_string option \<Rightarrow> full_jid option" where
  "jidDecode_split jid =
     (case jid of None \<Rightarrow> None | Some value \<Rightarrow>
       (case str_index (CHR ''@'') value of None \<Rightarrow> None | Some sepIdx \<Rightarrow>
         let parts = js_split (CHR '':'') (take sepIdx value);
             userAgent = js_split (CHR ''_'') (hd parts)
         in Some (decoded_jid (drop (Suc sepIdx) value) (hd userAgent)
              (second_part userAgent) (second_part parts))))"

subsection \<open>Comparison and normalisation\<close>

definition userEndBefore :: "js_string \<Rightarrow> nat \<Rightarrow> nat" where
  "userEndBefore jid sepIdx =
     (let colonIdx = indexBefore jid (CHR '':'') 0 sepIdx;
          e = (if colonIdx < 0 then sepIdx else nat colonIdx);
          underscoreIdx = indexBefore jid (CHR ''_'') 0 e
      in if underscoreIdx < 0 then e else nat underscoreIdx)"

definition userEnd :: "js_string \<Rightarrow> int" where
  "userEnd jid =
     (let sepIdx = js_indexOf jid (CHR ''@'') 0
      in if sepIdx < 0 then -1 else int (userEndBefore jid (nat sepIdx)))"

definition areJidsSameUser :: "js_string option \<Rightarrow> js_string option \<Rightarrow> bool" where
  "areJidsSameUser jid1 jid2 =
     (let end1 = (case jid1 of None \<Rightarrow> -1 | Some j \<Rightarrow> userEnd j);
          end2 = (case jid2 of None \<Rightarrow> -1 | Some j \<Rightarrow> userEnd j)
      in if end1 \<noteq> end2 then False
         else if end1 < 0 then True
         else (case (jid1, jid2) of
                (Some left, Some right) \<Rightarrow> starts_with left (js_slice right 0 (nat end1))
              | _ \<Rightarrow> False))"

text \<open>Optional-chaining suffix tests; \<open>undefined\<close> is falsy.\<close>

definition has_server_suffix :: "js_string \<Rightarrow> js_string option \<Rightarrow> bool" where
  "has_server_suffix suffix jid = (case jid of None \<Rightarrow> False | Some j \<Rightarrow> ends_with j suffix)"

definition isJidMetaAI :: "js_string option \<Rightarrow> bool" where
  "isJidMetaAI = has_server_suffix ''@bot''"

definition isPnUser :: "js_string option \<Rightarrow> bool" where
  "isPnUser = has_server_suffix ''@s.whatsapp.net''"

definition isLidUser :: "js_string option \<Rightarrow> bool" where
  "isLidUser = has_server_suffix ''@lid''"

definition isJidBroadcast :: "js_string option \<Rightarrow> bool" where
  "isJidBroadcast = has_server_suffix ''@broadcast''"

definition isJidGroup :: "js_string option \<Rightarrow> bool" where
  "isJidGroup = has_server_suffix ''@g.us''"

definition isJidStatusBroadcast :: "js_string \<Rightarrow> bool" where
  "isJidStatusBroadcast jid \<longleftrightarrow> jid = ''status@broadcast''"

definition isJidNewsletter :: "js_string option \<Rightarrow> bool" where
  "isJidNewsletter = has_server_suffix ''@newsletter''"

definition isHostedLidUser :: "js_string option \<Rightarrow> bool" where
  "isHostedLidUser = has_server_suffix ''@hosted.lid''"

definition isHostedPnUser :: "js_string option \<Rightarrow> bool" where
  "isHostedPnUser = has_server_suffix ''@hosted''"

definition botRegexp_test :: "js_string \<Rightarrow> bool" where
  "botRegexp_test s \<longleftrightarrow>
     (starts_with s ''1313555'' \<and> length s = 11 \<and> list_all is_digit (drop 7 s)) \<or>
     (starts_with s ''131655500'' \<and> length s = 11 \<and> list_all is_digit (drop 9 s))"

definition isJidBot :: "js_string option \<Rightarrow> bool" where
  "isJidBot jid = (case jid of None \<Rightarrow> False
     | Some j \<Rightarrow> j \<noteq> [] \<and> botRegexp_test (hd (js_split (CHR ''@'') j)) \<and> ends_with j ''@c.us'')"

definition jidNormalizedUser :: "js_string option \<Rightarrow> js_string" where
  "jidNormalizedUser jid =
     (case jid of None \<Rightarrow> [] | Some j \<Rightarrow>
       (let sep = js_indexOf j (CHR ''@'') 0 in
        if sep < 0 then []
        else
          let sepIdx = nat sep; e = userEndBefore j sepIdx in
          if e = sepIdx \<and> \<not> ends_with j ''@c.us'' then j
          else
            let srv = js_slice j (sepIdx + 1) (length j)
            in jidEncode (UserStr (js_slice j 0 e))
                 (if srv = ''c.us'' then ''s.whatsapp.net'' else srv) None None))"

text \<open>
  \<open>None\<close> is the \<open>TypeError\<close> of destructuring an undecodable target. A device that is not plain
  digits is printed by \<open>other\<close>, the text of \<open>`:${device}`\<close> (empty when the number is falsy).
\<close>

definition transferDevice :: "(js_string \<Rightarrow> js_string) \<Rightarrow> js_string \<Rightarrow> js_string \<Rightarrow> js_string option" where
  "transferDevice other fromJid toJid =
     (case jidDecode (Some toJid) of None \<Rightarrow> None
      | Some target \<Rightarrow>
         Some (case Option.bind (jidDecode (Some fromJid)) device of
             None \<Rightarrow> jidEncode (UserStr (user target)) (server target) (Some 0) None
           | Some (DevNum n) \<Rightarrow> jidEncode (UserStr (user target)) (server target) (Some n) None
           | Some (DevOther s) \<Rightarrow> user target @ other s @ ''@'' @ server target))"


subsection \<open>Locating the parts\<close>

lemma js_indexOf_0: "js_indexOf s c 0 = (case str_index c s of None \<Rightarrow> -1 | Some i \<Rightarrow> int i)"
  by (simp add: js_indexOf_def split: option.splits)

lemma str_index_drop_take:
  "str_index c (drop k (take n s)) =
     (case str_index c (drop k s) of Some i \<Rightarrow> if k + i < n then Some i else None | None \<Rightarrow> None)"
  by (auto simp: drop_take str_index_take split: option.splits)

lemma indexBefore_eq:
  "indexBefore s c k n =
     (case str_index c (drop k (take n s)) of None \<Rightarrow> -1 | Some i \<Rightarrow> int (k + i))"
  by (auto simp: indexBefore_def js_indexOf_def str_index_drop_take Let_def split: option.splits)

lemma endBefore_eq:
  "endBefore s c k n =
     (case str_index c (drop k (take n s)) of None \<Rightarrow> n | Some i \<Rightarrow> k + i)"
  by (simp add: endBefore_def indexBefore_eq nat_add_distrib split: option.splits)

lemma hd_split_slice:
  "k \<le> n \<Longrightarrow> js_slice s k (endBefore s c k n) = hd (js_split c (drop k (take n s)))"
  by (auto simp: endBefore_eq js_split_hd js_slice_def drop_take min_def split: option.splits
      dest!: str_index_SomeD)

lemma second_part_split:
  "second_part (js_split c s) =
     (case str_index c s of None \<Rightarrow> None | Some i \<Rightarrow> Some (hd (js_split c (drop (Suc i) s))))"
proof (cases "str_index c s")
  case None
  with js_split_no_sep [of c s] show ?thesis
    by (simp add: second_part_def str_index_None_iff [symmetric])
next
  case (Some i)
  obtain p ps where tl: "js_split c (drop (Suc i) s) = p # ps"
    by (cases "js_split c (drop (Suc i) s)") simp_all
  from str_index_Some_split [OF Some] str_index_SomeD [OF Some]
  have "js_split c s = take i s # js_split c (drop (Suc i) s)"
    by (metis js_split_first)
  with Some tl show ?thesis by (simp add: second_part_def)
qed

lemma first_index_slice:
  "js_slice s 0 (if indexBefore s c 0 n < 0 then n else nat (indexBefore s c 0 n)) =
     hd (js_split c (take n s))"
  by (auto simp: indexBefore_eq js_split_hd js_slice_def min_def split: option.splits
      dest!: str_index_SomeD)

lemma index_bound: "str_index c (take n s) = Some i \<Longrightarrow> i < n"
  by (auto dest: str_index_SomeD)

lemma second_slice:
  "(if indexBefore s c 0 n < 0 then None
    else Some (js_slice s (nat (indexBefore s c 0 n) + 1)
           (endBefore s c (nat (indexBefore s c 0 n) + 1) n))) =
   second_part (js_split c (take n s))"
  using index_bound [of c n s]
  by (auto simp: indexBefore_eq second_part_split hd_split_slice split: option.splits)

text \<open>The half before the at sign up to its first colon, as a prefix of the JID.\<close>

lemma user_agent_prefix:
  "n \<le> length s \<Longrightarrow>
   take (if indexBefore s c 0 n < 0 then n else nat (indexBefore s c 0 n)) s = hd (js_split c (take n s))"
  using first_index_slice [of s c n] by (simp add: js_slice_def)

lemma jidDecode_eq_split: "jidDecode jid = jidDecode_split jid"
proof (cases jid)
  case None
  then show ?thesis by (simp add: jidDecode_def jidDecode_split_def)
next
  case (Some v)
  show ?thesis
  proof (cases "str_index (CHR ''@'') v")
    case None
    with Some show ?thesis by (simp add: jidDecode_def jidDecode_split_def js_indexOf_0)
  next
    case (Some sep)
    then have le: "sep \<le> length v" by (auto dest: str_index_SomeD)
    let ?u = "if indexBefore v (CHR '':'') 0 sep < 0 then sep else nat (indexBefore v (CHR '':'') 0 sep)"
    have srv: "js_slice v (sep + 1) (length v) = drop (Suc sep) v"
      by (simp add: js_slice_def)
    show ?thesis
      using \<open>jid = Some v\<close> Some
      by (simp only: jidDecode_def jidDecode_split_def js_indexOf_0 option.case Let_def
          srv nat_int first_index_slice second_slice user_agent_prefix [OF le]) simp
  qed
qed

subsection \<open>Comparing users\<close>

definition user_of :: "js_string option \<Rightarrow> js_string option" where
  "user_of jid = map_option user (jidDecode jid)"

lemma decoded_jid_sel [simp]:
  "user (decoded_jid srv usr agent dev) = usr" "server (decoded_jid srv usr agent dev) = srv"
  by (simp_all add: decoded_jid_def)

lemma userEndBefore_prefix:
  assumes "sep \<le> length s"
  shows "take (userEndBefore s sep) s = hd (js_split (CHR ''_'') (hd (js_split (CHR '':'') (take sep s))))
    \<and> userEndBefore s sep \<le> sep"
proof -
  let ?u = "if indexBefore s (CHR '':'') 0 sep < 0 then sep else nat (indexBefore s (CHR '':'') 0 sep)"
  let ?e = "if indexBefore s (CHR ''_'') 0 ?u < 0 then ?u else nat (indexBefore s (CHR ''_'') 0 ?u)"
  have "?u \<le> sep" and "?e \<le> ?u"
    by (auto simp: indexBefore_eq split: option.splits dest!: index_bound)
  moreover have "take ?e s = hd (js_split (CHR ''_'') (take ?u s))"
    using \<open>?u \<le> sep\<close> assms by (intro user_agent_prefix) simp
  moreover have "take ?u s = hd (js_split (CHR '':'') (take sep s))"
    by (rule user_agent_prefix [OF assms])
  moreover have "userEndBefore s sep = ?e"
    by (simp add: userEndBefore_def Let_def)
  ultimately show ?thesis by simp
qed

lemma userEnd_user_of:
  "(userEnd s = -1 \<and> user_of (Some s) = None) \<or>
   (\<exists>n. userEnd s = int n \<and> n \<le> length s \<and> user_of (Some s) = Some (take n s))"
proof (cases "str_index (CHR ''@'') s")
  case None
  then show ?thesis
    by (simp add: userEnd_def js_indexOf_0 user_of_def jidDecode_eq_split jidDecode_split_def)
next
  case (Some sep)
  then have "sep \<le> length s" by (auto dest: str_index_SomeD)
  with Some userEndBefore_prefix [OF this] show ?thesis
    by (auto simp: userEnd_def js_indexOf_0 user_of_def jidDecode_eq_split jidDecode_split_def Let_def)
qed

definition end_of :: "js_string option \<Rightarrow> int" where
  "end_of jid = (case jid of None \<Rightarrow> -1 | Some j \<Rightarrow> userEnd j)"

lemma end_of_user_of:
  "(end_of jid = -1 \<and> user_of jid = None) \<or>
   (\<exists>s n. jid = Some s \<and> end_of jid = int n \<and> n \<le> length s \<and> user_of jid = Some (take n s))"
proof (cases jid)
  case None
  then show ?thesis by (simp add: end_of_def user_of_def jidDecode_def)
next
  case (Some s)
  with userEnd_user_of [of s] show ?thesis by (auto simp: end_of_def)
qed

lemma areJidsSameUser_ends:
  "areJidsSameUser j1 j2 =
     (end_of j1 = end_of j2 \<and> (end_of j1 < 0 \<or>
       (case (j1, j2) of (Some s, Some t) \<Rightarrow> starts_with s (take (nat (end_of j1)) t) | _ \<Rightarrow> False)))"
  by (auto simp: areJidsSameUser_def end_of_def js_slice_def Let_def split: option.splits)

lemma starts_with_take: "n \<le> length t \<Longrightarrow> starts_with s (take n t) \<longleftrightarrow> take n s = take n t"
  by (simp add: starts_with_def min_def)

lemma areJidsSameUser_iff: "areJidsSameUser j1 j2 \<longleftrightarrow> user_of j1 = user_of j2"
  using end_of_user_of [of j1]
proof
  assume none: "end_of j1 = -1 \<and> user_of j1 = None"
  then have "areJidsSameUser j1 j2 = (end_of j2 = -1)"
    by (auto simp: areJidsSameUser_ends)
  with none show ?thesis using end_of_user_of [of j2] by (elim disjE) auto
next
  assume "\<exists>s n. j1 = Some s \<and> end_of j1 = int n \<and> n \<le> length s \<and> user_of j1 = Some (take n s)"
  then obtain s n where 1: "j1 = Some s" "end_of j1 = int n" "n \<le> length s" "user_of j1 = Some (take n s)"
    by blast
  show ?thesis using end_of_user_of [of j2]
  proof
    assume "end_of j2 = -1 \<and> user_of j2 = None"
    with 1 show ?thesis by (simp add: areJidsSameUser_ends)
  next
    assume "\<exists>s n. j2 = Some s \<and> end_of j2 = int n \<and> n \<le> length s \<and> user_of j2 = Some (take n s)"
    then obtain t m where 2: "j2 = Some t" "end_of j2 = int m" "m \<le> length t" "user_of j2 = Some (take m t)"
      by blast
    have "take n s = take m t \<Longrightarrow> n = m"
      using 1 2 by (metis length_take min.absorb2)
    with 1 2 show ?thesis by (auto simp: areJidsSameUser_ends starts_with_take)
  qed
qed

subsection \<open>Normalisation\<close>

lemma set_hd_split: "set (hd (js_split c s)) \<subseteq> set s - {c}"
  by (auto simp: js_split_hd str_index_None_iff split: option.splits
      dest: in_set_takeD dest!: str_index_SomeD)

lemma split_user_clean:
  assumes "str_index (CHR ''@'') s = Some sep"
  shows "set (hd (js_split (CHR ''_'') (hd (js_split (CHR '':'') (take sep s))))) \<inter> set ''@:_'' = {}"
proof -
  from assms have "CHR ''@'' \<notin> set (take sep s)" by (auto dest: str_index_SomeD)
  then show ?thesis
    using set_hd_split [of "CHR '':''" "take sep s"]
      set_hd_split [of "CHR ''_''" "hd (js_split (CHR '':'') (take sep s))"] by auto
qed

lemma jidNormalizedUser_eq:
  "jidNormalizedUser jid =
     (case jidDecode jid of None \<Rightarrow> []
      | Some d \<Rightarrow> jidEncode (UserStr (user d))
          (if server d = ''c.us'' then ''s.whatsapp.net'' else server d) None None)"
proof (cases jid)
  case None
  then show ?thesis by (simp add: jidNormalizedUser_def jidDecode_def)
next
  case (Some s)
  note s = this
  show ?thesis
  proof (cases "str_index (CHR ''@'') s")
    case None
    with s show ?thesis by (simp add: jidNormalizedUser_def jidDecode_def js_indexOf_0)
  next
    case (Some sep)
    then have le: "sep \<le> length s" by (auto dest: str_index_SomeD)
    have eq: "take sep s @ CHR ''@'' # drop (Suc sep) s = s"
      by (rule str_index_Some_split [OF Some, symmetric])
    let ?srv = "drop (Suc sep) s"
    let ?e = "userEndBefore s sep"
    have slow: "?srv = ''c.us'' \<Longrightarrow> ends_with s ''@c.us''"
      using eq unfolding ends_with_iff by metis
    have dec: "jidDecode (Some s) = Some (decoded_jid ?srv (take ?e s)
        (second_part (js_split (CHR ''_'') (hd (js_split (CHR '':'') (take sep s)))))
        (second_part (js_split (CHR '':'') (take sep s))))"
      using Some userEndBefore_prefix [OF le]
      by (simp add: jidDecode_eq_split jidDecode_split_def Let_def)
    have enc: "jidNormalizedUser (Some s) =
        (if ?e = sep \<and> \<not> ends_with s ''@c.us'' then s
         else take ?e s @ ''@'' @ (if ?srv = ''c.us'' then ''s.whatsapp.net'' else ?srv))"
      using Some by (simp add: jidNormalizedUser_def js_indexOf_0 Let_def js_slice_def jidEncode_def
          num_suffix_def)
    have "jidNormalizedUser (Some s) =
        take ?e s @ ''@'' @ (if ?srv = ''c.us'' then ''s.whatsapp.net'' else ?srv)"
      using slow eq unfolding enc by (cases "?e = sep \<and> \<not> ends_with s ''@c.us''") auto
    with s dec show ?thesis by (simp add: jidEncode_def num_suffix_def)
  qed
qed

lemma jidDecode_clean:
  assumes "set u \<inter> set ''@:_'' = {}"
  shows "jidDecode (Some (u @ ''@'' @ srv)) = Some (decoded_jid srv u None None)"
proof -
  have "str_index (CHR ''@'') (u @ ''@'' @ srv) = Some (length u)"
    using assms by (auto intro: str_index_first)
  with assms show ?thesis
    by (simp add: jidDecode_eq_split jidDecode_split_def js_split_no_sep second_part_def)
qed


lemma num_suffix_chars: "c \<in> set (num_suffix mark n) \<Longrightarrow> c = mark \<or> is_digit c"
  by (auto simp: num_suffix_def dest: set_show_nat split: option.splits if_splits)

lemma marks_not_digits: "\<not> is_digit (CHR ''@'')" "\<not> is_digit (CHR '':'')" "\<not> is_digit (CHR ''_'')"
  by (simp_all add: is_digit_def)

lemma split_num_suffix:
  assumes "c \<notin> set u" and "\<not> is_digit c"
  shows "hd (js_split c (u @ num_suffix c n)) = u"
    and "second_part (js_split c (u @ num_suffix c n)) =
           (case n of None \<Rightarrow> None | Some k \<Rightarrow> if k = 0 then None else Some (show_nat k))"
proof -
  have "js_split c (show_nat k) = [show_nat k]" for k
    using assms(2) by (intro js_split_no_sep) (auto dest: set_show_nat)
  with assms show "hd (js_split c (u @ num_suffix c n)) = u"
    "second_part (js_split c (u @ num_suffix c n)) =
       (case n of None \<Rightarrow> None | Some k \<Rightarrow> if k = 0 then None else Some (show_nat k))"
    by (auto simp: num_suffix_def js_split_no_sep js_split_first second_part_def split: option.splits)
qed

lemma jidDecode_encode:
  assumes "set u \<inter> set ''@:_'' = {}"
  shows "jidDecode (Some (jidEncode (UserStr u) srv dev agent)) =
    Some (decoded_jid srv u
      (case agent of None \<Rightarrow> None | Some k \<Rightarrow> if k = 0 then None else Some (show_nat k))
      (case dev of None \<Rightarrow> None | Some k \<Rightarrow> if k = 0 then None else Some (show_nat k)))"
proof -
  let ?pre = "(u @ num_suffix (CHR ''_'') agent) @ num_suffix (CHR '':'') dev"
  have "CHR ''@'' \<notin> set ?pre" and colon: "CHR '':'' \<notin> set (u @ num_suffix (CHR ''_'') agent)"
    using assms marks_not_digits by (auto dest: num_suffix_chars)
  then have "str_index (CHR ''@'') (?pre @ CHR ''@'' # srv) = Some (length ?pre)"
    by (intro str_index_first)
  moreover have "jidEncode (UserStr u) srv dev agent = ?pre @ CHR ''@'' # srv"
    by (simp add: jidEncode_def)
  ultimately show ?thesis
    using split_num_suffix [OF colon marks_not_digits(2), of dev] assms
      split_num_suffix [of "CHR ''_''" u agent] marks_not_digits(3)
    by (simp add: jidDecode_eq_split jidDecode_split_def Let_def)
qed

lemma parse_int_show_nat: "parse_int (show_nat n) = Some (int n)"
proof -
  obtain c cs where eq: "show_nat n = c # cs" and dig: "is_digit c" "list_all is_digit cs"
    by (rule show_nat_Cons)
  have "\<not> starts_with (show_nat n) ''0x'' \<and> \<not> starts_with (show_nat n) ''0X''"
    using dig by (cases cs) (auto simp: starts_with_def eq dest: digit_not_space)
  then show ?thesis
    using digit_not_space [OF dig(1)] parse_int10_show_nat [of n] by (simp add: parse_int_def eq)
qed

lemma coerce_show_nat: "n < 2 ^ 53 \<Longrightarrow> coerce_device (show_nat n) = DevNum n"
  using show_nat_digits [of n] by (simp add: coerce_device_def show_nat_val)

subsection \<open>Properties\<close>

text \<open>
  C1: The index-based decoder returns exactly what splitting the half before the at sign on colons
  and then on underscores returns, for every input, undecodable ones included.
\<close>

theorem jid_decode_agrees_with_splitting: "jidDecode jid = jidDecode_split jid"
  by (rule jidDecode_eq_split)

text \<open>
  C2: Comparing two JIDs in place gives the same answer as decoding both and comparing the users,
  with two undecodable JIDs comparing equal.
\<close>

theorem same_user_agrees_with_decoding:
  "areJidsSameUser jid1 jid2 \<longleftrightarrow> map_option user (jidDecode jid1) = map_option user (jidDecode jid2)"
  using areJidsSameUser_iff [of jid1 jid2] by (simp add: user_of_def)



text \<open>
  Normalisation, fast path included, drops exactly the agent and the device and maps the legacy
  server to the current one, and a normalised JID is its own normal form.
\<close>

theorem normalized_user_spec:
  "jidNormalizedUser jid =
     (case jidDecode jid of None \<Rightarrow> []
      | Some d \<Rightarrow> jidEncode (UserStr (user d))
          (if server d = ''c.us'' then ''s.whatsapp.net'' else server d) None None)
   \<and> jidNormalizedUser (Some (jidNormalizedUser jid)) = jidNormalizedUser jid"
proof (cases "jidDecode jid")
  case None
  then show ?thesis by (simp add: jidNormalizedUser_eq jidDecode_def js_indexOf_0)
next
  case (Some d)
  then obtain s sep where "jid = Some s" and sep: "str_index (CHR ''@'') s = Some sep"
    by (auto simp: jidDecode_eq_split jidDecode_split_def split: option.splits)
  with Some split_user_clean [OF sep] have clean: "set (user d) \<inter> set ''@:_'' = {}"
    by (auto simp: jidDecode_eq_split jidDecode_split_def Let_def)
  show ?thesis
    using Some jidDecode_clean [OF clean]
    by (simp add: jidNormalizedUser_eq jidEncode_def num_suffix_def)
qed

end
