(* ===== verification/Json.thy ===== *)
theory Json
  imports Prelude
begin

text \<open>
  The part of \<open>JSON.stringify\<close> and \<open>JSON.parse\<close> the stores and the stub parameters use. A number
  is kept as its token, so a 64-bit integer is not rounded; an object is its list of fields, the
  last of two equal names winning when it is read. The parser takes fuel, and twice the length of
  the text is enough for everything the printer prints.
\<close>

datatype json = JNull | JBool bool | JNum js_string | JStr js_string | JArr "json list"
  | JObj "(js_string \<times> json) list"

definition hex_digit :: "nat \<Rightarrow> char" where
  "hex_digit n = ''0123456789abcdef'' ! n"

definition esc_char :: "char \<Rightarrow> js_string" where
  "esc_char c =
     (let n = (of_char c :: nat) in
      if n = 34 then [char_of (92 :: nat), c] else if n = 92 then [c, c]
      else if n = 8 then [char_of (92 :: nat), CHR ''b'']
      else if n = 9 then [char_of (92 :: nat), CHR ''t'']
      else if n = 10 then [char_of (92 :: nat), CHR ''n'']
      else if n = 12 then [char_of (92 :: nat), CHR ''f'']
      else if n = 13 then [char_of (92 :: nat), CHR ''r'']
      else if n < 32 then [char_of (92 :: nat), CHR ''u'', CHR ''0'', CHR ''0'', hex_digit (n div 16), hex_digit (n mod 16)]
      else [c])"

definition quote :: "js_string \<Rightarrow> js_string" where
  "quote s = char_of (34 :: nat) # concat (map esc_char s) @ [char_of (34 :: nat)]"

fun commas :: "js_string list \<Rightarrow> js_string" where
  "commas [] = []"
| "commas [x] = x"
| "commas (x # y # ys) = x @ CHR '','' # commas (y # ys)"

fun stringify :: "json \<Rightarrow> js_string" where
  "stringify JNull = ''null''"
| "stringify (JBool b) = (if b then ''true'' else ''false'')"
| "stringify (JNum t) = t"
| "stringify (JStr s) = quote s"
| "stringify (JArr xs) = CHR ''['' # commas (map stringify xs) @ '']''"
| "stringify (JObj fs) = CHR ''{'' # commas (map (\<lambda>(k, v). quote k @ CHR '':'' # stringify v) fs) @ ''}''"

definition show_int :: "int \<Rightarrow> js_string" where
  "show_int i = (if i < 0 then CHR ''-'' # show_nat (nat (- i)) else show_nat (nat i))"

fun jget :: "json \<Rightarrow> js_string \<Rightarrow> json option" where
  "jget (JObj fs) k = map_of (rev fs) k"
| "jget _ k = None"

subsection \<open>The parser\<close>

definition is_json_space :: "char \<Rightarrow> bool" where
  "is_json_space c \<longleftrightarrow> (of_char c :: nat) \<in> {9, 10, 13, 32}"

definition skip_ws :: "js_string \<Rightarrow> js_string" where
  "skip_ws s = dropWhile is_json_space s"

definition hex_val :: "char \<Rightarrow> nat option" where
  "hex_val c =
     (let n = (of_char c :: nat) in
      if 48 \<le> n \<and> n \<le> 57 then Some (n - 48)
      else if 65 \<le> n \<and> n \<le> 70 then Some (n - 55)
      else if 97 \<le> n \<and> n \<le> 102 then Some (n - 87)
      else None)"

definition hex4 :: "char \<Rightarrow> char \<Rightarrow> char \<Rightarrow> char \<Rightarrow> nat option" where
  "hex4 a b c d =
     (case (hex_val a, hex_val b, hex_val c, hex_val d) of
        (Some p, Some q, Some r, Some s) \<Rightarrow> Some (4096 * p + 256 * q + 16 * r + s)
      | _ \<Rightarrow> None)"

definition unescape :: "char \<Rightarrow> char option" where
  "unescape c =
     (if of_char c = (34 :: nat) \<or> of_char c = (92 :: nat) \<or> c = CHR ''/'' then Some c
      else if c = CHR ''b'' then Some (char_of (8 :: nat))
      else if c = CHR ''t'' then Some (char_of (9 :: nat))
      else if c = CHR ''n'' then Some (char_of (10 :: nat))
      else if c = CHR ''f'' then Some (char_of (12 :: nat))
      else if c = CHR ''r'' then Some (char_of (13 :: nat))
      else None)"

definition cons_fst :: "'a \<Rightarrow> ('a list \<times> 'b) option \<Rightarrow> ('a list \<times> 'b) option" where
  "cons_fst x r = map_option (\<lambda>(xs, q). (x # xs, q)) r"

text \<open>The rest of a string literal, after its opening quote. A code point above 255 is outside the model.\<close>

fun parse_str :: "js_string \<Rightarrow> (js_string \<times> js_string) option" where
  "parse_str [] = None"
| "parse_str (c # r) =
     (if of_char c = (34 :: nat) then Some ([], r)
      else if of_char c = (92 :: nat) then
        (case r of
           [] \<Rightarrow> None
         | e # r1 \<Rightarrow>
             if e = CHR ''u'' then
               (case r1 of
                  h1 # h2 # h3 # h4 # r2 \<Rightarrow>
                    (case hex4 h1 h2 h3 h4 of
                       Some n \<Rightarrow> if n < 256 then cons_fst (char_of n) (parse_str r2) else None
                     | None \<Rightarrow> None)
                | _ \<Rightarrow> None)
             else (case unescape e of Some ch \<Rightarrow> cons_fst ch (parse_str r1) | None \<Rightarrow> None))
      else if of_char c < (32 :: nat) then None
      else cons_fst c (parse_str r))"

definition take_digits :: "js_string \<Rightarrow> (js_string \<times> js_string) option" where
  "take_digits s =
     (let ds = takeWhile is_digit s in if ds = [] then None else Some (ds, dropWhile is_digit s))"

definition parse_frac :: "js_string \<Rightarrow> (js_string \<times> js_string) option" where
  "parse_frac s =
     (case s of
        c # r \<Rightarrow> if c = CHR ''.'' then map_option (\<lambda>(ds, q). (c # ds, q)) (take_digits r) else Some ([], s)
      | [] \<Rightarrow> Some ([], s))"

definition parse_exp :: "js_string \<Rightarrow> (js_string \<times> js_string) option" where
  "parse_exp s =
     (case s of
        c # r \<Rightarrow>
          if c = CHR ''e'' \<or> c = CHR ''E'' then
            (case r of
               d # r1 \<Rightarrow>
                 if d = CHR ''+'' \<or> d = CHR ''-'' then map_option (\<lambda>(ds, q). (c # d # ds, q)) (take_digits r1)
                 else map_option (\<lambda>(ds, q). (c # ds, q)) (take_digits r)
             | [] \<Rightarrow> None)
          else Some ([], s)
      | [] \<Rightarrow> Some ([], s))"

definition parse_num :: "js_string \<Rightarrow> (js_string \<times> js_string) option" where
  "parse_num s =
     (let sign = (if s \<noteq> [] \<and> hd s = CHR ''-'' then ''-'' else []); body = drop (length sign) s
      in case take_digits body of
           None \<Rightarrow> None
         | Some (ip, r) \<Rightarrow>
             if hd ip = CHR ''0'' \<and> length ip > 1 then None
             else (case parse_frac r of None \<Rightarrow> None | Some (fp, r1) \<Rightarrow>
                    (case parse_exp r1 of None \<Rightarrow> None | Some (ep, r2) \<Rightarrow>
                      Some (sign @ ip @ fp @ ep, r2))))"

fun parse_val :: "nat \<Rightarrow> js_string \<Rightarrow> (json \<times> js_string) option"
  and parse_elems :: "nat \<Rightarrow> js_string \<Rightarrow> (json list \<times> js_string) option"
  and parse_members :: "nat \<Rightarrow> js_string \<Rightarrow> ((js_string \<times> json) list \<times> js_string) option" where
  "parse_val 0 s = None"
| "parse_val (Suc n) s =
     (case skip_ws s of
        [] \<Rightarrow> None
      | c # r \<Rightarrow>
          if of_char c = (34 :: nat) then map_option (\<lambda>(t, q). (JStr t, q)) (parse_str r)
          else if c = CHR ''['' then
            (if starts_with (skip_ws r) '']'' then Some (JArr [], tl (skip_ws r))
             else map_option (\<lambda>(xs, q). (JArr xs, q)) (parse_elems n r))
          else if c = CHR ''{'' then
            (if starts_with (skip_ws r) ''}'' then Some (JObj [], tl (skip_ws r))
             else map_option (\<lambda>(fs, q). (JObj fs, q)) (parse_members n r))
          else if starts_with (c # r) ''null'' then Some (JNull, drop 4 (c # r))
          else if starts_with (c # r) ''true'' then Some (JBool True, drop 4 (c # r))
          else if starts_with (c # r) ''false'' then Some (JBool False, drop 5 (c # r))
          else map_option (\<lambda>(t, q). (JNum t, q)) (parse_num (c # r)))"
| "parse_elems 0 s = None"
| "parse_elems (Suc n) s =
     (case parse_val n s of
        None \<Rightarrow> None
      | Some (x, r) \<Rightarrow>
          (case skip_ws r of
             c # q \<Rightarrow> if c = CHR '','' then cons_fst x (parse_elems n q)
                      else if c = CHR '']'' then Some ([x], q) else None
           | [] \<Rightarrow> None))"
| "parse_members 0 s = None"
| "parse_members (Suc n) s =
     (case skip_ws s of
        [] \<Rightarrow> None
      | c0 # r0 \<Rightarrow>
          if of_char c0 \<noteq> (34 :: nat) then None
          else (case parse_str r0 of
            None \<Rightarrow> None
          | Some (k, r1) \<Rightarrow>
              (case skip_ws r1 of
                 [] \<Rightarrow> None
               | c1 # r2 \<Rightarrow>
                   if c1 \<noteq> CHR '':'' then None
                   else (case parse_val n r2 of
                     None \<Rightarrow> None
                   | Some (v, r) \<Rightarrow>
                       (case skip_ws r of
                          c # q \<Rightarrow> if c = CHR '','' then cons_fst (k, v) (parse_members n q)
                                   else if c = CHR ''}'' then Some ([(k, v)], q) else None
                        | [] \<Rightarrow> None)))))"

text \<open>\<open>JSON.parse\<close>; \<open>None\<close> is the \<open>SyntaxError\<close>.\<close>

definition json_parse :: "js_string \<Rightarrow> json option" where
  "json_parse s =
     (case parse_val (2 * length s + 2) s of
        Some (j, r) \<Rightarrow> if skip_ws r = [] then Some j else None
      | None \<Rightarrow> None)"

subsection \<open>Parsing what was printed\<close>

lemma hex_digit_val: "k < 16 \<Longrightarrow> hex_val (hex_digit k) = Some k"
  by (rule below_all [of "\<lambda>k. hex_val (hex_digit k) = Some k" 16]) (code_simp, simp)

lemma hex_escape: "n < 32 \<Longrightarrow> hex4 (CHR ''0'') (CHR ''0'') (hex_digit (n div 16)) (hex_digit (n mod 16)) = Some n"
  by (simp add: hex4_def hex_digit_val hex_val_def [of "CHR ''0''"])

lemma of_char_lt: "of_char (c :: char) < (256 :: nat)"
  by (metis nat_of_char_less_256)

lemma char_of_eq: "(of_char c :: nat) = n \<Longrightarrow> char_of n = c"
  by auto


lemma parse_str_esc: "parse_str (esc_char c @ r) = cons_fst c (parse_str r)"
proof -
  define n where "n = (of_char c :: nat)"
  then have c: "char_of n = c" by simp
  have q: "(char_of (34 :: nat) :: char) \<noteq> CHR ''u''" "(char_of (92 :: nat) :: char) \<noteq> CHR ''u''"
    by (simp_all add: char_of_eq_iff)
  consider "n = 34" | "n = 92" | "n \<in> {8, 9, 10, 12, 13}" | "n < 32" "n \<notin> {8, 9, 10, 12, 13}"
    | "n \<ge> 32" "n \<noteq> 34" "n \<noteq> 92" by fastforce
  then show ?thesis
  proof cases
    case 3
    then show ?thesis
      using c by (auto simp: esc_char_def Let_def n_def [symmetric] unescape_def)
  next
    case 4
    then show ?thesis
      using c hex_escape [of n] by (simp add: esc_char_def Let_def n_def [symmetric])
  qed (use c q in \<open>auto simp: esc_char_def Let_def n_def [symmetric] unescape_def\<close>)
qed

lemma parse_str_quoted: "parse_str (concat (map esc_char t) @ char_of (34 :: nat) # rest) = Some (t, rest)"
  by (induction t) (simp_all add: parse_str_esc cons_fst_def)

text \<open>Texts that may follow a value: the end, or a separator.\<close>

definition rest_ok :: "js_string \<Rightarrow> bool" where
  "rest_ok r \<longleftrightarrow> r = [] \<or> hd r \<in> set '',]}''"

lemma rest_ok_simps [simp]: "rest_ok []" "rest_ok (CHR '','' # r)" "rest_ok (CHR '']'' # r)" "rest_ok (CHR ''}'' # r)"
  by (simp_all add: rest_ok_def)

lemma rest_ok_not_number:
  assumes "rest_ok r"
  shows "takeWhile is_digit r = []" "dropWhile is_digit r = r" "parse_frac r = Some ([], r)" "parse_exp r = Some ([], r)"
proof -
  have "r = [] \<or> (\<exists>c q. r = c # q \<and> c \<in> set '',]}'')" using assms by (cases r) (auto simp: rest_ok_def)
  then show "takeWhile is_digit r = []" "dropWhile is_digit r = r" "parse_frac r = Some ([], r)" "parse_exp r = Some ([], r)"
    by (auto simp: is_digit_def parse_frac_def parse_exp_def)
qed

lemma show_nat_no_leading_zero: "n \<noteq> 0 \<Longrightarrow> hd (show_nat n) \<noteq> CHR ''0''"
proof (induction n rule: show_nat.induct)
  case (1 n)
  show ?case
  proof (cases "n < 10")
    case True
    have "digit_val (CHR ''0'') = 0" by (simp add: digit_val_def)
    with digit_char [OF True] 1(2) have "(char_of (48 + n) :: char) \<noteq> CHR ''0''" by metis
    with True show ?thesis by (simp add: show_nat.simps [of n])
  next
    case False
    then have "show_nat n = show_nat (n div 10) @ [char_of (48 + n mod 10)]" by (simp add: show_nat.simps [of n])
    moreover have "show_nat (n div 10) \<noteq> []" using show_nat_digits by blast
    moreover have "n div 10 \<noteq> 0" using False by simp
    ultimately show ?thesis using 1(1) [OF False] by simp
  qed
qed

lemma take_digits_show:
  assumes "rest_ok r"
  shows "take_digits (show_nat n @ r) = Some (show_nat n, r)"
  using show_nat_digits [of n] rest_ok_not_number [OF assms]
  by (simp add: take_digits_def list_all_iff takeWhile_append2 dropWhile_append2)

lemma show_nat_zero_one_digit: "hd (show_nat n) = CHR ''0'' \<Longrightarrow> show_nat n = ''0''"
  using show_nat_no_leading_zero [of n] by (cases "n = 0") (simp_all add: show_nat.simps [of 0])

lemma parse_num_show:
  assumes "rest_ok r"
  shows "parse_num (show_int i @ r) = Some (show_int i, r)"
proof -
  obtain c cs where eq: "show_nat (nat i) = c # cs" and dig: "is_digit c"
    by (rule show_nat_Cons)
  have lead: "\<not> (hd (show_nat n) = CHR ''0'' \<and> length (show_nat n) > 1)" for n
    using show_nat_zero_one_digit [of n] by auto
  show ?thesis
  proof (cases "i < 0")
    case True
    then show ?thesis
      using take_digits_show [OF assms, of "nat (- i)"] lead [of "nat (- i)"] rest_ok_not_number [OF assms]
      by (auto simp: parse_num_def show_int_def Let_def)
  next
    case False
    then have "\<not> (show_int i @ r \<noteq> [] \<and> hd (show_int i @ r) = CHR ''-'')"
      using digit_not_space [OF dig] eq by (simp add: show_int_def)
    with False show ?thesis
      using take_digits_show [OF assms, of "nat i"] lead [of "nat i"] rest_ok_not_number [OF assms]
      by (auto simp: parse_num_def show_int_def Let_def)
  qed
qed

text \<open>Values whose numbers are integers.\<close>

fun json_wf :: "json \<Rightarrow> bool" where
  "json_wf (JNum t) \<longleftrightarrow> t \<in> range show_int"
| "json_wf (JArr xs) \<longleftrightarrow> list_all json_wf xs"
| "json_wf (JObj fs) \<longleftrightarrow> list_all (\<lambda>(k, v). json_wf v) fs"
| "json_wf _ \<longleftrightarrow> True"

lemma show_int_Cons:
  obtains c cs where "show_int i = c # cs" "is_digit c \<or> c = CHR ''-''"
proof (cases "i < 0")
  case True
  then show ?thesis using that by (simp add: show_int_def)
next
  case False
  obtain c cs where "show_nat (nat i) = c # cs" "is_digit c" by (rule show_nat_Cons)
  with False show ?thesis using that by (simp add: show_int_def)
qed

lemma stringify_Cons:
  assumes "json_wf j"
  obtains c cs where "stringify j = c # cs" "\<not> is_json_space c" "c \<noteq> CHR '']''" "c \<noteq> CHR ''}''"
proof (cases j)
  case (JNum t)
  with assms obtain i where "t = show_int i" by auto
  obtain c cs where c: "show_int i = c # cs" "is_digit c \<or> c = CHR ''-''" by (rule show_int_Cons)
  then have "\<not> is_json_space c \<and> c \<noteq> CHR '']'' \<and> c \<noteq> CHR ''}''"
    by (auto simp: is_digit_def is_json_space_def)
  with JNum \<open>t = show_int i\<close> c show ?thesis using that by simp
next
  case (JBool b)
  then show ?thesis using that by (cases b) (auto simp: is_json_space_def)
next
  case (JStr t)
  have "(char_of (34 :: nat) :: char) \<noteq> CHR '']''" "(char_of (34 :: nat) :: char) \<noteq> CHR ''}''"
    by (simp_all add: char_of_eq_iff)
  with JStr show ?thesis
    using that [of "char_of (34 :: nat)" "concat (map esc_char t) @ [char_of (34 :: nat)]"]
    by (simp add: quote_def is_json_space_def)
qed (use that in \<open>auto simp: is_json_space_def\<close>)


text \<open>What a parser of values does with a printed value, given enough fuel.\<close>

definition parses_back :: "json \<Rightarrow> bool" where
  "parses_back j \<longleftrightarrow>
     (\<forall>n r. rest_ok r \<longrightarrow> 2 * length (stringify j) \<le> n \<longrightarrow> parse_val n (stringify j @ r) = Some (j, r))"

lemma skip_ws_sep: "skip_ws (CHR '','' # r) = CHR '','' # r" "skip_ws (CHR '']'' # r) = CHR '']'' # r"
  "skip_ws (CHR ''}'' # r) = CHR ''}'' # r" "skip_ws (CHR '':'' # r) = CHR '':'' # r"
  by (simp_all add: skip_ws_def is_json_space_def)

lemma elems_back:
  assumes "xs \<noteq> []" and "\<forall>x \<in> set xs. parses_back x" and "2 * Suc (length (commas (map stringify xs))) \<le> n"
  shows "parse_elems n (commas (map stringify xs) @ CHR '']'' # r) = Some (xs, r)"
  using assms
proof (induction xs arbitrary: n)
  case (Cons x xs)
  obtain m where n: "n = Suc m" using Cons.prems(3) by (cases n) auto
  have x: "parses_back x" using Cons.prems(2) by simp
  show ?case
  proof (cases xs)
    case Nil
    with Cons.prems(3) n have "parse_val m (stringify x @ CHR '']'' # r) = Some (x, CHR '']'' # r)"
      using x by (simp add: parses_back_def)
    with Nil n show ?thesis by (simp add: skip_ws_sep)
  next
    case (Cons y ys)
    then have split: "commas (map stringify (x # xs)) = stringify x @ CHR '','' # commas (map stringify xs)"
      by simp
    with Cons.prems(3) n
    have "parse_val m (stringify x @ CHR '','' # commas (map stringify xs) @ CHR '']'' # r)
        = Some (x, CHR '','' # commas (map stringify xs) @ CHR '']'' # r)"
      using x by (simp add: parses_back_def)
    moreover have "parse_elems m (commas (map stringify xs) @ CHR '']'' # r) = Some (xs, r)"
      using Cons.prems split n Cons by (intro Cons.IH) auto
    ultimately show ?thesis by (simp only: split n append.assoc append_Cons) (simp add: skip_ws_sep cons_fst_def)
  qed
qed simp

definition member_text :: "js_string \<times> json \<Rightarrow> js_string" where
  "member_text = (\<lambda>(k, v). quote k @ CHR '':'' # stringify v)"

lemma member_back:
  assumes "parses_back v" and "rest_ok r" and "2 * length (stringify v) \<le> m"
  shows "\<exists>c0 r0. member_text (k, v) @ r = c0 # r0 \<and> \<not> is_json_space c0 \<and> of_char c0 = (34 :: nat) \<and>
    parse_str r0 = Some (k, CHR '':'' # stringify v @ r) \<and> parse_val m (stringify v @ r) = Some (v, r)"
  using assms parse_str_quoted [of k "CHR '':'' # stringify v @ r"]
  by (auto simp: member_text_def quote_def is_json_space_def parses_back_def)

lemma members_back:
  assumes "fs \<noteq> []" and "\<forall>(k, v) \<in> set fs. parses_back v" and "2 * Suc (length (commas (map member_text fs))) \<le> n"
  shows "parse_members n (commas (map member_text fs) @ CHR ''}'' # r) = Some (fs, r)"
  using assms
proof (induction fs arbitrary: n)
  case (Cons f fs)
  obtain k v where f: "f = (k, v)" by (cases f) auto
  obtain m where n: "n = Suc m" using Cons.prems(3) by (cases n) auto
  have v: "parses_back v" using Cons.prems(2) f by simp
  have len: "length (stringify v) < length (member_text (k, v))" by (simp add: member_text_def)
  show ?case
  proof (cases fs)
    case Nil
    with Cons.prems(3) n f len obtain c0 r0 where "member_text (k, v) @ CHR ''}'' # r = c0 # r0"
      "\<not> is_json_space c0" "of_char c0 = (34 :: nat)"
      "parse_str r0 = Some (k, CHR '':'' # stringify v @ CHR ''}'' # r)"
      "parse_val m (stringify v @ CHR ''}'' # r) = Some (v, CHR ''}'' # r)"
      using member_back [OF v, of "CHR ''}'' # r" m k] by auto
    with Nil n f show ?thesis by (simp add: skip_ws_sep skip_ws_def [of "c0 # r0"])
  next
    case (Cons g gs)
    let ?tail = "CHR '','' # commas (map member_text fs) @ CHR ''}'' # r"
    from Cons have split: "commas (map member_text (f # fs)) = member_text (k, v) @ CHR '','' # commas (map member_text fs)"
      using f by simp
    with Cons.prems(3) n len obtain c0 r0 where "member_text (k, v) @ ?tail = c0 # r0"
      "\<not> is_json_space c0" "of_char c0 = (34 :: nat)"
      "parse_str r0 = Some (k, CHR '':'' # stringify v @ ?tail)"
      "parse_val m (stringify v @ ?tail) = Some (v, ?tail)"
      using member_back [OF v, of ?tail m k] by auto
    moreover have "parse_members m (commas (map member_text fs) @ CHR ''}'' # r) = Some (fs, r)"
      using Cons.prems split n Cons by (intro Cons.IH) auto
    ultimately show ?thesis
      by (simp only: split n append.assoc append_Cons)
        (simp add: skip_ws_sep cons_fst_def skip_ws_def [of "c0 # r0"] f)
  qed
qed simp

lemma skip_ws_nonspace: "\<not> is_json_space c \<Longrightarrow> skip_ws (c # r) = c # r"
  by (simp add: skip_ws_def)

lemma commas_hd: "xs \<noteq> [] \<Longrightarrow> hd xs = c # cs \<Longrightarrow> \<exists>ds. commas xs = c # ds"
  by (cases xs rule: commas.cases) auto

lemma array_back:
  assumes "\<forall>x \<in> set xs. parses_back x \<and> json_wf x"
  shows "parses_back (JArr xs)"
  unfolding parses_back_def
proof (intro allI impI)
  fix n r assume "2 * length (stringify (JArr xs)) \<le> n"
  then obtain m where n: "n = Suc m" and m: "2 * Suc (length (commas (map stringify xs))) \<le> m"
    by (cases n) auto
  show "parse_val n (stringify (JArr xs) @ r) = Some (JArr xs, r)"
  proof (cases xs)
    case Nil
    then show ?thesis by (simp add: n skip_ws_sep skip_ws_nonspace is_json_space_def starts_with_def)
  next
    case (Cons x ys)
    then have "json_wf x" using assms by simp
    then obtain c cs where c: "stringify x = c # cs" "\<not> is_json_space c" "c \<noteq> CHR '']''"
      by (rule stringify_Cons)
    then obtain ds where ds: "commas (map stringify xs) = c # ds"
      using commas_hd [of "map stringify xs" c cs] Cons by auto
    have "parse_elems m (commas (map stringify xs) @ CHR '']'' # r) = Some (xs, r)"
      using assms m Cons by (intro elems_back) auto
    then show ?thesis
      using c ds by (simp add: n skip_ws_nonspace is_json_space_def starts_with_def)
  qed
qed

lemma object_back:
  assumes "\<forall>(k, v) \<in> set fs. parses_back v"
  shows "parses_back (JObj fs)"
  unfolding parses_back_def
proof (intro allI impI)
  fix n r assume "2 * length (stringify (JObj fs)) \<le> n"
  then obtain m where n: "n = Suc m" and m: "2 * Suc (length (commas (map member_text fs))) \<le> m"
    by (cases n) (auto simp: member_text_def)
  show "parse_val n (stringify (JObj fs) @ r) = Some (JObj fs, r)"
  proof (cases fs)
    case Nil
    then show ?thesis by (simp add: n skip_ws_sep skip_ws_nonspace is_json_space_def starts_with_def)
  next
    case (Cons f gs)
    have "\<exists>ds. commas (map member_text fs) = char_of (34 :: nat) # ds"
      using commas_hd [of "map member_text fs"] Cons by (cases f) (auto simp: member_text_def quote_def)
    then obtain ds where ds: "commas (map member_text fs) = char_of (34 :: nat) # ds" by blast
    have "parse_members m (commas (map member_text fs) @ CHR ''}'' # r) = Some (fs, r)"
      using assms m Cons by (intro members_back) auto
    moreover have printed: "stringify (JObj fs) = CHR ''{'' # commas (map member_text fs) @ ''}''"
      by (simp add: member_text_def)
    moreover have "\<not> is_json_space (char_of (34 :: nat))" "(char_of (34 :: nat) :: char) \<noteq> CHR ''}''"
      by (simp_all add: is_json_space_def char_of_eq_iff)
    ultimately show ?thesis
      using ds unfolding printed by (simp add: n skip_ws_nonspace is_json_space_def starts_with_def)
  qed
qed

lemma number_back: "parses_back (JNum (show_int i))"
  unfolding parses_back_def
proof (intro allI impI)
  fix n r assume r: "rest_ok r" and "2 * length (stringify (JNum (show_int i))) \<le> n"
  obtain c cs where c: "show_int i = c # cs" "is_digit c \<or> c = CHR ''-''" by (rule show_int_Cons)
  with \<open>2 * length _ \<le> n\<close> obtain m where n: "n = Suc m" by (cases n) auto
  have "\<not> is_json_space c \<and> of_char c \<noteq> (34 :: nat) \<and> c \<notin> set ''[{ntf''"
    using c(2) by (auto simp: is_digit_def is_json_space_def)
  then show "parse_val n (stringify (JNum (show_int i)) @ r) = Some (JNum (show_int i), r)"
    using parse_num_show [OF r, of i] c(1) by (simp add: n skip_ws_nonspace starts_with_def)
qed

lemma stringify_parses_back: "json_wf j \<Longrightarrow> parses_back j"
proof (induction j rule: stringify.induct)
  case (2 b)
  then show ?case by (auto simp: parses_back_def skip_ws_def is_json_space_def starts_with_def numeral_eq_Suc
      dest!: Suc_le_D)
next
  case (3 t)
  then show ?case using number_back by auto
next
  case (4 t)
  have "parse_val (Suc m) (quote t @ r) = Some (JStr t, r)" for m r
    using parse_str_quoted [of t r] by (simp add: quote_def skip_ws_def is_json_space_def)
  then show ?case by (auto simp: parses_back_def quote_def dest!: Suc_le_D)
next
  case (5 xs)
  then show ?case by (intro array_back) (auto simp: list_all_iff)
next
  case (6 fs)
  then show ?case by (intro object_back) (auto simp: list_all_iff)
qed (auto simp: number_back parses_back_def skip_ws_def is_json_space_def starts_with_def numeral_eq_Suc
      dest!: Suc_le_D)

lemma json_parse_stringify:
  assumes "json_wf j"
  shows "json_parse (stringify j) = Some j"
proof -
  have "parse_val (2 * length (stringify j) + 2) (stringify j @ []) = Some (j, [])"
    using stringify_parses_back [OF assms] unfolding parses_back_def by (metis le_add1 rest_ok_simps(1))
  then show ?thesis by (simp add: json_parse_def skip_ws_def del: parse_val.simps)
qed

end
