(* ===== verification/AtomicStore.thy ===== *)
theory AtomicStore
  imports Bytes Json
begin

text \<open>
  \<open>src/src/Utils/atomic-store.ts\<close>: the three atomic storage callbacks of the bridge, written once
  over a view of rows (\<open>AtomicRowView\<close>) that a store provides. Rows are byte arrays, their texts are
  JSON, and an exception is the left value of a sum: the transaction of the caller then applies
  nothing. UTF-8 is modelled for the code points a \<open>string\<close> has (below 256); bytes that decode to
  anything else are \<open>OutsideText\<close>.
\<close>

datatype store_error = TypeErr | RangeErr | SyntaxErr | UriErr | OutsideText

type_synonym bytes = "byte list"

subsection \<open>UTF-8\<close>

definition utf8_char :: "char \<Rightarrow> bytes" where
  "utf8_char c =
     (let n = (of_char c :: nat) in
      if n < 128 then [of_nat n] else [of_nat (192 + n div 64), of_nat (128 + n mod 64)])"

definition utf8Encode :: "js_string \<Rightarrow> bytes" where
  "utf8Encode s = concat (map utf8_char s)"

fun utf8Decode :: "bytes \<Rightarrow> js_string option" where
  "utf8Decode [] = Some []"
| "utf8Decode (b # bs) =
     (if unat b < 128 then map_option (Cons (char_of (unat b))) (utf8Decode bs)
      else (case bs of
              [] \<Rightarrow> None
            | c # cs \<Rightarrow>
                if (unat b = 194 \<or> unat b = 195) \<and> 128 \<le> unat c \<and> unat c < 192
                then map_option (Cons (char_of ((unat b - 192) * 64 + (unat c - 128)))) (utf8Decode cs)
                else None))"

lemma utf8_char_decode: "utf8Decode (utf8_char c @ bs) = map_option (Cons c) (utf8Decode bs)"
proof -
  define n where "n = (of_char c :: nat)"
  have n: "n < 256" and c: "char_of n = c" by (simp_all add: n_def of_char_lt)
  show ?thesis
  proof (cases "n < 128")
    case True
    then have "unat (of_nat n :: byte) = n" by (simp add: unat_of_nat)
    with True c show ?thesis by (simp add: utf8_char_def n_def [symmetric])
  next
    case False
    with n have "n div 64 = 2 \<or> n div 64 = 3" by linarith
    moreover have "unat (of_nat (192 + n div 64) :: byte) = 192 + n div 64"
      "unat (of_nat (128 + n mod 64) :: byte) = 128 + n mod 64"
      using n by (simp_all add: unat_of_nat del: of_nat_add)
    moreover have "n div 64 * 64 + n mod 64 = n" by simp
    ultimately show ?thesis
      using False c by (simp add: utf8_char_def n_def [symmetric] Let_def del: of_nat_add)
  qed
qed

lemma utf8_decode_encode: "utf8Decode (utf8Encode s) = Some s"
  by (induction s) (simp_all add: utf8Encode_def utf8_char_decode)

subsection \<open>Keys and timestamps\<close>

definition rowKey :: "js_string \<Rightarrow> js_string \<Rightarrow> js_string" where
  "rowKey store key = stringify (JArr [JStr store, JStr key])"

definition encode_json :: "json \<Rightarrow> bytes" where
  "encode_json value = utf8Encode (stringify value)"

definition decode_json :: "bytes \<Rightarrow> store_error + json" where
  "decode_json value =
     (case utf8Decode value of
        None \<Rightarrow> Inl OutsideText
      | Some s \<Rightarrow> (case json_parse s of None \<Rightarrow> Inl SyntaxErr | Some j \<Rightarrow> Inr j))"

lemma decode_encode_json: "json_wf j \<Longrightarrow> decode_json (encode_json j) = Inr j"
  by (simp add: decode_json_def encode_json_def utf8_decode_encode json_parse_stringify)

text \<open>\<open>/^-?(0|[1-9]\d*)$/\<close>, then the range of an i64.\<close>

definition signed_decimal :: "js_string \<Rightarrow> bool" where
  "signed_decimal s =
     (let body = (if s \<noteq> [] \<and> hd s = CHR ''-'' then tl s else s)
      in body \<noteq> [] \<and> list_all is_digit body \<and> (hd body = CHR ''0'' \<longrightarrow> length body = 1))"

definition js_BigInt :: "js_string \<Rightarrow> int" where
  "js_BigInt s =
     (if s \<noteq> [] \<and> hd s = CHR ''-'' then - int (digits_val (tl s)) else int (digits_val s))"

definition signedTimestamp :: "js_string \<Rightarrow> store_error + int" where
  "signedTimestamp value =
     (if \<not> signed_decimal value then Inl TypeErr
      else (let result = js_BigInt value in
            if result < - (2 ^ 63) \<or> result \<ge> 2 ^ 63 then Inl RangeErr else Inr result))"

definition is_i64 :: "int \<Rightarrow> bool" where
  "is_i64 i \<longleftrightarrow> - (2 ^ 63) \<le> i \<and> i < 2 ^ 63"

lemma show_int_signed: "signed_decimal (show_int i) \<and> js_BigInt (show_int i) = i"
proof -
  have lead: "hd (show_nat n) = CHR ''0'' \<longrightarrow> length (show_nat n) = 1" for n
    using show_nat_zero_one_digit [of n] by auto
  obtain c cs where c: "show_nat (nat i) = c # cs" "is_digit c" by (rule show_nat_Cons)
  show ?thesis
  proof (cases "i < 0")
    case True
    with lead [of "nat (- i)"] show ?thesis
      using show_nat_digits [of "nat (- i)"] by (simp add: signed_decimal_def js_BigInt_def show_int_def show_nat_val)
  next
    case False
    have "c \<noteq> CHR ''-''" using digit_not_space [OF c(2)] by simp
    with False lead [of "nat i"] show ?thesis
      using c show_nat_digits [of "nat i"] show_nat_val [of "nat i"]
      by (simp add: signed_decimal_def js_BigInt_def show_int_def)
  qed
qed

lemma signedTimestamp_show: "is_i64 i \<Longrightarrow> signedTimestamp (show_int i) = Inr i"
  using show_int_signed [of i] by (auto simp: signedTimestamp_def is_i64_def)

lemma signedTimestamp_i64: "signedTimestamp s = Inr i \<Longrightarrow> is_i64 i"
  by (auto simp: signedTimestamp_def is_i64_def Let_def split: if_splits)

subsection \<open>Quoting the numbers of a JSON text\<close>

text \<open>
  The regular expression of \<open>decodeTokenRow\<close>, alternative by alternative: a string literal, whose
  \<open>.\<close> does not match a line terminator, or a number. No alternative can be matched in two ways, so
  the greedy match is the match.
\<close>

fun string_body :: "js_string \<Rightarrow> (js_string \<times> js_string) option" where
  "string_body [] = None"
| "string_body (c # r) =
     (if of_char c = (34 :: nat) then Some ([c], r)
      else if of_char c = (92 :: nat) then
        (case r of
           [] \<Rightarrow> None
         | d # q \<Rightarrow> if of_char d = (10 :: nat) \<or> of_char d = (13 :: nat) then None
                    else cons_fst c (cons_fst d (string_body q)))
      else cons_fst c (string_body r))"

definition frac_match :: "js_string \<Rightarrow> js_string" where
  "frac_match r =
     (if r \<noteq> [] \<and> hd r = CHR ''.'' \<and> takeWhile is_digit (tl r) \<noteq> []
      then CHR ''.'' # takeWhile is_digit (tl r) else [])"

definition exp_match :: "js_string \<Rightarrow> js_string" where
  "exp_match r =
     (if r \<noteq> [] \<and> (hd r = CHR ''e'' \<or> hd r = CHR ''E'') then
        (let q = tl r;
             sg = (if q \<noteq> [] \<and> (hd q = CHR ''+'' \<or> hd q = CHR ''-'') then [hd q] else []);
             xs = takeWhile is_digit (drop (length sg) q)
         in if xs = [] then [] else hd r # sg @ xs)
      else [])"

definition number_match :: "js_string \<Rightarrow> (js_string \<times> js_string) option" where
  "number_match s =
     (let sign = (if s \<noteq> [] \<and> hd s = CHR ''-'' then ''-'' else []);
          body = drop (length sign) s;
          ds = takeWhile is_digit body;
          r = dropWhile is_digit body;
          r1 = drop (length (frac_match r)) r
      in if ds = [] then None
         else Some (sign @ ds @ frac_match r @ exp_match r1, drop (length (exp_match r1)) r1))"

lemma string_body_length: "string_body s = Some (b, q) \<Longrightarrow> length q < length s"
proof (induction s arbitrary: b q rule: string_body.induct)
  case (2 c r)
  then show ?case
    by (fastforce simp: cons_fst_def split: if_splits list.splits)
qed simp

lemma number_match_length:
  assumes "number_match s = Some (t, q)"
  shows "length q < length s"
proof -
  define body where "body = drop (length (if s \<noteq> [] \<and> hd s = CHR ''-'' then ''-'' else [])) s"
  from assms have "takeWhile is_digit body \<noteq> []" and "\<exists>i j. q = drop i (drop j (dropWhile is_digit body))"
    unfolding number_match_def Let_def body_def [symmetric] by (auto split: if_split_asm simp del: drop_drop)
  then have "length q \<le> length (dropWhile is_digit body)" by auto
  also have "... < length body"
    using \<open>takeWhile is_digit body \<noteq> []\<close>
    by (metis length_append length_greater_0_conv less_add_same_cancel2 takeWhile_dropWhile_id)
  also have "... \<le> length s" by (simp add: body_def)
  finally show ?thesis .
qed

function quote_tokens :: "js_string \<Rightarrow> js_string" where
  "quote_tokens [] = []"
| "quote_tokens (c # r) =
     (if of_char c = (34 :: nat) then
        (case string_body r of Some (b, q) \<Rightarrow> c # b @ quote_tokens q | None \<Rightarrow> c # quote_tokens r)
      else (case number_match (c # r) of
              Some (t, q) \<Rightarrow> quote t @ quote_tokens q | None \<Rightarrow> c # quote_tokens r))"
  by pat_completeness auto
termination
  by (relation "measure length") (auto dest: string_body_length number_match_length)

text \<open>What the rewritten text parses to: every number becomes the string of its own token.\<close>

fun quote_numbers :: "json \<Rightarrow> json" where
  "quote_numbers (JNum t) = JStr t"
| "quote_numbers (JArr xs) = JArr (map quote_numbers xs)"
| "quote_numbers (JObj fs) = JObj (map (\<lambda>(k, v). (k, quote_numbers v)) fs)"
| "quote_numbers j = j"

lemma string_body_esc:
  "string_body (esc_char c @ r) = map_option (\<lambda>(b, q). (esc_char c @ b, q)) (string_body r)"
proof -
  define n where "n = (of_char c :: nat)"
  then have c: "char_of n = c" by simp
  have hex: "(of_char (hex_digit k) :: nat) \<notin> {34, 92}" if "k < 16" for k
    by (rule below_all [of "\<lambda>k. (of_char (hex_digit k) :: nat) \<notin> {34, 92}" 16]) (code_simp, use that in simp)
  have comp: "map_option (\<lambda>(b, q). (x @ b, q)) (cons_fst y s) = map_option (\<lambda>(b, q). (x @ y # b, q)) s" for x y s
    by (cases s) (auto simp: cons_fst_def)
  consider "n = 34" | "n = 92" | "n \<in> {8, 9, 10, 12, 13}" | "n < 32" "n \<notin> {8, 9, 10, 12, 13}"
    | "n \<ge> 32" "n \<noteq> 34" "n \<noteq> 92" by fastforce
  then show ?thesis
  proof cases
    case 4
    then have "n div 16 < 16" "n mod 16 < 16" by auto
    with 4 show ?thesis
      using hex [of "n div 16"] hex [of "n mod 16"]
      by (cases "string_body r") (auto simp: esc_char_def Let_def n_def [symmetric] cons_fst_def)
  qed (cases "string_body r"; use c in \<open>auto simp: esc_char_def Let_def n_def [symmetric] cons_fst_def\<close>)+
qed

lemma string_body_quoted:
  "string_body (concat (map esc_char t) @ char_of (34 :: nat) # r)
     = Some (concat (map esc_char t) @ [char_of (34 :: nat)], r)"
  by (induction t) (simp_all add: string_body_esc)

lemma quote_tokens_quote: "quote_tokens (quote t @ r) = quote t @ quote_tokens r"
  using string_body_quoted [of t r] by (simp add: quote_def)

lemma quote_tokens_plain:
  assumes "of_char c \<noteq> (34 :: nat)" and "\<not> is_digit c" and "c \<noteq> CHR ''-''"
  shows "quote_tokens (c # r) = c # quote_tokens r"
  using assms by (simp add: number_match_def)

lemma number_match_show:
  assumes "rest_ok r"
  shows "number_match (show_int i @ r) = Some (show_int i, r)"
proof -
  have tails: "frac_match r = []" "exp_match r = []"
    using assms by (auto simp: rest_ok_def frac_match_def exp_match_def)
  have num: "takeWhile is_digit (show_nat n @ r) = show_nat n \<and> dropWhile is_digit (show_nat n @ r) = r" for n
    using show_nat_digits [of n] rest_ok_not_number [OF assms]
    by (simp add: list_all_iff takeWhile_append2 dropWhile_append2)
  obtain c cs where c: "show_nat (nat i) = c # cs" "is_digit c" by (rule show_nat_Cons)
  show ?thesis
  proof (cases "i < 0")
    case True
    then show ?thesis
      using num [of "nat (- i)"] show_nat_digits [of "nat (- i)"] tails
      by (simp add: number_match_def show_int_def)
  next
    case False
    then have "\<not> (show_int i @ r \<noteq> [] \<and> hd (show_int i @ r) = CHR ''-'')"
      using digit_not_space [OF c(2)] c(1) by (simp add: show_int_def)
    with False show ?thesis
      using num [of "nat i"] show_nat_digits [of "nat i"] tails
      by (simp add: number_match_def show_int_def)
  qed
qed

lemma quote_tokens_number:
  assumes "rest_ok r"
  shows "quote_tokens (show_int i @ r) = quote (show_int i) @ quote_tokens r"
proof -
  obtain c cs where c: "show_int i = c # cs" "is_digit c \<or> c = CHR ''-''" by (rule show_int_Cons)
  then have "of_char c \<noteq> (34 :: nat)" by (auto simp: is_digit_def)
  with number_match_show [OF assms, of i] c(1) show ?thesis by simp
qed

definition quotes_back :: "json \<Rightarrow> bool" where
  "quotes_back j \<longleftrightarrow>
     (\<forall>r. rest_ok r \<longrightarrow> quote_tokens (stringify j @ r) = stringify (quote_numbers j) @ quote_tokens r)"

lemmas quote_step = quote_tokens_plain [where c = "CHR '',''"] quote_tokens_plain [where c = "CHR '']''"]
  quote_tokens_plain [where c = "CHR ''}''"] quote_tokens_plain [where c = "CHR ''[''"]
  quote_tokens_plain [where c = "CHR ''{''"] quote_tokens_plain [where c = "CHR '':''"]

lemma sep_plain [simp]: "\<not> is_digit (CHR '','')" "\<not> is_digit (CHR '']'')" "\<not> is_digit (CHR ''}'')"
  "\<not> is_digit (CHR ''['')" "\<not> is_digit (CHR ''{'')" "\<not> is_digit (CHR '':'')"
  by (simp_all add: is_digit_def)

lemma quote_tokens_elems:
  assumes "\<forall>x \<in> set xs. quotes_back x" and "rest_ok r"
  shows "quote_tokens (commas (map stringify xs) @ r)
    = commas (map (stringify \<circ> quote_numbers) xs) @ quote_tokens r"
  using assms
proof (induction "map stringify xs" arbitrary: xs rule: commas.induct)
  case (3 a b cs)
  then obtain x y ys where xs: "xs = x # y # ys" by auto
  with 3(1) [of "y # ys"] 3(2-) have "quote_tokens (commas (map stringify (y # ys)) @ r)
    = commas (map (stringify \<circ> quote_numbers) (y # ys)) @ quote_tokens r" by auto
  with xs 3 show ?case by (simp add: quotes_back_def quote_step del: quote_tokens.simps(2))
qed (auto simp: quotes_back_def)

lemma quote_tokens_members:
  assumes "\<forall>(k, v) \<in> set fs. quotes_back v" and "rest_ok r"
  shows "quote_tokens (commas (map member_text fs) @ r)
    = commas (map (\<lambda>f. member_text (fst f, quote_numbers (snd f))) fs) @ quote_tokens r"
  using assms
proof (induction "map member_text fs" arbitrary: fs rule: commas.induct)
  case (3 a b cs)
  then obtain f g gs where fs: "fs = f # g # gs" by auto
  with 3(1) [of "g # gs"] 3(2-) have "quote_tokens (commas (map member_text (g # gs)) @ r)
    = commas (map (\<lambda>f. member_text (fst f, quote_numbers (snd f))) (g # gs)) @ quote_tokens r" by auto
  with fs 3 show ?case
    by (cases f) (simp add: quotes_back_def quote_step member_text_def quote_tokens_quote del: quote_tokens.simps(2))
qed (auto simp: quotes_back_def member_text_def quote_tokens_quote quote_step simp del: quote_tokens.simps(2))

lemma stringify_quotes_back: "json_wf j \<Longrightarrow> quotes_back j"
proof (induction j rule: stringify.induct)
  case (3 t)
  then show ?case using quote_tokens_number by (auto simp: quotes_back_def simp del: quote_tokens.simps(2))
next
  case (4 t)
  then show ?case by (simp add: quotes_back_def quote_tokens_quote)
next
  case (5 xs)
  then show ?case
    using quote_tokens_elems [of xs]
    by (auto simp: quotes_back_def quote_step list_all_iff comp_def simp del: quote_tokens.simps(2))
next
  case (6 fs)
  have printed: "stringify (JObj gs) = CHR ''{'' # commas (map member_text gs) @ ''}''" for gs
    by (simp add: member_text_def)
  have "\<forall>(k, v) \<in> set fs. quotes_back v" using 6 by (auto simp: list_all_iff)
  then show ?case
    using quote_tokens_members [of fs]
    unfolding quotes_back_def quote_numbers.simps printed
    by (auto simp: quote_step comp_def case_prod_beta simp del: quote_tokens.simps(2))
qed (auto simp: quotes_back_def quote_tokens_plain is_digit_def simp del: quote_tokens.simps(2))

lemma json_wf_quoted: "json_wf (quote_numbers j)"
  by (induction j rule: quote_numbers.induct) (auto simp: list_all_iff)

lemma quoting_parses:
  assumes "json_wf j"
  shows "json_parse (quote_tokens (stringify j)) = Some (quote_numbers j)"
  using stringify_quotes_back [OF assms] json_parse_stringify [OF json_wf_quoted [of j]]
  by (auto simp: quotes_back_def dest: spec [of _ "[]"])

text \<open>
  C8: the regular expression that quotes the numbers of a row before the second parse turns every
  number of the text into the string of exactly its own digits and changes nothing else: parsing
  the rewritten text of any JSON value with integer numbers gives that value with its numbers as
  strings, whatever quotes, escapes and digits its strings contain.
\<close>

theorem quoting_numbers_preserves_strings:
  assumes "json_wf j"
  shows "json_parse (quote_tokens (stringify j)) = Some (quote_numbers j)"
  using quoting_parses [OF assms] .

theorem quoting_numbers_preserves_strings_witness:
  "json_parse (quote_tokens (stringify (JArr [JStr ''1-2'', JNum (show_int 12)]))) = Some (JArr [JStr ''1-2'', JStr (show_int 12)])"
  using quoting_numbers_preserves_strings [of "JArr [JStr ''1-2'', JNum (show_int 12)]"] by (simp del: quote_tokens.simps)

subsection \<open>Token rows\<close>

record token_row =
  row_token :: "byte list"
  token_timestamp :: int
  sender_timestamp :: "int option"

text \<open>
  The checks of the two parses. The range part of the first check on \<open>token\<close> (an integer between
  0 and 255) is implied by the second (digits only, at most 255), and both throw the same error.
\<close>

fun is_number :: "json option \<Rightarrow> bool" where
  "is_number (Some (JNum t)) = True"
| "is_number _ = False"

fun nullish :: "json option \<Rightarrow> bool" where
  "nullish None = True"
| "nullish (Some JNull) = True"
| "nullish _ = False"

fun original_ok :: "json \<Rightarrow> bool" where
  "original_ok (JObj fs) =
     ((case jget (JObj fs) ''token'' of Some (JArr xs) \<Rightarrow> list_all (\<lambda>x. is_number (Some x)) xs | _ \<Rightarrow> False) \<and>
      is_number (jget (JObj fs) ''token_timestamp'') \<and>
      (nullish (jget (JObj fs) ''sender_timestamp'') \<or> is_number (jget (JObj fs) ''sender_timestamp'')))"
| "original_ok _ = False"

fun byte_text :: "json \<Rightarrow> bool" where
  "byte_text (JStr s) = (s \<noteq> [] \<and> list_all is_digit s \<and> digits_val s \<le> 255)"
| "byte_text _ = False"

fun json_str :: "json \<Rightarrow> js_string" where
  "json_str (JStr s) = s"
| "json_str _ = []"

definition decodeTokenRow :: "bytes \<Rightarrow> store_error + token_row" where
  "decodeTokenRow bs =
     (case utf8Decode bs of None \<Rightarrow> Inl OutsideText | Some txt \<Rightarrow>
      (case json_parse txt of None \<Rightarrow> Inl SyntaxErr | Some original \<Rightarrow>
       if \<not> original_ok original then Inl TypeErr
       else (case json_parse (quote_tokens txt) of None \<Rightarrow> Inl SyntaxErr | Some row \<Rightarrow>
         (case jget row ''token'' of
            Some (JArr xs) \<Rightarrow>
              if \<not> list_all byte_text xs then Inl TypeErr
              else (case signedTimestamp (json_str (the (jget row ''token_timestamp''))) of Inl e \<Rightarrow> Inl e | Inr ts \<Rightarrow>
                let r = \<lparr>row_token = map (\<lambda>x. of_nat (digits_val (json_str x))) xs, token_timestamp = ts,
                         sender_timestamp = None\<rparr>
                in if nullish (jget row ''sender_timestamp'') then Inr r
                   else (case signedTimestamp (json_str (the (jget row ''sender_timestamp''))) of Inl e \<Rightarrow> Inl e
                           | Inr st \<Rightarrow> Inr (r\<lparr>sender_timestamp := Some st\<rparr>)))
          | _ \<Rightarrow> Inl TypeErr))))"

text \<open>The template of \<open>encodeTokenRow\<close> prints the text of this object.\<close>

definition token_row_json :: "token_row \<Rightarrow> json" where
  "token_row_json row =
     JObj [(''token'', JArr (map (\<lambda>b. JNum (show_int (int (unat b)))) (row_token row))),
           (''token_timestamp'', JNum (show_int (token_timestamp row))),
           (''sender_timestamp'',
              case sender_timestamp row of None \<Rightarrow> JNull | Some st \<Rightarrow> JNum (show_int st))]"

definition encodeTokenRow :: "token_row \<Rightarrow> bytes" where
  "encodeTokenRow row = utf8Encode (stringify (token_row_json row))"

definition token_row_ok :: "token_row \<Rightarrow> bool" where
  "token_row_ok row \<longleftrightarrow>
     is_i64 (token_timestamp row) \<and> (case sender_timestamp row of None \<Rightarrow> True | Some st \<Rightarrow> is_i64 st)"

lemma token_row_json_wf: "json_wf (token_row_json row)"
  by (simp add: token_row_json_def list_all_iff split: option.splits)

lemma show_int_uint: "show_int (uint (b :: byte)) = show_nat (unat b)"
  by (simp add: show_int_def)

lemma byte_text_show: "byte_text (JStr (show_nat (unat (b :: byte))))"
  using show_nat_digits [of "unat b"] unsigned_less [of b, where ?'a = nat] by (simp add: show_nat_val)

lemma decode_encode_row: "token_row_ok row \<Longrightarrow> decodeTokenRow (encodeTokenRow row) = Inr row"
proof -
  assume ok: "token_row_ok row"
  obtain tok ts st where row: "row = \<lparr>row_token = tok, token_timestamp = ts, sender_timestamp = st\<rparr>"
    by (cases row)
  let ?j = "token_row_json row"
  have quoted: "quote_numbers ?j =
      JObj [(''token'', JArr (map (\<lambda>b. JStr (show_nat (unat b))) tok)), (''token_timestamp'', JStr (show_int ts)),
            (''sender_timestamp'', case st of None \<Rightarrow> JNull | Some x \<Rightarrow> JStr (show_int x))]"
    by (simp add: token_row_json_def row show_int_uint comp_def split: option.splits)
  have "original_ok ?j"
    by (simp add: token_row_json_def row list_all_iff split: option.splits)
  moreover have "list_all byte_text (map (\<lambda>b. JStr (show_nat (unat b))) tok)"
    using byte_text_show by (auto simp: list_all_iff simp del: byte_text.simps)
  moreover have "map (\<lambda>x. of_nat (digits_val (json_str x))) (map (\<lambda>b. JStr (show_nat (unat b))) tok) = tok"
    by (simp add: show_nat_val comp_def)
  moreover have "signedTimestamp (show_int ts) = Inr ts" and "st \<noteq> None \<longrightarrow> signedTimestamp (show_int (the st)) = Inr (the st)"
    using ok by (auto simp: token_row_ok_def row intro: signedTimestamp_show)
  ultimately show ?thesis
    unfolding decodeTokenRow_def encodeTokenRow_def utf8_decode_encode option.case
      json_parse_stringify [OF token_row_json_wf] quoting_parses [OF token_row_json_wf] quoted
    by (cases st) (simp_all add: Let_def row)
qed

lemma decoded_row_ok: "decodeTokenRow bs = Inr row \<Longrightarrow> token_row_ok row"
  by (auto simp: decodeTokenRow_def token_row_ok_def Let_def dest: signedTimestamp_i64
      split: option.splits json.splits sum.splits if_splits)

text \<open>
  C9: a TC-token row is read back exactly as it was written, for every token and over the whole
  range of 64-bit timestamps: nothing is rounded through a floating-point number.
\<close>

theorem token_row_roundtrip:
  assumes "token_row_ok row"
  shows "decodeTokenRow (encodeTokenRow row) = Inr row"
  using decode_encode_row [OF assms] .

theorem token_row_roundtrip_witness:
  "decodeTokenRow (encodeTokenRow \<lparr>row_token = [1, 255], token_timestamp = 9223372036854775807, sender_timestamp = Some (-9223372036854775808)\<rparr>)
     = Inr \<lparr>row_token = [1, 255], token_timestamp = 9223372036854775807, sender_timestamp = Some (-9223372036854775808)\<rparr>"
  by (rule token_row_roundtrip) (simp add: token_row_ok_def is_i64_def)

subsection \<open>Row views and the atomic changes\<close>

text \<open>
  \<open>AtomicRowView\<close>: the three operations a change uses (\<open>has\<close> is used by no change). A change
  returns the rows after it, or the error it throws, with which the transaction applies nothing.
\<close>

record 'r row_view =
  view_get :: "js_string \<Rightarrow> 'r \<Rightarrow> bytes option"
  view_set :: "js_string \<Rightarrow> bytes \<Rightarrow> 'r \<Rightarrow> 'r"
  view_delete :: "js_string \<Rightarrow> 'r \<Rightarrow> 'r"

text \<open>\<open>Set<string>\<close> in insertion order.\<close>

definition set_add :: "'a \<Rightarrow> 'a list \<Rightarrow> 'a list" where
  "set_add x xs = (if x \<in> set xs then xs else xs @ [x])"

definition set_remove :: "'a \<Rightarrow> 'a list \<Rightarrow> 'a list" where
  "set_remove x xs = filter (\<lambda>y. y \<noteq> x) xs"

definition new_set :: "'a list \<Rightarrow> 'a list" where
  "new_set xs = fold set_add xs []"

fun is_str :: "json \<Rightarrow> bool" where
  "is_str (JStr s) = True"
| "is_str _ = False"

definition readIndex :: "'r row_view \<Rightarrow> 'r \<Rightarrow> js_string \<Rightarrow> store_error + js_string list" where
  "readIndex view r key =
     (case (case view_get view (rowKey ''meta'' key) r of Some b \<Rightarrow> decode_json b | None \<Rightarrow> Inr (JArr [])) of
        Inl e \<Rightarrow> Inl e
      | Inr (JArr xs) \<Rightarrow> if list_all is_str xs then Inr (new_set (map json_str xs)) else Inl TypeErr
      | Inr _ \<Rightarrow> Inl TypeErr)"

definition encode_index :: "js_string list \<Rightarrow> bytes" where
  "encode_index index = encode_json (JArr (map JStr index))"

definition commitPatch ::
    "js_string \<Rightarrow> bytes \<Rightarrow> js_string list \<Rightarrow> (js_string \<times> bytes) list \<Rightarrow> bool \<Rightarrow> 'r row_view \<Rightarrow> 'r \<Rightarrow> store_error + 'r" where
  "commitPatch name state removals additions maintainIndex view r =
     (let r1 = fold (\<lambda>key. view_delete view (rowKey ''mutation_mac'' key)) removals r;
          r2 = fold (\<lambda>(key, b). view_set view (rowKey ''mutation_mac'' key) b) additions r1;
          r3 = view_set view (rowKey ''sync_version'' name) state r2
      in if maintainIndex then
           (case readIndex view r3 ''mutation_mac_keys'' of
              Inl e \<Rightarrow> Inl e
            | Inr index \<Rightarrow>
                Inr (view_set view (rowKey ''meta'' ''mutation_mac_keys'')
                       (encode_index (fold set_add (map fst additions) (fold set_remove removals index))) r3))
         else Inr r3)"

definition index_token_jid :: "js_string \<Rightarrow> 'r row_view \<Rightarrow> 'r \<Rightarrow> store_error + 'r" where
  "index_token_jid jid view r =
     (case readIndex view r ''tc_token_jids'' of
        Inl e \<Rightarrow> Inl e
      | Inr index \<Rightarrow> Inr (view_set view (rowKey ''meta'' ''tc_token_jids'') (encode_index (set_add jid index)) r))"

definition read_token_row :: "int \<Rightarrow> js_string \<Rightarrow> 'r row_view \<Rightarrow> 'r \<Rightarrow> store_error + token_row" where
  "read_token_row incoming jid view r =
     (case view_get view (rowKey ''tc_token'' jid) r of
        Some b \<Rightarrow> decodeTokenRow b
      | None \<Rightarrow> Inr \<lparr>row_token = [], token_timestamp = incoming, sender_timestamp = None\<rparr>)"

definition touchTcTokenSenderTimestamp :: "js_string \<Rightarrow> js_string \<Rightarrow> 'r row_view \<Rightarrow> 'r \<Rightarrow> store_error + 'r" where
  "touchTcTokenSenderTimestamp jid timestamp view r =
     (case signedTimestamp timestamp of Inl e \<Rightarrow> Inl e | Inr incoming \<Rightarrow>
      (case read_token_row incoming jid view r of Inl e \<Rightarrow> Inl e | Inr row \<Rightarrow>
        (let row1 = (if sender_timestamp row = None \<or> incoming > the (sender_timestamp row)
                     then row\<lparr>sender_timestamp := Some incoming\<rparr> else row)
         in index_token_jid jid view (view_set view (rowKey ''tc_token'' jid) (encodeTokenRow row1) r))))"

definition storeReceivedTcToken :: "js_string \<Rightarrow> byte list \<Rightarrow> js_string \<Rightarrow> 'r row_view \<Rightarrow> 'r \<Rightarrow> store_error + 'r" where
  "storeReceivedTcToken jid snapshot timestamp view r =
     (case signedTimestamp timestamp of Inl e \<Rightarrow> Inl e | Inr incoming \<Rightarrow>
      (case read_token_row incoming jid view r of Inl e \<Rightarrow> Inl e | Inr row \<Rightarrow>
        (let row1 = (if row_token row = [] \<or> incoming \<ge> token_timestamp row
                     then row\<lparr>row_token := snapshot, token_timestamp := incoming\<rparr> else row)
         in index_token_jid jid view (view_set view (rowKey ''tc_token'' jid) (encodeTokenRow row1) r))))"

text \<open>The three callbacks as calls, for statements about every atomic change.\<close>

datatype atomic_call =
    CommitPatch js_string bytes "js_string list" "(js_string \<times> bytes) list" bool
  | TouchTcToken js_string js_string
  | ReceivedTcToken js_string "byte list" js_string

fun atomicCallbacks :: "atomic_call \<Rightarrow> 'r row_view \<Rightarrow> 'r \<Rightarrow> store_error + 'r" where
  "atomicCallbacks (CommitPatch name state removed added maintainIndex) = commitPatch name state removed added maintainIndex"
| "atomicCallbacks (TouchTcToken jid timestamp) = touchTcTokenSenderTimestamp jid timestamp"
| "atomicCallbacks (ReceivedTcToken jid tok timestamp) = storeReceivedTcToken jid tok timestamp"

text \<open>
  The contract of a view: it reads and writes like a finite map. Inside the contract every atomic
  change commutes with the abstraction, so what is proved of a change on plain maps holds of it on
  every store that provides the contract.
\<close>

definition map_view :: "(js_string \<Rightarrow> bytes option) row_view" where
  "map_view = \<lparr>view_get = (\<lambda>k m. m k), view_set = (\<lambda>k v m. m(k := Some v)), view_delete = (\<lambda>k m. m(k := None))\<rparr>"

lemma map_view_simps [simp]:
  "view_get map_view k m = m k" "view_set map_view k v m = m(k := Some v)" "view_delete map_view k m = m(k := None)"
  by (simp_all add: map_view_def)

definition simulated :: "('r \<Rightarrow> bool) \<Rightarrow> ('r \<Rightarrow> 'm) \<Rightarrow> store_error + 'r \<Rightarrow> store_error + 'm \<Rightarrow> bool" where
  "simulated ok content a b \<longleftrightarrow> (case a of Inl e \<Rightarrow> b = Inl e | Inr r \<Rightarrow> ok r \<and> b = Inr (content r))"

lemma simulated_Inl [simp]: "simulated ok content (Inl e) (Inl e)"
  by (simp add: simulated_def)

locale row_contract =
  fixes view :: "'r row_view"
    and content :: "'r \<Rightarrow> js_string \<Rightarrow> bytes option"
    and ok :: "'r \<Rightarrow> bool"
  assumes get_abs: "ok r \<Longrightarrow> view_get view (rowKey s k) r = content r (rowKey s k)"
    and set_abs: "ok r \<Longrightarrow> ok (view_set view (rowKey s k) v r) \<and>
           content (view_set view (rowKey s k) v r) = (content r)(rowKey s k := Some v)"
    and delete_abs: "ok r \<Longrightarrow> ok (view_delete view (rowKey s k) r) \<and>
           content (view_delete view (rowKey s k) r) = (content r)(rowKey s k := None)"
begin

lemma fold_delete_abs:
  assumes "ok r"
  shows "ok (fold (\<lambda>k. view_delete view (rowKey s k)) ks r)"
    and "content (fold (\<lambda>k. view_delete view (rowKey s k)) ks r)
      = fold (\<lambda>k. view_delete map_view (rowKey s k)) ks (content r)"
  using assms by (induction ks arbitrary: r) (simp_all add: delete_abs)

lemma fold_set_abs:
  assumes "ok r"
  shows "ok (fold (\<lambda>(k, b). view_set view (rowKey s k) b) kvs r)"
    and "content (fold (\<lambda>(k, b). view_set view (rowKey s k) b) kvs r)
      = fold (\<lambda>(k, b). view_set map_view (rowKey s k) b) kvs (content r)"
  using assms by (induction kvs arbitrary: r) (simp_all add: set_abs case_prod_beta)

lemma readIndex_abs: "ok r \<Longrightarrow> readIndex view r key = readIndex map_view (content r) key"
  by (simp add: readIndex_def get_abs)

lemma read_token_row_abs: "ok r \<Longrightarrow> read_token_row i jid view r = read_token_row i jid map_view (content r)"
  by (simp add: read_token_row_def get_abs)

lemma put_row_sim:
  assumes "ok r"
  shows "simulated ok content (index_token_jid jid view (view_set view (rowKey s k) v r))
    (index_token_jid jid map_view ((content r)(rowKey s k := Some v)))"
proof -
  have "ok (view_set view (rowKey s k) v r)"
    and c: "content (view_set view (rowKey s k) v r) = (content r)(rowKey s k := Some v)"
    using set_abs [OF assms] by simp_all
  then show ?thesis
    unfolding c [symmetric] by (auto simp: simulated_def index_token_jid_def readIndex_abs set_abs split: sum.splits)
qed

lemma commitPatch_sim:
  assumes "ok r"
  shows "simulated ok content (commitPatch n s rm ad mi view r) (commitPatch n s rm ad mi map_view (content r))"
proof -
  define r3 where "r3 = view_set view (rowKey ''sync_version'' n) s
    (fold (\<lambda>(key, b). view_set view (rowKey ''mutation_mac'' key) b) ad
      (fold (\<lambda>key. view_delete view (rowKey ''mutation_mac'' key)) rm r))"
  have ok: "ok r3" and content: "content r3 = view_set map_view (rowKey ''sync_version'' n) s
    (fold (\<lambda>(key, b). view_set map_view (rowKey ''mutation_mac'' key) b) ad
      (fold (\<lambda>key. view_delete map_view (rowKey ''mutation_mac'' key)) rm (content r)))"
    unfolding r3_def by (simp_all add: assms set_abs fold_delete_abs fold_set_abs)
  show ?thesis
    using set_abs [OF ok] readIndex_abs [OF ok] unfolding commitPatch_def Let_def r3_def [symmetric] content [symmetric]
    by (auto simp: simulated_def ok split: sum.splits)
qed

lemma touch_sim:
  "ok r \<Longrightarrow> simulated ok content (touchTcTokenSenderTimestamp jid t view r) (touchTcTokenSenderTimestamp jid t map_view (content r))"
  by (simp add: touchTcTokenSenderTimestamp_def read_token_row_abs Let_def put_row_sim split: sum.split)

lemma received_sim:
  "ok r \<Longrightarrow> simulated ok content (storeReceivedTcToken jid tok t view r) (storeReceivedTcToken jid tok t map_view (content r))"
  by (simp add: storeReceivedTcToken_def read_token_row_abs Let_def put_row_sim split: sum.split)

lemma atomic_sim: "ok r \<Longrightarrow> simulated ok content (atomicCallbacks c view r) (atomicCallbacks c map_view (content r))"
  by (cases c) (simp_all add: commitPatch_sim touch_sim received_sim)

end

text \<open>\<open>AtomicRows\<close>: a plain \<open>Map\<close> of rows is a view.\<close>

definition atomic_rows :: "(js_string, bytes) omap row_view" where
  "atomic_rows = \<lparr>view_get = (\<lambda>k m. omap_get m k), view_set = omap_set, view_delete = omap_del\<rparr>"

interpretation rows: row_contract atomic_rows omap_get omap_ok
  by unfold_locales (auto simp: atomic_rows_def fun_eq_iff omap_simps)

lemma rowKey_eq: "rowKey s k = rowKey s' k' \<longleftrightarrow> s = s' \<and> k = k'"
proof
  assume "rowKey s k = rowKey s' k'"
  then have "json_parse (stringify (JArr [JStr s, JStr k])) = json_parse (stringify (JArr [JStr s', JStr k']))"
    by (simp add: rowKey_def)
  then show "s = s' \<and> k = k'" by (simp add: json_parse_stringify del: stringify.simps)
qed simp

subsection \<open>What the changes do\<close>

lemma set_set_add [simp]: "set (set_add x xs) = insert x (set xs)"
  by (auto simp: set_add_def)

lemma set_set_remove [simp]: "set (set_remove x xs) = set xs - {x}"
  by (auto simp: set_remove_def)

lemma set_fold_add: "set (fold set_add ys xs) = set xs \<union> set ys"
  by (induction ys arbitrary: xs) auto

lemma set_fold_remove: "set (fold set_remove ys xs) = set xs - set ys"
  by (induction ys arbitrary: xs) auto

lemma set_new_set: "set (new_set xs) = set xs"
  by (simp add: new_set_def set_fold_add)

lemma read_encoded_index:
  "m (rowKey ''meta'' key) = Some (encode_index idx) \<Longrightarrow> readIndex map_view m key = Inr (new_set idx)"
  by (simp add: readIndex_def encode_index_def decode_encode_json list_all_iff comp_def)

lemma map_fold_delete:
  "fold (\<lambda>k. view_delete map_view (rowKey s k)) ks m (rowKey s' k')
     = (if s' = s \<and> k' \<in> set ks then None else m (rowKey s' k'))"
  by (induction ks arbitrary: m) (auto simp: rowKey_eq)

lemma map_fold_set:
  "fold (\<lambda>(k, b). view_set map_view (rowKey s k) b) kvs m (rowKey s' k')
     = (if s' = s then (case map_of (rev kvs) k' of Some b \<Rightarrow> Some b | None \<Rightarrow> m (rowKey s' k')) else m (rowKey s' k'))"
  by (induction kvs arbitrary: m) (auto simp: rowKey_eq map_add_def split: option.splits)

text \<open>The index of mutation MACs lists exactly the stored MACs.\<close>

definition mac_index_exact :: "(js_string \<Rightarrow> bytes option) \<Rightarrow> bool" where
  "mac_index_exact m \<longleftrightarrow>
     (\<exists>idx. readIndex map_view m ''mutation_mac_keys'' = Inr idx \<and> set idx = {k. m (rowKey ''mutation_mac'' k) \<noteq> None})"

definition patched_mac :: "js_string list \<Rightarrow> (js_string \<times> bytes) list \<Rightarrow> bytes option \<Rightarrow> js_string \<Rightarrow> bytes option" where
  "patched_mac removals additions old k =
     (case map_of (rev additions) k of Some b \<Rightarrow> Some b | None \<Rightarrow> if k \<in> set removals then None else old)"

lemma commit_patch_map:
  assumes "commitPatch name state rm ad mi map_view m = Inr m'"
  shows "m' (rowKey ''sync_version'' name) = Some state"
    and "m' (rowKey ''mutation_mac'' k) = patched_mac rm ad (m (rowKey ''mutation_mac'' k)) k"
    and "s \<notin> {''sync_version'', ''mutation_mac'', ''meta''} \<Longrightarrow> m' (rowKey s j) = m (rowKey s j)"
    and "\<not> mi \<Longrightarrow> m' (rowKey ''meta'' j) = m (rowKey ''meta'' j)"
    and "mi \<Longrightarrow> \<exists>idx idx'. readIndex map_view m ''mutation_mac_keys'' = Inr idx \<and>
          readIndex map_view m' ''mutation_mac_keys'' = Inr idx' \<and> set idx' = (set idx - set rm) \<union> fst ` set ad"
proof -
  define m3 where "m3 = view_set map_view (rowKey ''sync_version'' name) state
    (fold (\<lambda>(key, b). view_set map_view (rowKey ''mutation_mac'' key) b) ad
      (fold (\<lambda>key. view_delete map_view (rowKey ''mutation_mac'' key)) rm m))"
  have m3: "m3 (rowKey s k) = (if s = ''sync_version'' \<and> k = name then Some state
      else if s = ''mutation_mac'' then patched_mac rm ad (m (rowKey s k)) k else m (rowKey s k))" for s k
    by (auto simp: m3_def rowKey_eq map_fold_set map_fold_delete patched_mac_def split: option.splits)
  have result: "if mi then (\<exists>idx. readIndex map_view m3 ''mutation_mac_keys'' = Inr idx \<and>
       m' = m3(rowKey ''meta'' ''mutation_mac_keys'' := Some (encode_index (fold set_add (map fst ad) (fold set_remove rm idx)))))
     else m' = m3"
    using assms unfolding commitPatch_def Let_def m3_def [symmetric] by (auto split: if_splits sum.splits)
  then show "m' (rowKey ''sync_version'' name) = Some state"
    "m' (rowKey ''mutation_mac'' k) = patched_mac rm ad (m (rowKey ''mutation_mac'' k)) k"
    "s \<notin> {''sync_version'', ''mutation_mac'', ''meta''} \<Longrightarrow> m' (rowKey s j) = m (rowKey s j)"
    "\<not> mi \<Longrightarrow> m' (rowKey ''meta'' j) = m (rowKey ''meta'' j)"
    by (auto simp: m3 rowKey_eq split: if_splits)
  assume mi
  with result obtain idx where idx: "readIndex map_view m3 ''mutation_mac_keys'' = Inr idx"
    and m': "m' = m3(rowKey ''meta'' ''mutation_mac_keys'' := Some (encode_index (fold set_add (map fst ad) (fold set_remove rm idx))))"
    by auto
  have "readIndex map_view m ''mutation_mac_keys'' = Inr idx"
    using idx by (simp add: readIndex_def m3)
  moreover have "readIndex map_view m' ''mutation_mac_keys'' = Inr (new_set (fold set_add (map fst ad) (fold set_remove rm idx)))"
    by (rule read_encoded_index) (simp add: m')
  ultimately show "\<exists>idx idx'. readIndex map_view m ''mutation_mac_keys'' = Inr idx \<and>
      readIndex map_view m' ''mutation_mac_keys'' = Inr idx' \<and> set idx' = (set idx - set rm) \<union> fst ` set ad"
    by (auto simp: set_new_set set_fold_add set_fold_remove)
qed

lemma commit_patch_keeps_index:
  assumes "commitPatch name state rm ad True map_view m = Inr m'" and "mac_index_exact m"
  shows "mac_index_exact m'"
proof -
  obtain idx idx' where "readIndex map_view m ''mutation_mac_keys'' = Inr idx"
    "readIndex map_view m' ''mutation_mac_keys'' = Inr idx'" "set idx' = (set idx - set rm) \<union> fst ` set ad"
    using commit_patch_map(5) [OF assms(1)] by auto
  moreover have "patched_mac rm ad old k \<noteq> None \<longleftrightarrow> k \<in> fst ` set ad \<or> (old \<noteq> None \<and> k \<notin> set rm)" for old k
    using map_of_eq_None_iff [of "rev ad" k] by (auto simp: patched_mac_def split: option.splits)
  ultimately show ?thesis
    using assms(2) unfolding mac_index_exact_def commit_patch_map(2) [OF assms(1)] by auto
qed

text \<open>The token rows: what one change does to the row, and that it keeps the index of the JIDs.\<close>

definition token_indexed :: "js_string \<Rightarrow> (js_string \<Rightarrow> bytes option) \<Rightarrow> bool" where
  "token_indexed jid m \<longleftrightarrow> (\<exists>idx. readIndex map_view m ''tc_token_jids'' = Inr idx \<and> jid \<in> set idx)"

lemma put_token_row:
  assumes "index_token_jid jid map_view (m(rowKey ''tc_token'' jid := Some (encodeTokenRow row))) = Inr m'"
    and "token_row_ok row"
  shows "read_token_row i jid map_view m' = Inr row" and "token_indexed jid m'"
    and "token_indexed jid' m \<Longrightarrow> token_indexed jid' m'"
    and "jid' \<noteq> jid \<Longrightarrow> m' (rowKey ''tc_token'' jid') = m (rowKey ''tc_token'' jid')"
    and "s \<notin> {''tc_token'', ''meta''} \<Longrightarrow> m' (rowKey s k) = m (rowKey s k)"
proof -
  let ?m1 = "m(rowKey ''tc_token'' jid := Some (encodeTokenRow row))"
  obtain idx where idx: "readIndex map_view ?m1 ''tc_token_jids'' = Inr idx"
    and m': "m' = ?m1(rowKey ''meta'' ''tc_token_jids'' := Some (encode_index (set_add jid idx)))"
    using assms(1) by (auto simp: index_token_jid_def split: sum.splits)
  have "readIndex map_view m' ''tc_token_jids'' = Inr (new_set (set_add jid idx))"
    by (rule read_encoded_index) (simp add: m')
  moreover have "readIndex map_view m ''tc_token_jids'' = Inr idx"
    using idx by (simp add: readIndex_def rowKey_eq)
  ultimately show "token_indexed jid m'" "token_indexed jid' m \<Longrightarrow> token_indexed jid' m'"
    by (auto simp: token_indexed_def set_new_set)
  show "read_token_row i jid map_view m' = Inr row"
    by (simp add: read_token_row_def m' rowKey_eq decode_encode_row [OF assms(2)])
  show "jid' \<noteq> jid \<Longrightarrow> m' (rowKey ''tc_token'' jid') = m (rowKey ''tc_token'' jid')"
    "s \<notin> {''tc_token'', ''meta''} \<Longrightarrow> m' (rowKey s k) = m (rowKey s k)"
    by (auto simp: m' rowKey_eq)
qed

lemma read_token_row_ok: "read_token_row i jid view r = Inr row \<Longrightarrow> is_i64 i \<Longrightarrow> token_row_ok row"
  unfolding read_token_row_def
  by (cases "view_get view (rowKey ''tc_token'' jid) r") (auto simp: token_row_ok_def [of "\<lparr>row_token = [], token_timestamp = i, sender_timestamp = None\<rparr>"] dest: decoded_row_ok)

lemma index_token_jid_returns:
  "readIndex view r ''tc_token_jids'' = Inr idx \<Longrightarrow> \<exists>r'. index_token_jid jid view r = Inr r'"
  by (simp add: index_token_jid_def)

text \<open>
  C10: a committed app-state patch stores the new state vector, removes the removed MACs and stores
  the added ones (an addition winning over a removal, the last of two additions over the first),
  leaves every other row alone and, when the index is maintained, keeps the index listing exactly
  the MACs that are stored.
\<close>

theorem commit_patch_effect:
  assumes "commitPatch name state rm ad mi atomic_rows r = Inr r'" and "omap_ok r"
  shows "omap_get r' (rowKey ''sync_version'' name) = Some state \<and>
    (\<forall>k. omap_get r' (rowKey ''mutation_mac'' k) = patched_mac rm ad (omap_get r (rowKey ''mutation_mac'' k)) k) \<and>
    (\<forall>s k. s \<notin> {''sync_version'', ''mutation_mac'', ''meta''} \<longrightarrow> omap_get r' (rowKey s k) = omap_get r (rowKey s k)) \<and>
    (mi \<longrightarrow> mac_index_exact (omap_get r) \<longrightarrow> mac_index_exact (omap_get r'))"
proof -
  have m: "commitPatch name state rm ad mi map_view (omap_get r) = Inr (omap_get r')"
    using rows.commitPatch_sim [OF assms(2), of name state rm ad mi] assms(1) by (simp add: simulated_def)
  show ?thesis
    using commit_patch_map(1-3) [OF m] commit_patch_keeps_index [of name state rm ad "omap_get r" "omap_get r'"] m
    by (cases mi) auto
qed

theorem commit_patch_effect_witness:
  "\<exists>r'. commitPatch ''regular'' [7] [''a''] [(''b'', [1])] True atomic_rows [] = Inr r' \<and> mac_index_exact (omap_get r')"
proof -
  obtain r' where r': "commitPatch ''regular'' [7] [''a''] [(''b'', [1])] True atomic_rows [] = Inr r'"
    by (simp add: commitPatch_def Let_def readIndex_def atomic_rows_def rowKey_eq del: stringify.simps)
  have "mac_index_exact (omap_get [])"
    by (simp add: mac_index_exact_def readIndex_def new_set_def)
  then show ?thesis using commit_patch_effect [OF r'] r' by auto
qed

context row_contract
begin

lemma touch_effect:
  assumes "ok r" and "is_i64 t" and "readIndex view r ''tc_token_jids'' = Inr idx"
    and "read_token_row t jid view r = Inr row"
  shows "\<exists>r'. touchTcTokenSenderTimestamp jid (show_int t) view r = Inr r' \<and> ok r' \<and> token_indexed jid (content r') \<and>
    (\<forall>i. read_token_row i jid view r' = Inr (row\<lparr>sender_timestamp :=
       Some (case sender_timestamp row of None \<Rightarrow> t | Some st \<Rightarrow> max st t)\<rparr>))"
proof -
  let ?row = "row\<lparr>sender_timestamp := Some (case sender_timestamp row of None \<Rightarrow> t | Some st \<Rightarrow> max st t)\<rparr>"
  have new: "(if sender_timestamp row = None \<or> t > the (sender_timestamp row)
    then row\<lparr>sender_timestamp := Some t\<rparr> else row) = ?row"
    by (cases "sender_timestamp row") (auto simp: max_def)
  have row_ok: "token_row_ok ?row"
    using read_token_row_ok [OF assms(4,2)] assms(2) by (auto simp: token_row_ok_def max_def split: option.splits)
  let ?m = "(content r)(rowKey ''tc_token'' jid := Some (encodeTokenRow ?row))"
  have "readIndex map_view (content r) ''tc_token_jids'' = readIndex map_view ?m ''tc_token_jids''"
    by (simp add: readIndex_def rowKey_eq)
  then obtain m' where m': "index_token_jid jid map_view ?m = Inr m'"
    using assms(3) index_token_jid_returns [of map_view ?m idx jid] by (auto simp: readIndex_abs [OF assms(1)])
  have "touchTcTokenSenderTimestamp jid (show_int t) map_view (content r) = Inr m'"
    using assms(4) new m' by (simp add: touchTcTokenSenderTimestamp_def signedTimestamp_show assms(2)
        read_token_row_abs [OF assms(1)] Let_def)
  with touch_sim [OF assms(1), of jid "show_int t"] obtain r' where
    "touchTcTokenSenderTimestamp jid (show_int t) view r = Inr r'" "ok r'" "content r' = m'"
    by (auto simp: simulated_def split: sum.splits)
  with put_token_row(1,2) [OF m' row_ok] show ?thesis by (auto simp: read_token_row_abs)
qed

lemma received_effect:
  assumes "ok r" and "is_i64 t" and "readIndex view r ''tc_token_jids'' = Inr idx"
    and "read_token_row t jid view r = Inr row"
  shows "\<exists>r'. storeReceivedTcToken jid tok (show_int t) view r = Inr r' \<and> ok r' \<and> token_indexed jid (content r') \<and>
    (\<forall>i. read_token_row i jid view r' = Inr (if row_token row = [] \<or> t \<ge> token_timestamp row
       then row\<lparr>row_token := tok, token_timestamp := t\<rparr> else row))"
proof -
  let ?row = "if row_token row = [] \<or> t \<ge> token_timestamp row then row\<lparr>row_token := tok, token_timestamp := t\<rparr> else row"
  have row_ok: "token_row_ok ?row"
    using read_token_row_ok [OF assms(4,2)] assms(2) by (auto simp: token_row_ok_def)
  let ?m = "(content r)(rowKey ''tc_token'' jid := Some (encodeTokenRow ?row))"
  have "readIndex map_view (content r) ''tc_token_jids'' = readIndex map_view ?m ''tc_token_jids''"
    by (simp add: readIndex_def rowKey_eq)
  then obtain m' where m': "index_token_jid jid map_view ?m = Inr m'"
    using assms(3) index_token_jid_returns [of map_view ?m idx jid] by (auto simp: readIndex_abs [OF assms(1)])
  have "storeReceivedTcToken jid tok (show_int t) map_view (content r) = Inr m'"
    using assms(4) m' by (simp add: storeReceivedTcToken_def signedTimestamp_show assms(2)
        read_token_row_abs [OF assms(1)] Let_def)
  with received_sim [OF assms(1), of jid tok "show_int t"] obtain r' where
    "storeReceivedTcToken jid tok (show_int t) view r = Inr r'" "ok r'" "content r' = m'"
    by (auto simp: simulated_def split: sum.splits)
  with put_token_row(1,2) [OF m' row_ok] show ?thesis by (auto simp: read_token_row_abs)
qed

end

text \<open>Deliveries of received tokens of one JID, each in a transaction of its own.\<close>

fun receive_all :: "js_string \<Rightarrow> (byte list \<times> int) list \<Rightarrow> 'r row_view \<Rightarrow> 'r \<Rightarrow> store_error + 'r" where
  "receive_all jid [] view r = Inr r"
| "receive_all jid ((tok, t) # ds) view r =
     (case storeReceivedTcToken jid tok (show_int t) view r of Inl e \<Rightarrow> Inl e | Inr r' \<Rightarrow> receive_all jid ds view r')"

lemma receive_all_from:
  assumes "omap_ok r" and "\<forall>(tok, t) \<in> set ds. tok \<noteq> [] \<and> is_i64 t"
    and "readIndex atomic_rows r ''tc_token_jids'' = Inr idx"
    and "\<And>i. read_token_row i jid atomic_rows r = Inr row" and "row_token row \<noteq> []"
  shows "\<exists>r' row'. receive_all jid ds atomic_rows r = Inr r' \<and> (\<forall>i. read_token_row i jid atomic_rows r' = Inr row') \<and>
    (row_token row', token_timestamp row') \<in> insert (row_token row, token_timestamp row) (set ds) \<and>
    (\<forall>t \<in> insert (token_timestamp row) (snd ` set ds). t \<le> token_timestamp row')"
  using assms
proof (induction ds arbitrary: r row idx)
  case (Cons d ds)
  obtain tok t where d: "d = (tok, t)" by (cases d)
  with Cons.prems have dt: "tok \<noteq> []" "is_i64 t" by auto
  let ?row = "if row_token row = [] \<or> t \<ge> token_timestamp row then row\<lparr>row_token := tok, token_timestamp := t\<rparr> else row"
  obtain r1 where r1: "storeReceivedTcToken jid tok (show_int t) atomic_rows r = Inr r1" "omap_ok r1"
    "token_indexed jid (omap_get r1)" and rd: "\<And>i. read_token_row i jid atomic_rows r1 = Inr ?row"
    using rows.received_effect [OF Cons.prems(1) dt(2) Cons.prems(3,4)] by auto
  obtain idx1 where "readIndex atomic_rows r1 ''tc_token_jids'' = Inr idx1"
    using r1(3) by (auto simp: token_indexed_def rows.readIndex_abs [OF r1(2)])
  moreover have "row_token ?row \<noteq> []" using dt(1) Cons.prems(5) by simp
  ultimately obtain r' row' where "receive_all jid ds atomic_rows r1 = Inr r'"
    "\<forall>i. read_token_row i jid atomic_rows r' = Inr row'"
    "(row_token row', token_timestamp row') \<in> insert (row_token ?row, token_timestamp ?row) (set ds)"
    "\<forall>t \<in> insert (token_timestamp ?row) (snd ` set ds). t \<le> token_timestamp row'"
    using Cons.IH [OF r1(2) _ _ rd] Cons.prems(2) by auto
  with r1(1) d Cons.prems(5) show ?case by (auto split: if_splits)
qed auto

text \<open>
  C11: received tokens may arrive in any order: after any non-empty series of deliveries for a JID
  without a row, the stored row holds one of the delivered tokens with its own timestamp, and no
  delivered timestamp is newer.
\<close>

theorem received_tokens_keep_newest:
  assumes "omap_ok r" and "ds \<noteq> []" and "\<forall>(tok, t) \<in> set ds. tok \<noteq> [] \<and> is_i64 t"
    and "readIndex atomic_rows r ''tc_token_jids'' = Inr idx" and "omap_get r (rowKey ''tc_token'' jid) = None"
  shows "\<exists>r' row. receive_all jid ds atomic_rows r = Inr r' \<and> (\<forall>i. read_token_row i jid atomic_rows r' = Inr row) \<and>
    (row_token row, token_timestamp row) \<in> set ds \<and> (\<forall>t \<in> snd ` set ds. t \<le> token_timestamp row)"
proof -
  obtain tok t rest where ds: "ds = (tok, t) # rest" using assms(2) by (cases ds) auto
  with assms(3) have dt: "tok \<noteq> []" "is_i64 t" by auto
  have "read_token_row t jid atomic_rows r = Inr \<lparr>row_token = [], token_timestamp = t, sender_timestamp = None\<rparr>"
    using assms(5) by (simp add: read_token_row_def atomic_rows_def)
  from rows.received_effect [OF assms(1) dt(2) assms(4) this]
  obtain r1 where r1: "storeReceivedTcToken jid tok (show_int t) atomic_rows r = Inr r1" "omap_ok r1"
    "token_indexed jid (omap_get r1)"
    and rd: "\<And>i. read_token_row i jid atomic_rows r1 = Inr \<lparr>row_token = tok, token_timestamp = t, sender_timestamp = None\<rparr>"
    by auto
  obtain idx1 where "readIndex atomic_rows r1 ''tc_token_jids'' = Inr idx1"
    using r1(3) by (auto simp: token_indexed_def rows.readIndex_abs [OF r1(2)])
  from receive_all_from [OF r1(2) _ this rd, of rest] assms(3) ds dt(1) r1(1)
  show ?thesis by fastforce
qed

theorem received_tokens_keep_newest_witness:
  "\<exists>r' row. receive_all ''a'' [([1], 5), ([2], 9), ([3], 7)] atomic_rows [] = Inr r' \<and>
    (\<forall>i. read_token_row i ''a'' atomic_rows r' = Inr row) \<and>
    (row_token row, token_timestamp row) \<in> set [([1], 5), ([2], 9), ([3], 7)] \<and>
    (\<forall>t \<in> snd ` set [([1 :: byte], 5), ([2], 9), ([3], 7)]. t \<le> token_timestamp row)"
  by (rule received_tokens_keep_newest [of _ _ "[]"]) (simp_all add: is_i64_def readIndex_def atomic_rows_def new_set_def)

text \<open>
  touching the sender timestamp of a JID keeps the token and its timestamp, raises the sender
  timestamp to the newer of the two, and lists the JID in the index; touching twice in either order
  leaves the same sender timestamp.
\<close>

theorem touch_raises_sender_timestamp:
  assumes "omap_ok r" and "is_i64 t" and "is_i64 u" and "readIndex atomic_rows r ''tc_token_jids'' = Inr idx"
    and "read_token_row t jid atomic_rows r = Inr row"
  shows "\<exists>r1 r2. touchTcTokenSenderTimestamp jid (show_int t) atomic_rows r = Inr r1 \<and>
    touchTcTokenSenderTimestamp jid (show_int u) atomic_rows r1 = Inr r2 \<and>
    read_token_row t jid atomic_rows r1 = Inr (row\<lparr>sender_timestamp :=
      Some (case sender_timestamp row of None \<Rightarrow> t | Some st \<Rightarrow> max st t)\<rparr>) \<and>
    read_token_row t jid atomic_rows r2 = Inr (row\<lparr>sender_timestamp :=
      Some (case sender_timestamp row of None \<Rightarrow> max t u | Some st \<Rightarrow> max st (max t u))\<rparr>) \<and>
    token_indexed jid (omap_get r2)"
proof -
  let ?row = "row\<lparr>sender_timestamp := Some (case sender_timestamp row of None \<Rightarrow> t | Some st \<Rightarrow> max st t)\<rparr>"
  obtain r1 where r1: "touchTcTokenSenderTimestamp jid (show_int t) atomic_rows r = Inr r1" "omap_ok r1"
    "token_indexed jid (omap_get r1)" and rd: "\<And>i. read_token_row i jid atomic_rows r1 = Inr ?row"
    using rows.touch_effect [OF assms(1,2,4,5)] by auto
  obtain idx1 where "readIndex atomic_rows r1 ''tc_token_jids'' = Inr idx1"
    using r1(3) by (auto simp: token_indexed_def rows.readIndex_abs [OF r1(2)])
  from rows.touch_effect [OF r1(2) assms(3) this rd] r1(1) rd show ?thesis
    by (auto simp: max.assoc split: option.splits)
qed

theorem touch_raises_sender_timestamp_witness:
  "\<exists>r1 r2. touchTcTokenSenderTimestamp ''a'' (show_int 9) atomic_rows [] = Inr r1 \<and>
    touchTcTokenSenderTimestamp ''a'' (show_int 4) atomic_rows r1 = Inr r2 \<and> token_indexed ''a'' (omap_get r2)"
proof -
  have "readIndex atomic_rows [] ''tc_token_jids'' = Inr []"
    "read_token_row 9 ''a'' atomic_rows [] = Inr \<lparr>row_token = [], token_timestamp = 9, sender_timestamp = None\<rparr>"
    by (simp_all add: readIndex_def read_token_row_def atomic_rows_def new_set_def)
  from touch_raises_sender_timestamp [OF _ _ _ this, of 4] show ?thesis by (auto simp: is_i64_def)
qed

subsection \<open>The store check before hydration\<close>

datatype store_contract_error = NotAStore | MissingMethod js_string

definition required_callbacks :: "js_string list" where
  "required_callbacks = [''get'', ''set'', ''delete'', ''commitPatch'', ''touchTcTokenSenderTimestamp'', ''storeReceivedTcToken'']"

text \<open>The argument tells which properties are functions; \<open>None\<close> is a value that is no object.\<close>

definition assertStoreCallbacks :: "(js_string \<Rightarrow> bool) option \<Rightarrow> store_contract_error option" where
  "assertStoreCallbacks store =
     (case store of
        None \<Rightarrow> Some NotAStore
      | Some has \<Rightarrow> map_option MissingMethod (List.find (\<lambda>m. \<not> has m) required_callbacks))"

end
