(* ===== verification/MemoryStore.thy ===== *)
theory MemoryStore
  imports AtomicStore
begin

text \<open>
  \<open>src/src/Utils/use-memory-store.ts\<close>: the in-memory store, a map of buckets that are never empty,
  and its staged transaction. The key-value contract stated here is the one the bridge relies on;
  the batched operations are derived from it. A byte array that is stored or returned is a copy, so
  a value is a value. \<open>src/src/Compatibility/internal/native-memory-store.ts\<close> only marks a store.
\<close>

subsection \<open>The contract of a key-value store\<close>

locale kv_store =
  fixes lookup :: "'s \<Rightarrow> 'n \<Rightarrow> 'k \<Rightarrow> 'v option"
    and put :: "'n \<Rightarrow> 'k \<Rightarrow> 'v \<Rightarrow> 's \<Rightarrow> 's"
    and remove :: "'n \<Rightarrow> 'k \<Rightarrow> 's \<Rightarrow> 's"
    and ok :: "'s \<Rightarrow> bool"
    and good :: "'n \<Rightarrow> bool"  \<comment> \<open>the store names the backend accepts\<close>
  assumes put_ok: "ok s \<Longrightarrow> good n \<Longrightarrow> ok (put n k v s)"
    and remove_ok: "ok s \<Longrightarrow> good n \<Longrightarrow> ok (remove n k s)"
    and lookup_put: "ok s \<Longrightarrow> good n \<Longrightarrow> good n' \<Longrightarrow>
          lookup (put n k v s) n' k' = (if n' = n \<and> k' = k then Some v else lookup s n' k')"
    and lookup_remove: "ok s \<Longrightarrow> good n \<Longrightarrow> good n' \<Longrightarrow>
          lookup (remove n k s) n' k' = (if n' = n \<and> k' = k then None else lookup s n' k')"
begin

lemma puts_ok: "ok s \<Longrightarrow> good n \<Longrightarrow> ok (fold (\<lambda>(k, v). put n k v) kvs s)"
  by (induction kvs arbitrary: s) (auto simp: put_ok)

lemma lookup_puts:
  "ok s \<Longrightarrow> good n \<Longrightarrow> good n' \<Longrightarrow> lookup (fold (\<lambda>(k, v). put n k v) kvs s) n' k' =
      (if n' = n then (case map_of (rev kvs) k' of Some v \<Rightarrow> Some v | None \<Rightarrow> lookup s n' k') else lookup s n' k')"
proof (induction kvs arbitrary: s)
  case (Cons kv kvs)
  obtain k v where "kv = (k, v)" by (cases kv)
  then show ?case using Cons by (auto simp: put_ok lookup_put map_add_def split: option.split)
qed simp

lemma removes_ok: "ok s \<Longrightarrow> good n \<Longrightarrow> ok (fold (remove n) ks s)"
  by (induction ks arbitrary: s) (auto simp: remove_ok)

lemma lookup_removes:
  "ok s \<Longrightarrow> good n \<Longrightarrow> good n' \<Longrightarrow>
     lookup (fold (remove n) ks s) n' k' = (if n' = n \<and> k' \<in> set ks then None else lookup s n' k')"
  by (induction ks arbitrary: s) (auto simp: remove_ok lookup_remove)

end

subsection \<open>Buckets\<close>

type_synonym bucket = "(js_string, bytes) omap"
type_synonym memory = "(js_string, bucket) omap"

definition bucket_of :: "memory \<Rightarrow> js_string \<Rightarrow> bucket" where
  "bucket_of s n = (case omap_get s n of Some b \<Rightarrow> b | None \<Rightarrow> [])"

definition put_bucket :: "js_string \<Rightarrow> bucket \<Rightarrow> memory \<Rightarrow> memory" where
  "put_bucket n b s = omap_set n b s"

definition deleteEmptyBucket :: "js_string \<Rightarrow> bucket \<Rightarrow> memory \<Rightarrow> memory" where
  "deleteEmptyBucket n b s = (if b = [] then omap_del n s else s)"

definition memory_get :: "memory \<Rightarrow> js_string \<Rightarrow> js_string \<Rightarrow> bytes option" where
  "memory_get s n k = (case omap_get s n of Some b \<Rightarrow> omap_get b k | None \<Rightarrow> None)"

definition memory_set :: "js_string \<Rightarrow> js_string \<Rightarrow> bytes \<Rightarrow> memory \<Rightarrow> memory" where
  "memory_set n k v s = put_bucket n (omap_set k v (bucket_of s n)) s"

definition memory_delete :: "js_string \<Rightarrow> js_string \<Rightarrow> memory \<Rightarrow> memory" where
  "memory_delete n k s =
     (case omap_get s n of
        None \<Rightarrow> s
      | Some b \<Rightarrow> (let b' = omap_del k b in deleteEmptyBucket n b' (put_bucket n b' s)))"

definition memory_setMany :: "js_string \<Rightarrow> (js_string \<times> bytes) list \<Rightarrow> memory \<Rightarrow> memory" where
  "memory_setMany n entries s =
     (if entries = [] then s
      else put_bucket n (fold (\<lambda>(k, v). omap_set k v) entries (bucket_of s n)) s)"

definition memory_getMany :: "js_string \<Rightarrow> js_string list \<Rightarrow> memory \<Rightarrow> (js_string \<times> bytes) list" where
  "memory_getMany n keys s =
     (case omap_get s n of
        None \<Rightarrow> []
      | Some b \<Rightarrow> concat (map (\<lambda>k. case omap_get b k of Some v \<Rightarrow> [(k, v)] | None \<Rightarrow> []) keys))"

definition memory_deleteMany :: "js_string \<Rightarrow> js_string list \<Rightarrow> memory \<Rightarrow> memory" where
  "memory_deleteMany n keys s =
     (case omap_get s n of
        None \<Rightarrow> s
      | Some b \<Rightarrow> (let b' = fold omap_del keys b in deleteEmptyBucket n b' (put_bucket n b' s)))"

text \<open>An absent or empty prefix selects every key.\<close>

definition memory_listKeys :: "js_string \<Rightarrow> js_string option \<Rightarrow> memory \<Rightarrow> js_string list" where
  "memory_listKeys n prefix s =
     (case omap_get s n of
        None \<Rightarrow> []
      | Some b \<Rightarrow> filter (\<lambda>k. case prefix of None \<Rightarrow> True | Some p \<Rightarrow> p = [] \<or> starts_with k p) (map fst b))"

definition memory_deletePrefix :: "js_string \<Rightarrow> js_string \<Rightarrow> memory \<Rightarrow> nat \<times> memory" where
  "memory_deletePrefix n prefix s =
     (case omap_get s n of
        None \<Rightarrow> (0, s)
      | Some b \<Rightarrow>
          (let (deleted, b') = foldl (\<lambda>(d, acc) k. if starts_with k prefix then (d + 1, omap_del k acc) else (d, acc))
                 (0, b) (map fst b)
           in (deleted, deleteEmptyBucket n b' (put_bucket n b' s))))"

text \<open>Buckets are maps, and an empty one is removed at once.\<close>

definition memory_ok :: "memory \<Rightarrow> bool" where
  "memory_ok s \<longleftrightarrow> omap_ok s \<and> (\<forall>n b. omap_get s n = Some b \<longrightarrow> omap_ok b \<and> b \<noteq> [])"

lemma memory_ok_put:
  "memory_ok s \<Longrightarrow> omap_ok b \<Longrightarrow> memory_ok (deleteEmptyBucket n b (put_bucket n b s))"
  by (auto simp: memory_ok_def deleteEmptyBucket_def put_bucket_def omap_simps)

lemma memory_get_put:
  "memory_get (deleteEmptyBucket n b (put_bucket n b s)) n' k = (if n' = n then omap_get b k else memory_get s n' k)"
  by (auto simp: memory_get_def deleteEmptyBucket_def put_bucket_def omap_simps)

lemma put_nonempty: "b \<noteq> [] \<Longrightarrow> put_bucket n b s = deleteEmptyBucket n b (put_bucket n b s)"
  by (simp add: deleteEmptyBucket_def)

lemma bucket_ok: "memory_ok s \<Longrightarrow> omap_ok (bucket_of s n)"
  by (auto simp: memory_ok_def bucket_of_def split: option.splits)

lemma bucket_get: "omap_get (bucket_of s n) k = memory_get s n k"
  by (simp add: bucket_of_def memory_get_def split: option.splits)

lemma memory_set_as_put:
  "memory_set n k v s = (let b = omap_set k v (bucket_of s n) in deleteEmptyBucket n b (put_bucket n b s))"
  by (simp add: memory_set_def deleteEmptyBucket_def update_nonempty)

lemma memory_delete_as_put:
  assumes "memory_ok s"
  shows "memory_delete n k s = (let b = omap_del k (bucket_of s n) in deleteEmptyBucket n b (put_bucket n b s))
    \<or> (memory_delete n k s = s \<and> omap_get s n = None)"
  by (simp add: memory_delete_def bucket_of_def split: option.splits)

interpretation mem: kv_store memory_get memory_set memory_delete memory_ok "\<lambda>_. True"
proof
  fix s :: memory and n k v n' k'
  assume s: "memory_ok s"
  show "memory_ok (memory_set n k v s)"
    unfolding memory_set_as_put Let_def by (intro memory_ok_put s omap_ok_set bucket_ok)
  show "memory_get (memory_set n k v s) n' k' = (if n' = n \<and> k' = k then Some v else memory_get s n' k')"
    unfolding memory_set_as_put Let_def memory_get_put by (auto simp: omap_simps bucket_get)
  show "memory_ok (memory_delete n k s)"
    using memory_delete_as_put [OF s, of n k] memory_ok_put [OF s omap_ok_del [OF bucket_ok [OF s]]] s
    by (auto simp: Let_def)
  show "memory_get (memory_delete n k s) n' k' = (if n' = n \<and> k' = k then None else memory_get s n' k')"
    using memory_delete_as_put [OF s, of n k]
    by (auto simp: Let_def memory_get_put omap_simps bucket_get) (simp_all add: memory_get_def)
qed

subsection \<open>Batches, listing and prefixes\<close>

lemma bucket_fold_set:
  assumes "omap_ok b"
  shows "omap_ok (fold (\<lambda>(k, v). omap_set k v) kvs b)"
    and "omap_get (fold (\<lambda>(k, v). omap_set k v) kvs b) k'
       = (case map_of (rev kvs) k' of Some v \<Rightarrow> Some v | None \<Rightarrow> omap_get b k')"
proof -
  show "omap_ok (fold (\<lambda>(k, v). omap_set k v) kvs b)"
    using assms by (induction kvs arbitrary: b) auto
  show "omap_get (fold (\<lambda>(k, v). omap_set k v) kvs b) k'
       = (case map_of (rev kvs) k' of Some v \<Rightarrow> Some v | None \<Rightarrow> omap_get b k')"
  proof (induction kvs arbitrary: b)
    case (Cons kv kvs)
    obtain k v where "kv = (k, v)" by (cases kv)
    then show ?case by (simp add: Cons.IH omap_get_set map_add_def split: option.split)
  qed simp
qed

lemma bucket_fold_del:
  "omap_ok b \<Longrightarrow> omap_ok (fold omap_del ks b) \<and>
     omap_get (fold omap_del ks b) k' = (if k' \<in> set ks then None else omap_get b k')"
  by (induction ks arbitrary: b) (auto simp: omap_simps)

lemma update_fold_nonempty: "kvs \<noteq> [] \<Longrightarrow> fold (\<lambda>(k, v). omap_set k v) kvs b \<noteq> []"
proof (induction kvs rule: rev_induct)
  case (snoc kv kvs)
  obtain k v where "kv = (k, v)" by (cases kv)
  then show ?case by (simp add: update_nonempty)
qed simp

lemma setMany_as_put:
  assumes "kvs \<noteq> []"
  shows "memory_setMany n kvs s =
    (let b = fold (\<lambda>(k, v). omap_set k v) kvs (bucket_of s n) in deleteEmptyBucket n b (put_bucket n b s))"
  using assms update_fold_nonempty [OF assms, of "bucket_of s n"] by (simp add: memory_setMany_def deleteEmptyBucket_def)

lemma setMany_ok:
  assumes "memory_ok s"
  shows "memory_ok (memory_setMany n kvs s)"
proof (cases "kvs = []")
  case False
  show ?thesis
    unfolding setMany_as_put [OF False] Let_def
    using bucket_fold_set [OF bucket_ok [OF assms]] by (intro memory_ok_put assms) simp
qed (simp add: memory_setMany_def assms)

lemma setMany_get:
  assumes "memory_ok s"
  shows "memory_get (memory_setMany n kvs s) n' k = memory_get (fold (\<lambda>(k, v). memory_set n k v) kvs s) n' k"
proof (cases "kvs = []")
  case False
  show ?thesis
    unfolding setMany_as_put [OF False] Let_def memory_get_put mem.lookup_puts [OF assms TrueI TrueI]
    using bucket_fold_set(2) [OF bucket_ok [OF assms, of n], of kvs k]
    by (auto simp: bucket_get split: option.splits)
qed (simp add: memory_setMany_def)

lemma deleteMany_ok:
  assumes "memory_ok s"
  shows "memory_ok (memory_deleteMany n ks s)"
proof (cases "omap_get s n")
  case (Some b)
  then have "omap_ok (fold omap_del ks b)" using assms bucket_fold_del [of b ks] by (simp add: memory_ok_def)
  from memory_ok_put [OF assms this] Some show ?thesis by (simp add: memory_deleteMany_def Let_def)
qed (simp add: memory_deleteMany_def assms)

lemma deleteMany_get:
  assumes "memory_ok s"
  shows "memory_get (memory_deleteMany n ks s) n' k = memory_get (fold (memory_delete n) ks s) n' k"
proof (cases "omap_get s n")
  case None
  then show ?thesis by (simp add: memory_deleteMany_def mem.lookup_removes [OF assms TrueI TrueI]) (simp add: memory_get_def)
next
  case (Some b)
  then have "omap_ok b" using assms by (auto simp: memory_ok_def)
  with Some show ?thesis
    using bucket_fold_del [of b ks k]
    by (simp add: memory_deleteMany_def Let_def memory_get_put mem.lookup_removes [OF assms TrueI TrueI]) (simp add: memory_get_def)
qed

lemma prefix_loop:
  "foldl (\<lambda>(d, acc) k. if P k then (d + 1, omap_del k acc) else (d, acc)) (d0, b) ks
     = (d0 + length (filter P ks), fold omap_del (filter P ks) b)"
  by (induction ks arbitrary: d0 b) auto

lemma deletePrefix_eq:
  "memory_deletePrefix n p s =
     (length (memory_listKeys n (Some p) s), memory_deleteMany n (memory_listKeys n (Some p) s) s)"
proof -
  have loop: "foldl (\<lambda>(d, acc) k. if starts_with k p then (d + 1, omap_del k acc) else (d, acc)) (0 :: nat, b) ks
      = (length (filter (\<lambda>k. starts_with k p) ks), fold omap_del (filter (\<lambda>k. starts_with k p) ks) b)" for b ks
    using prefix_loop [of "\<lambda>k. starts_with k p" 0 b ks] by simp
  have "(case Some p of None \<Rightarrow> True | Some p \<Rightarrow> p = [] \<or> starts_with k p) = starts_with k p" for k
    by (auto simp: starts_with_def)
  then show ?thesis
    unfolding memory_deletePrefix_def memory_listKeys_def memory_deleteMany_def
    by (simp only: loop split: option.split) (simp add: Let_def)
qed

lemma listKeys_set:
  assumes "memory_ok s"
  shows "set (memory_listKeys n prefix s)
      = {k. memory_get s n k \<noteq> None \<and> (case prefix of None \<Rightarrow> True | Some p \<Rightarrow> starts_with k p)}"
    and "distinct (memory_listKeys n prefix s)"
proof -
  have "(case prefix of None \<Rightarrow> True | Some p \<Rightarrow> p = [] \<or> starts_with k p)
      = (case prefix of None \<Rightarrow> True | Some p \<Rightarrow> starts_with k p)" for k
    by (auto simp: starts_with_def split: option.splits)
  moreover have key_iff: "k \<in> fst ` set b \<longleftrightarrow> (\<exists>v. omap_get b k = Some v)" for k and b :: bucket
    using map_of_eq_None_iff [of b k] by auto
  ultimately show "set (memory_listKeys n prefix s)
      = {k. memory_get s n k \<noteq> None \<and> (case prefix of None \<Rightarrow> True | Some p \<Rightarrow> starts_with k p)}"
    unfolding memory_listKeys_def memory_get_def
    by (cases "omap_get s n") (simp_all add: set_eq_iff key_iff)
  show "distinct (memory_listKeys n prefix s)"
    using assms by (cases "omap_get s n") (auto simp: memory_listKeys_def memory_ok_def omap_ok_def)
qed

lemma getMany_eq:
  "memory_getMany n ks s = concat (map (\<lambda>k. case memory_get s n k of Some v \<Rightarrow> [(k, v)] | None \<Rightarrow> []) ks)"
  by (auto simp: memory_getMany_def memory_get_def split: option.splits)

text \<open>
  C12: the batched operations of the in-memory store are the single ones repeated, enumeration lists
  exactly the stored keys with the prefix once each, prefix deletion removes exactly those and
  reports how many, and every operation keeps the store free of empty buckets.
\<close>

theorem memory_batches_refine_single_operations:
  assumes "memory_ok s"
  shows "(\<forall>n' k. memory_get (memory_setMany n kvs s) n' k = memory_get (fold (\<lambda>(k, v). memory_set n k v) kvs s) n' k) \<and>
    (\<forall>n' k. memory_get (memory_deleteMany n ks s) n' k = memory_get (fold (memory_delete n) ks s) n' k) \<and>
    memory_getMany n ks s = concat (map (\<lambda>k. case memory_get s n k of Some v \<Rightarrow> [(k, v)] | None \<Rightarrow> []) ks) \<and>
    distinct (memory_listKeys n (Some p) s) \<and>
    set (memory_listKeys n (Some p) s) = {k. memory_get s n k \<noteq> None \<and> starts_with k p} \<and>
    (\<forall>n' k. memory_get (snd (memory_deletePrefix n p s)) n' k = (if n' = n \<and> starts_with k p then None else memory_get s n' k)) \<and>
    fst (memory_deletePrefix n p s) = card {k. memory_get s n k \<noteq> None \<and> starts_with k p} \<and>
    memory_ok (memory_setMany n kvs s) \<and> memory_ok (memory_deleteMany n ks s) \<and> memory_ok (snd (memory_deletePrefix n p s))"
proof -
  have keys: "set (memory_listKeys n (Some p) s) = {k. memory_get s n k \<noteq> None \<and> starts_with k p}"
    and dist: "distinct (memory_listKeys n (Some p) s)"
    using listKeys_set [OF assms, of n "Some p"] by simp_all
  have "memory_get (snd (memory_deletePrefix n p s)) n' k = (if n' = n \<and> starts_with k p then None else memory_get s n' k)" for n' k
    by (auto simp: deletePrefix_eq deleteMany_get [OF assms] mem.lookup_removes [OF assms TrueI TrueI] keys)
  then show ?thesis
    using setMany_get [OF assms] deleteMany_get [OF assms] getMany_eq keys dist distinct_card [OF dist]
      setMany_ok [OF assms] deleteMany_ok [OF assms]
    by (simp add: deletePrefix_eq)
qed

theorem memory_batches_refine_single_operations_witness:
  "fst (memory_deletePrefix ''s'' ''a'' (memory_setMany ''s'' [(''ab'', [1]), (''b'', [2]), (''ac'', [3])] []))
     = card {k. memory_get (memory_setMany ''s'' [(''ab'', [1]), (''b'', [2]), (''ac'', [3])] []) ''s'' k \<noteq> None \<and> starts_with k ''a''}"
proof -
  have "memory_ok (memory_setMany ''s'' [(''ab'', [1]), (''b'', [2]), (''ac'', [3])] [])"
    by (rule setMany_ok) (simp add: memory_ok_def)
  then show ?thesis using memory_batches_refine_single_operations by blast
qed

subsection \<open>The staged transaction\<close>

text \<open>
  The rows the transaction hands to a change: reads go to the staged values, then to the buckets;
  writes are staged and recorded in order. The keys are the texts \<open>rowKey\<close> prints.
\<close>

definition split_row_key :: "js_string \<Rightarrow> (js_string \<times> js_string) option" where
  "split_row_key raw = (case json_parse raw of Some (JArr [JStr n, JStr k]) \<Rightarrow> Some (n, k) | _ \<Rightarrow> None)"

record staged_rows =
  base :: memory
  staged :: "(js_string, bytes option) omap"
  writes :: "(js_string \<times> bytes option) list"

definition staged_read :: "js_string \<Rightarrow> staged_rows \<Rightarrow> bytes option" where
  "staged_read raw r =
     (case omap_get (staged r) raw of
        Some v \<Rightarrow> v
      | None \<Rightarrow> (case split_row_key raw of Some (n, k) \<Rightarrow> memory_get (base r) n k | None \<Rightarrow> None))"

definition stage :: "js_string \<Rightarrow> bytes option \<Rightarrow> staged_rows \<Rightarrow> staged_rows" where
  "stage raw v r = r\<lparr>staged := omap_set raw v (staged r), writes := writes r @ [(raw, v)]\<rparr>"

definition staged_view :: "staged_rows row_view" where
  "staged_view = \<lparr>view_get = staged_read, view_set = (\<lambda>raw v. stage raw (Some v)), view_delete = (\<lambda>raw. stage raw None)\<rparr>"

definition replay_write :: "js_string \<times> bytes option \<Rightarrow> memory \<Rightarrow> memory" where
  "replay_write w s =
     (case split_row_key (fst w) of
        None \<Rightarrow> s
      | Some (n, k) \<Rightarrow> (case snd w of Some v \<Rightarrow> memory_set n k v s | None \<Rightarrow> memory_delete n k s))"

definition memory_transaction :: "(staged_rows \<Rightarrow> store_error + staged_rows) \<Rightarrow> memory \<Rightarrow> store_error option \<times> memory" where
  "memory_transaction change s =
     (case change \<lparr>base = s, staged = [], writes = []\<rparr> of
        Inl e \<Rightarrow> (Some e, s)
      | Inr r \<Rightarrow> (None, fold replay_write (writes r) s))"

lemma split_rowKey: "split_row_key (rowKey n k) = Some (n, k)"
  by (simp add: split_row_key_def rowKey_def json_parse_stringify del: stringify.simps)

text \<open>The rows of a store as one map, keyed by row key.\<close>

definition memory_rows :: "memory \<Rightarrow> js_string \<Rightarrow> bytes option" where
  "memory_rows s raw = (case split_row_key raw of Some (n, k) \<Rightarrow> if raw = rowKey n k then memory_get s n k else None | None \<Rightarrow> None)"

lemma memory_rows_key: "memory_rows s (rowKey n k) = memory_get s n k"
  by (simp add: memory_rows_def split_rowKey)

definition staged_content :: "staged_rows \<Rightarrow> js_string \<Rightarrow> bytes option" where
  "staged_content r raw = (case omap_get (staged r) raw of Some v \<Rightarrow> v | None \<Rightarrow> memory_rows (base r) raw)"

text \<open>What has been staged is what replaying the writes so far would store.\<close>

definition staged_ok :: "memory \<Rightarrow> staged_rows \<Rightarrow> bool" where
  "staged_ok s r \<longleftrightarrow>
     base r = s \<and> memory_ok (fold replay_write (writes r) s) \<and>
     memory_rows (fold replay_write (writes r) s) = staged_content r"

lemma replay_key:
  assumes "memory_ok s"
  shows "memory_ok (replay_write (rowKey n k, v) s)"
    and "memory_rows (replay_write (rowKey n k, v) s) = (memory_rows s)(rowKey n k := v)"
proof -
  show "memory_ok (replay_write (rowKey n k, v) s)"
    by (cases v) (simp_all add: replay_write_def split_rowKey mem.put_ok mem.remove_ok assms)
  show "memory_rows (replay_write (rowKey n k, v) s) = (memory_rows s)(rowKey n k := v)"
    by (cases v) (auto simp: fun_eq_iff replay_write_def split_rowKey memory_rows_def mem.lookup_put [OF assms]
        mem.lookup_remove [OF assms] rowKey_eq split: option.splits)
qed

lemma stage_sel [simp]:
  "base (stage raw v r) = base r" "staged (stage raw v r) = omap_set raw v (staged r)"
  "writes (stage raw v r) = writes r @ [(raw, v)]"
  by (simp_all add: stage_def)

lemma stage_step:
  assumes "staged_ok s r"
  shows "staged_ok s (stage (rowKey n k) v r)"
    and "staged_content (stage (rowKey n k) v r) = (staged_content r)(rowKey n k := v)"
proof -
  show content: "staged_content (stage (rowKey n k) v r) = (staged_content r)(rowKey n k := v)"
    by (auto simp: staged_content_def fun_eq_iff omap_simps split: option.split)
  show "staged_ok s (stage (rowKey n k) v r)"
    using assms replay_key [of "fold replay_write (writes r) s" n k v] content
    by (simp add: staged_ok_def)
qed

lemma staged_contract: "row_contract staged_view staged_content (staged_ok s)"
proof
  fix r n k v
  assume r: "staged_ok s r"
  show "view_get staged_view (rowKey n k) r = staged_content r (rowKey n k)"
    by (simp add: staged_view_def staged_read_def staged_content_def split_rowKey memory_rows_key split: option.split)
  show "staged_ok s (view_set staged_view (rowKey n k) v r) \<and>
      staged_content (view_set staged_view (rowKey n k) v r) = (staged_content r)(rowKey n k := Some v)"
    using stage_step [OF r] by (simp add: staged_view_def)
  show "staged_ok s (view_delete staged_view (rowKey n k) r) \<and>
      staged_content (view_delete staged_view (rowKey n k) r) = (staged_content r)(rowKey n k := None)"
    using stage_step [OF r] by (simp add: staged_view_def)
qed

interpretation staging: row_contract staged_view staged_content "staged_ok s" for s
  by (rule staged_contract)

text \<open>
  C13: every atomic change of the in-memory store is all or nothing: when the change throws, the
  store is untouched and the same change throws on the plain rows; otherwise the rows afterwards are
  those of the change applied to a plain copy of all rows, and no bucket is left empty.
\<close>

theorem memory_transaction_atomic:
  assumes "memory_ok s"
  shows "case memory_transaction (atomicCallbacks c staged_view) s of
      (Some e, s') \<Rightarrow> s' = s \<and> atomicCallbacks c map_view (memory_rows s) = Inl e
    | (None, s') \<Rightarrow> memory_ok s' \<and> atomicCallbacks c map_view (memory_rows s) = Inr (memory_rows s')"
proof -
  let ?r0 = "\<lparr>base = s, staged = [], writes = []\<rparr>"
  have c0: "staged_content ?r0 = memory_rows s" by (simp add: staged_content_def fun_eq_iff)
  then have "staged_ok s ?r0" using assms by (simp add: staged_ok_def)
  from staging.atomic_sim [OF this, of c] show ?thesis
    unfolding c0 by (auto simp: memory_transaction_def simulated_def staged_ok_def split: sum.splits)
qed

theorem memory_transaction_atomic_witness:
  "case memory_transaction (atomicCallbacks (TouchTcToken ''a'' ''x'') staged_view) [] of
      (Some e, s') \<Rightarrow> s' = [] \<and> atomicCallbacks (TouchTcToken ''a'' ''x'') map_view (memory_rows []) = Inl e
    | (None, s') \<Rightarrow> memory_ok s' \<and> atomicCallbacks (TouchTcToken ''a'' ''x'') map_view (memory_rows []) = Inr (memory_rows s')"
  by (rule memory_transaction_atomic) (simp add: memory_ok_def)

end
