(* ===== verification/FileNames.thy ===== *)
theory FileNames
  imports AtomicStore
begin

text \<open>
  The names of the files of the bridge store (\<open>filePath\<close> and the parsing in \<open>doListKeys\<close> of
  \<open>src/src/Utils/use-bridge-store.ts\<close>) with the URI component coding of the standard library they
  use, for strings of code points below 256.
\<close>

definition uri_unreserved :: "char \<Rightarrow> bool" where
  "uri_unreserved c \<longleftrightarrow>
     (let n = (of_char c :: nat) in (48 \<le> n \<and> n \<le> 57) \<or> (65 \<le> n \<and> n \<le> 90) \<or> (97 \<le> n \<and> n \<le> 122) \<or>
       n \<in> {45, 95, 46, 33, 126, 42, 39, 40, 41})"

definition upper_hex :: "nat \<Rightarrow> char" where
  "upper_hex n = ''0123456789ABCDEF'' ! n"

definition percent :: "byte \<Rightarrow> js_string" where
  "percent b = [CHR ''%'', upper_hex (unat b div 16), upper_hex (unat b mod 16)]"

definition uri_char :: "char \<Rightarrow> js_string" where
  "uri_char c = (if uri_unreserved c then [c] else concat (map percent (utf8_char c)))"

definition encodeURIComponent :: "js_string \<Rightarrow> js_string" where
  "encodeURIComponent s = concat (map uri_char s)"

definition hex_byte :: "char \<Rightarrow> char \<Rightarrow> nat option" where
  "hex_byte h l = (case (hex_val h, hex_val l) of (Some a, Some b) \<Rightarrow> Some (16 * a + b) | _ \<Rightarrow> None)"

text \<open>\<open>None\<close> is the \<open>URIError\<close> (or a code point outside the model).\<close>

fun decodeURIComponent :: "js_string \<Rightarrow> js_string option" where
  "decodeURIComponent [] = Some []"
| "decodeURIComponent (c # r) =
     (if c \<noteq> CHR ''%'' then map_option (Cons c) (decodeURIComponent r)
      else (case r of
              h # l # r1 \<Rightarrow>
                (case hex_byte h l of
                   None \<Rightarrow> None
                 | Some n \<Rightarrow>
                     if n < 128 then map_option (Cons (char_of n)) (decodeURIComponent r1)
                     else (case r1 of
                             p # h2 # l2 # r2 \<Rightarrow>
                               (case hex_byte h2 l2 of
                                  None \<Rightarrow> None
                                | Some m \<Rightarrow>
                                    if p = CHR ''%'' \<and> (n = 194 \<or> n = 195) \<and> 128 \<le> m \<and> m < 192
                                    then map_option (Cons (char_of ((n - 192) * 64 + (m - 128)))) (decodeURIComponent r2)
                                    else None)
                           | _ \<Rightarrow> None))
            | _ \<Rightarrow> None))"

lemma hex_val_upper: "k < 16 \<Longrightarrow> hex_val (upper_hex k) = Some k"
  by (rule below_all [of "\<lambda>k. hex_val (upper_hex k) = Some k" 16]) (code_simp, simp)

lemma hex_byte_percent: "n < 256 \<Longrightarrow> hex_byte (upper_hex (n div 16)) (upper_hex (n mod 16)) = Some n"
proof -
  assume "n < 256"
  then have "n div 16 < 16" "n mod 16 < 16" by auto
  then show ?thesis by (simp add: hex_byte_def hex_val_upper)
qed

lemma decode_uri_char: "decodeURIComponent (uri_char c @ r) = map_option (Cons c) (decodeURIComponent r)"
proof (cases "uri_unreserved c")
  case True
  then have "c \<noteq> CHR ''%''" by (auto simp: uri_unreserved_def)
  with True show ?thesis by (simp add: uri_char_def)
next
  case False
  define n where "n = (of_char c :: nat)"
  have n: "n < 256" and c: "char_of n = c" by (simp_all add: n_def of_char_lt)
  have unat: "unat (of_nat m :: byte) = m" if "m < 256" for m
    using that by (simp add: unat_of_nat)
  show ?thesis
  proof (cases "n < 128")
    case True
    with False c hex_byte_percent [OF n] unat [OF n] show ?thesis
      by (simp add: uri_char_def utf8_char_def n_def [symmetric] percent_def)
  next
    case ge: False
    let ?a = "192 + n div 64" and ?b = "128 + n mod 64"
    have "n div 64 = 2 \<or> n div 64 = 3" using n ge by linarith
    moreover have "?a < 256" "?b < 256" using n by auto
    moreover have "n div 64 * 64 + n mod 64 = n" by simp
    ultimately show ?thesis
      using False ge c hex_byte_percent [of ?a] hex_byte_percent [of ?b] unat [of ?a] unat [of ?b]
      by (simp add: uri_char_def utf8_char_def n_def [symmetric] percent_def Let_def del: of_nat_add)
  qed
qed

lemma decode_encode_uri: "decodeURIComponent (encodeURIComponent k) = Some k"
  by (induction k) (simp_all add: encodeURIComponent_def decode_uri_char)

lemma encode_uri_inj: "encodeURIComponent k = encodeURIComponent k' \<longleftrightarrow> k = k'"
  by (metis decode_encode_uri option.inject)

subsection \<open>File names and cache keys\<close>

definition fileName :: "js_string \<Rightarrow> js_string \<Rightarrow> js_string" where
  "fileName store key = store @ CHR ''-'' # encodeURIComponent key @ ''.bin''"

definition cacheKey :: "js_string \<Rightarrow> js_string \<Rightarrow> js_string" where
  "cacheKey store key = store @ char_of (0 :: nat) # key"

text \<open>The names the bridge uses for its stores: no hyphen and no NUL.\<close>

definition store_name :: "js_string \<Rightarrow> bool" where
  "store_name s \<longleftrightarrow> CHR ''-'' \<notin> set s \<and> char_of (0 :: nat) \<notin> set s"

lemma append_sep_inj: "c \<notin> set a \<Longrightarrow> c \<notin> set b \<Longrightarrow> a @ c # x = b @ c # y \<longleftrightarrow> a = b \<and> x = y"
proof (induction a arbitrary: b)
  case Nil
  then show ?case by (cases b) auto
next
  case (Cons d a)
  then show ?case by (cases b) auto
qed

lemma fileName_inj: "store_name s \<Longrightarrow> store_name s' \<Longrightarrow> fileName s k = fileName s' k' \<longleftrightarrow> s = s' \<and> k = k'"
  by (auto simp: fileName_def store_name_def append_sep_inj encode_uri_inj)

lemma cacheKey_inj: "store_name s \<Longrightarrow> store_name s' \<Longrightarrow> cacheKey s k = cacheKey s' k' \<longleftrightarrow> s = s' \<and> k = k'"
  by (auto simp: cacheKey_def store_name_def append_sep_inj)

text \<open>What \<open>doListKeys\<close> reads from a file name: the key, when the name belongs to the store.\<close>

definition key_of_file :: "js_string \<Rightarrow> js_string \<Rightarrow> js_string option" where
  "key_of_file store file =
     (if \<not> starts_with file (store @ ''-'') \<or> \<not> ends_with file ''.bin'' then None
      else decodeURIComponent (js_slice file (length (store @ ''-'')) (length file - length ''.bin'')))"

definition key_of_cache_key :: "js_string \<Rightarrow> js_string \<Rightarrow> js_string option" where
  "key_of_cache_key store ck =
     (let sep = js_indexOf ck (char_of (0 :: nat)) 0 in
      if sep < 0 \<or> js_slice ck 0 (nat sep) \<noteq> store then None else Some (drop (nat sep + 1) ck))"

lemma key_of_fileName: "key_of_file s (fileName s k) = Some k"
  by (simp add: key_of_file_def fileName_def starts_with_def ends_with_def js_slice_def decode_encode_uri)

lemma key_of_other_file:
  "store_name s \<Longrightarrow> store_name s' \<Longrightarrow> key_of_file s (fileName s' k) = (if s = s' then Some k else None)"
proof (cases "s = s'")
  case False
  assume "store_name s" "store_name s'"
  then have "\<not> starts_with (fileName s' k) (s @ ''-'')"
    using False append_sep_inj [of "CHR ''-''" s' s] by (auto simp: starts_with_iff fileName_def store_name_def)
  with False show ?thesis by (simp add: key_of_file_def)
qed (simp add: key_of_fileName)

lemma key_of_cacheKey:
  "store_name s \<Longrightarrow> store_name s' \<Longrightarrow> key_of_cache_key s (cacheKey s' k) = (if s = s' then Some k else None)"
  using str_index_first [of "char_of (0 :: nat)" s' k]
  by (auto simp: key_of_cache_key_def cacheKey_def store_name_def js_indexOf_def js_slice_def)

end
