(* ===== verification/BridgeStore.thy ===== *)
theory BridgeStore
  imports MemoryStore FileNames
begin

text \<open>
  \<open>src/src/Utils/use-bridge-store.ts\<close>: the file-per-key store with its durability rules, over a
  folder with explicit input/output faults. Every key operation runs under the lock of its key
  (\<open>withKeyLock\<close>), so each is one transition here; what another key's operation can do meanwhile
  touches this key only by evicting its certified bytes, which any transition may do too. Faults
  are arguments: which system call fails, with which code, and whether a failing rename took
  effect. A byte array handed in or out is a copy. \<open>flushAll\<close> is modelled with its passes, the
  operations admitted before and during it, and its failure scope.
\<close>

datatype errno = ENOENT | EEXIST | ENOSYS | ENOTSUP | EINVAL | EPERM | EISDIR | OtherErrno nat

datatype bridge_error = Errno errno | NoTempName | NotQuiesced | FlushFailed "bridge_error list"

subsection \<open>The directory barrier (\<open>durable-directory.ts\<close>)\<close>

definition isUnsupportedDirSync :: "errno \<Rightarrow> bool \<Rightarrow> bool" where
  "isUnsupportedDirSync code win32 =
     (if code = ENOSYS \<or> code = ENOTSUP then True
      else if win32 \<and> (code = EINVAL \<or> code = EPERM \<or> code = EISDIR) then True
      else False)"

text \<open>The outcomes of opening and of syncing the directory handle; a failing close is ignored.\<close>

definition defaultSyncDir :: "bool \<Rightarrow> errno option \<Rightarrow> errno option \<Rightarrow> errno option" where
  "defaultSyncDir win32 open_result sync_result =
     (case open_result of
        Some e \<Rightarrow> if \<not> isUnsupportedDirSync e win32 then Some e else None
      | None \<Rightarrow>
          (case sync_result of
             Some e \<Rightarrow> if \<not> isUnsupportedDirSync e win32 then Some e else None
           | None \<Rightarrow> None))"

subsection \<open>State and faults\<close>

definition CRITICAL_STORES :: "js_string set" where
  "CRITICAL_STORES = {''session'', ''identity'', ''device'', ''prekey'', ''sync_key'', ''sender_key'',
     ''sync_version'', ''mutation_mac''}"

record pending_entry =
  entry_path :: js_string
  entry_bytes :: bytes
  entry_armed :: bool
  entry_no :: nat  \<comment> \<open>object identity\<close>

record bridge =
  files :: "(js_string, bytes) omap"  \<comment> \<open>the folder, by file name\<close>
  temps :: "(js_string, bytes) omap"  \<comment> \<open>temporary files in it\<close>
  durable :: "(js_string, bytes) omap"
  uncertain :: "js_string set"
  pendingWrites :: "(js_string, pending_entry) omap"
  next_entry :: nat

record attempt =
  tmp_name :: js_string
  open_fault :: "errno option"
  handle_fault :: "errno option"  \<comment> \<open>of the write, the sync or the close\<close>
  cleanup_fails :: bool

record io =
  attempts :: "nat \<Rightarrow> attempt"
  rename_fault :: "(errno \<times> bool) option"  \<comment> \<open>with whether it took effect all the same\<close>
  dir_fault :: "errno option"
  tmp_unlink_fails :: bool
  read_fault :: "nat option"  \<comment> \<open>a failure other than absence\<close>
  unlink_fault :: "nat option"

definition new_bridge :: bridge where
  "new_bridge = \<lparr>files = [], temps = [], durable = [], uncertain = {}, pendingWrites = [], next_entry = 0\<rparr>"

subsection \<open>Durable writes\<close>

definition defaultWriteTmp :: "attempt \<Rightarrow> bytes \<Rightarrow> bridge \<Rightarrow> errno option \<times> bridge" where
  "defaultWriteTmp a v s =
     (case open_fault a of
        Some e \<Rightarrow> (Some e, s)
      | None \<Rightarrow>
          if omap_get (temps s) (tmp_name a) \<noteq> None then (Some EEXIST, s)
          else (let s1 = s\<lparr>temps := omap_set (tmp_name a) v (temps s)\<rparr> in
                case handle_fault a of
                  None \<Rightarrow> (None, s1)
                | Some e \<Rightarrow>
                    (Some e, if cleanup_fails a then s1 else s1\<lparr>temps := omap_del (tmp_name a) (temps s1)\<rparr>)))"

datatype write_result = Written | BarrierUncertainty errno | WriteFailed errno | TempNamesExhausted

definition publish :: "io \<Rightarrow> js_string \<Rightarrow> js_string \<Rightarrow> bytes \<Rightarrow> bridge \<Rightarrow> write_result \<times> bridge" where
  "publish i tmp path v s =
     (let renamed = (case rename_fault i of None \<Rightarrow> True | Some (_, applied) \<Rightarrow> applied);
          s1 = (if renamed then s\<lparr>files := omap_set path v (files s), temps := omap_del tmp (temps s)\<rparr> else s);
          failure = (case rename_fault i of Some (e, _) \<Rightarrow> Some e | None \<Rightarrow> dir_fault i)
      in case failure of
           None \<Rightarrow> (Written, s1)
         | Some e \<Rightarrow>
             (BarrierUncertainty e, if tmp_unlink_fails i then s1 else s1\<lparr>temps := omap_del tmp (temps s1)\<rparr>))"

fun durable_attempts :: "nat \<Rightarrow> nat \<Rightarrow> io \<Rightarrow> js_string \<Rightarrow> bytes \<Rightarrow> bridge \<Rightarrow> write_result \<times> bridge" where
  "durable_attempts 0 n i path v s = (TempNamesExhausted, s)"
| "durable_attempts (Suc left) n i path v s =
     (case defaultWriteTmp (attempts i n) v s of
        (Some e, s1) \<Rightarrow>
          if e = EEXIST then durable_attempts left (Suc n) i path v s1 else (WriteFailed e, s1)
      | (None, s1) \<Rightarrow> publish i (tmp_name (attempts i n)) path v s1)"

definition MAX_TMP_ATTEMPTS :: nat where
  "MAX_TMP_ATTEMPTS = 5"

definition durableWrite :: "io \<Rightarrow> js_string \<Rightarrow> bytes \<Rightarrow> bridge \<Rightarrow> write_result \<times> bridge" where
  "durableWrite i path v s = durable_attempts MAX_TMP_ATTEMPTS 0 i path v s"

definition MAX_CACHE_ENTRIES :: nat where
  "MAX_CACHE_ENTRIES = 5000"

definition rememberDurable :: "js_string \<Rightarrow> bytes \<Rightarrow> bridge \<Rightarrow> bridge" where
  "rememberDurable ck v s =
     (let d = omap_set ck v (omap_del ck (durable s))
      in s\<lparr>durable := (if length d > MAX_CACHE_ENTRIES then omap_del (fst (hd d)) d else d)\<rparr>)"

definition certifyWrite :: "io \<Rightarrow> js_string \<Rightarrow> js_string \<Rightarrow> bytes \<Rightarrow> bridge \<Rightarrow> bridge_error option \<times> bridge" where
  "certifyWrite i ck path v s =
     (case durableWrite i path v s of
        (BarrierUncertainty e, s1) \<Rightarrow>
          (Some (Errno e), s1\<lparr>durable := omap_del ck (durable s1), uncertain := insert ck (uncertain s1)\<rparr>)
      | (WriteFailed e, s1) \<Rightarrow> (Some (Errno e), s1)
      | (TempNamesExhausted, s1) \<Rightarrow> (Some NoTempName, s1)
      | (Written, s1) \<Rightarrow> (None, rememberDurable ck v (s1\<lparr>uncertain := uncertain s1 - {ck}\<rparr>)))"

subsection \<open>The operations on one key\<close>

definition cancel_pending :: "js_string \<Rightarrow> bridge \<Rightarrow> bridge" where
  "cancel_pending ck s = s\<lparr>pendingWrites := omap_del ck (pendingWrites s)\<rparr>"

definition queue_write :: "js_string \<Rightarrow> js_string \<Rightarrow> bytes \<Rightarrow> bridge \<Rightarrow> bridge" where
  "queue_write ck path v s =
     s\<lparr>pendingWrites := omap_set ck \<lparr>entry_path = path, entry_bytes = v, entry_armed = True, entry_no = next_entry s\<rparr>
         (pendingWrites s),
       next_entry := Suc (next_entry s)\<rparr>"

definition set_is_known :: "js_string \<Rightarrow> bytes \<Rightarrow> bridge \<Rightarrow> bool" where
  "set_is_known ck v s =
     (case omap_get (pendingWrites s) ck of
        Some p \<Rightarrow> entry_bytes p = v \<and> entry_armed p
      | None \<Rightarrow> (case omap_get (durable s) ck of Some known \<Rightarrow> known = v | None \<Rightarrow> False))"

definition doSetLocked :: "io \<Rightarrow> js_string \<Rightarrow> js_string \<Rightarrow> bytes \<Rightarrow> bridge \<Rightarrow> bridge_error option \<times> bridge" where
  "doSetLocked i store key v s =
     (let ck = cacheKey store key in
      if set_is_known ck v s then (None, s)
      else if store \<in> CRITICAL_STORES then
        certifyWrite i ck (fileName store key) v
          (if omap_get (pendingWrites s) ck \<noteq> None then cancel_pending ck s else s)
      else (None, queue_write ck (fileName store key) v s))"

definition doGetLocked :: "io \<Rightarrow> js_string \<Rightarrow> js_string \<Rightarrow> bridge \<Rightarrow> (bridge_error + bytes option) \<times> bridge" where
  "doGetLocked i store key s =
     (let ck = cacheKey store key in
      case omap_get (pendingWrites s) ck of
        Some p \<Rightarrow> (Inr (Some (entry_bytes p)), s)
      | None \<Rightarrow>
          if ck \<notin> uncertain s \<and> omap_get (durable s) ck \<noteq> None then (Inr (omap_get (durable s) ck), s)
          else (case read_fault i of
                  Some e \<Rightarrow> (Inl (Errno (OtherErrno e)), s)
                | None \<Rightarrow>
                    (case omap_get (files s) (fileName store key) of
                       None \<Rightarrow> (Inr None, s)
                     | Some v \<Rightarrow> (Inr (Some v), if ck \<notin> uncertain s then rememberDurable ck v s else s))))"

definition restoreDeleteState :: "js_string \<Rightarrow> bytes option \<Rightarrow> pending_entry option \<Rightarrow> bridge \<Rightarrow> bridge" where
  "restoreDeleteState ck prevDurable prevPending s =
     (let s1 = (case prevDurable of Some v \<Rightarrow> rememberDurable ck v s | None \<Rightarrow> s)
      in case prevPending of
           Some p \<Rightarrow> s1\<lparr>pendingWrites := omap_set ck (p\<lparr>entry_armed := True\<rparr>) (pendingWrites s1)\<rparr>
         | None \<Rightarrow> s1)"

definition doDeleteOne :: "io \<Rightarrow> js_string \<Rightarrow> js_string \<Rightarrow> bridge \<Rightarrow> bridge_error option \<times> bridge" where
  "doDeleteOne i store key s =
     (let ck = cacheKey store key; path = fileName store key;
          prevPending = omap_get (pendingWrites s) ck;
          prevDurable = omap_get (durable s) ck;
          wasUncertain = (ck \<in> uncertain s);
          s1 = s\<lparr>pendingWrites := omap_del ck (pendingWrites s), durable := omap_del ck (durable s)\<rparr>
      in case unlink_fault i of
           Some e \<Rightarrow> (Some (Errno (OtherErrno e)), restoreDeleteState ck prevDurable prevPending s1)
         | None \<Rightarrow>
             if omap_get (files s) path = None then
               (if \<not> wasUncertain then (None, s1)
                else (case dir_fault i of
                        Some e \<Rightarrow> (Some (Errno e), restoreDeleteState ck prevDurable prevPending s1)
                      | None \<Rightarrow> (None, s1\<lparr>uncertain := uncertain s1 - {ck}\<rparr>)))
             else
               (let s2 = s1\<lparr>files := omap_del path (files s1)\<rparr>
                in case dir_fault i of
                     Some e \<Rightarrow> (Some (Errno e), s2\<lparr>uncertain := insert ck (uncertain s2)\<rparr>)
                   | None \<Rightarrow> (None, s2\<lparr>uncertain := uncertain s2 - {ck}\<rparr>)))"

text \<open>
  Flushing one pending key. The scope is the set of entries (by identity) that already failed in
  this drain; the timer of an entry is cleared before the write, so a failed one stays pending and
  unarmed. The debounce timer calls this with no scope and drops the error.
\<close>

definition flushOne :: "io \<Rightarrow> js_string \<Rightarrow> nat set \<Rightarrow> bridge \<Rightarrow> bridge_error option \<times> nat set \<times> bridge" where
  "flushOne i ck failed s =
     (case omap_get (pendingWrites s) ck of
        None \<Rightarrow> (None, failed, s)
      | Some p \<Rightarrow>
          if entry_no p \<in> failed then (None, failed, s)
          else
            (let s1 = s\<lparr>pendingWrites := omap_set ck (p\<lparr>entry_armed := False\<rparr>) (pendingWrites s)\<rparr>
             in case certifyWrite i ck (entry_path p) (entry_bytes p) s1 of
                  (Some e, s2) \<Rightarrow> (Some e, insert (entry_no p) failed, s2)
                | (None, s2) \<Rightarrow> (None, failed, s2\<lparr>pendingWrites := omap_del ck (pendingWrites s2)\<rparr>)))"

definition timer_fires :: "io \<Rightarrow> js_string \<Rightarrow> bridge \<Rightarrow> bridge" where
  "timer_fires i ck s = snd (snd (flushOne i ck {} s))"

text \<open>The certified bytes of a key may be dropped at any moment by the bound of the cache.\<close>

definition evict :: "js_string \<Rightarrow> bridge \<Rightarrow> bridge" where
  "evict ck s = s\<lparr>durable := omap_del ck (durable s)\<rparr>"

subsection \<open>What a durable write may change\<close>

definition same_memory :: "bridge \<Rightarrow> bridge \<Rightarrow> bool" where
  "same_memory s t \<longleftrightarrow>
     durable t = durable s \<and> uncertain t = uncertain s \<and> pendingWrites t = pendingWrites s \<and> next_entry t = next_entry s"

definition write_effect :: "js_string \<Rightarrow> bytes \<Rightarrow> bridge \<Rightarrow> write_result \<Rightarrow> bridge \<Rightarrow> bool" where
  "write_effect path v s r t \<longleftrightarrow>
     same_memory s t \<and> (\<forall>f. f \<noteq> path \<longrightarrow> omap_get (files t) f = omap_get (files s) f) \<and>
     (case r of
        Written \<Rightarrow> omap_get (files t) path = Some v
      | BarrierUncertainty e \<Rightarrow> omap_get (files t) path \<in> {omap_get (files s) path, Some v}
      | _ \<Rightarrow> files t = files s)"

lemma defaultWriteTmp_frame:
  "defaultWriteTmp a v s = (r, t) \<Longrightarrow> same_memory s t \<and> files t = files s"
  by (auto simp: defaultWriteTmp_def Let_def same_memory_def split: option.splits if_splits)

lemma publish_effect: "publish i tmp path v s = (r, t) \<Longrightarrow> write_effect path v s r t"
  by (auto simp: publish_def Let_def write_effect_def same_memory_def omap_simps split: option.splits if_splits prod.splits)

lemma durable_attempts_effect:
  "durable_attempts n k i path v s = (r, t) \<Longrightarrow> write_effect path v s r t"
proof (induction n k i path v s rule: durable_attempts.induct)
  case (2 left n i path v s)
  obtain e s1 where w: "defaultWriteTmp (attempts i n) v s = (e, s1)" by (cases "defaultWriteTmp (attempts i n) v s")
  have frame: "same_memory s s1" "files s1 = files s" using defaultWriteTmp_frame [OF w] by simp_all
  have trans: "write_effect path v s1 r t \<Longrightarrow> write_effect path v s r t"
    using frame by (auto simp: write_effect_def same_memory_def split: write_result.splits)
  show ?case
  proof (cases e)
    case None
    with 2(2) w trans publish_effect show ?thesis by auto
  next
    case (Some e')
    with 2 w trans frame show ?thesis
      by (cases "e' = EEXIST") (auto simp: write_effect_def)
  qed
qed (simp add: write_effect_def same_memory_def)

lemmas durableWrite_effect = durable_attempts_effect [where n = MAX_TMP_ATTEMPTS and k = 0, folded durableWrite_def]

text \<open>The part of the state that belongs to a key, and what an operation on it leaves alone.\<close>

definition only_key :: "js_string \<Rightarrow> js_string \<Rightarrow> bridge \<Rightarrow> bridge \<Rightarrow> bool" where
  "only_key ck path s t \<longleftrightarrow>
     (\<forall>f. f \<noteq> path \<longrightarrow> omap_get (files t) f = omap_get (files s) f) \<and>
     (\<forall>c. c \<noteq> ck \<longrightarrow> omap_get (pendingWrites t) c = omap_get (pendingWrites s) c) \<and>
     (\<forall>c. c \<noteq> ck \<longrightarrow> omap_get (durable t) c \<in> {None, omap_get (durable s) c}) \<and>
     uncertain t - {ck} = uncertain s - {ck}"

definition cache_bounded :: "bridge \<Rightarrow> bool" where
  "cache_bounded s \<longleftrightarrow> omap_ok (durable s) \<and> length (durable s) \<le> MAX_CACHE_ENTRIES"

lemma only_key_refl: "only_key ck path s s"
  by (simp add: only_key_def)

lemma only_key_trans:
  assumes "only_key ck path s t" and "only_key ck path t u"
  shows "only_key ck path s u"
proof -
  have "omap_get (durable u) c \<in> {None, omap_get (durable s) c}" if "c \<noteq> ck" for c
  proof -
    have "omap_get (durable t) c \<in> {None, omap_get (durable s) c}" "omap_get (durable u) c \<in> {None, omap_get (durable t) c}"
      using assms that unfolding only_key_def by blast+
    then show ?thesis by auto
  qed
  with assms show ?thesis unfolding only_key_def by simp
qed

lemma remember_frame [simp]:
  "files (rememberDurable ck v s) = files s" "uncertain (rememberDurable ck v s) = uncertain s"
  "pendingWrites (rememberDurable ck v s) = pendingWrites s" "temps (rememberDurable ck v s) = temps s"
  "next_entry (rememberDurable ck v s) = next_entry s"
  by (simp_all add: rememberDurable_def Let_def)

text \<open>The list update of \<open>rememberDurable\<close>: bounded, and the key itself is never the one evicted.\<close>

definition lru_push :: "'k \<Rightarrow> 'v \<Rightarrow> ('k, 'v) omap \<Rightarrow> ('k, 'v) omap" where
  "lru_push k v m =
     (let d = omap_set k v (omap_del k m) in if length d > MAX_CACHE_ENTRIES then omap_del (fst (hd d)) d else d)"

lemma lru_push_props:
  assumes "omap_ok m" and "length m \<le> MAX_CACHE_ENTRIES"
  shows "omap_get (lru_push k v m) k = Some v"
    and "c \<noteq> k \<Longrightarrow> omap_get (lru_push k v m) c \<in> {None, omap_get m c}"
    and "omap_ok (lru_push k v m)" and "length (lru_push k v m) \<le> MAX_CACHE_ENTRIES"
proof -
  have absent: "omap_get (omap_del k m) k = None" by (simp add: omap_simps)
  define d where "d = omap_set k v (omap_del k m)"
  have get: "omap_get d c = (if c = k then Some v else omap_get m c)" for c
    by (simp add: d_def omap_simps)
  have ok: "omap_ok d" using assms(1) by (simp add: d_def)
  have app: "d = omap_del k m @ [(k, v)]" unfolding d_def by (rule set_absent_append [OF absent])
  have len: "length d \<le> Suc MAX_CACHE_ENTRIES"
    using app assms(2) length_del_le [of k m] by simp
  have push: "lru_push k v m = (if length d > MAX_CACHE_ENTRIES then omap_del (fst (hd d)) d else d)"
    by (simp add: lru_push_def d_def Let_def)
  have first: "fst (hd d) \<noteq> k" if "length d > MAX_CACHE_ENTRIES"
  proof -
    have "length d = Suc (length (omap_del k m))" by (simp add: app)
    with that have "length (omap_del k m) \<noteq> 0" unfolding MAX_CACHE_ENTRIES_def by linarith
    then obtain p ps where p: "omap_del k m = p # ps" by (cases "omap_del k m") auto
    then have "fst p \<noteq> k" using absent by (cases p) (auto split: if_splits)
    with p app show ?thesis by simp
  qed
  show "omap_get (lru_push k v m) k = Some v"
    unfolding push omap_get_del get if_distrib using first by auto
  show "c \<noteq> k \<Longrightarrow> omap_get (lru_push k v m) c \<in> {None, omap_get m c}"
    unfolding push by (simp add: omap_get_del get)
  show "omap_ok (lru_push k v m)"
    unfolding push using ok by simp
  have "length (omap_del (fst (hd d)) d) < length d"
  proof -
    have "d \<noteq> []" by (simp add: app)
    then obtain x w rest where "d = (x, w) # rest" by (cases d) auto
    then show ?thesis using length_del_le [of x rest] by simp
  qed
  then show "length (lru_push k v m) \<le> MAX_CACHE_ENTRIES"
    unfolding push using len by auto
qed

lemma remember_get:
  assumes "cache_bounded s"
  shows "omap_get (durable (rememberDurable ck v s)) ck = Some v"
    and "c \<noteq> ck \<Longrightarrow> omap_get (durable (rememberDurable ck v s)) c \<in> {None, omap_get (durable s) c}"
    and "cache_bounded (rememberDurable ck v s)"
proof -
  have push: "durable (rememberDurable ck v s) = lru_push ck v (durable s)"
    by (simp add: rememberDurable_def lru_push_def Let_def)
  note m = assms [unfolded cache_bounded_def, THEN conjunct1] assms [unfolded cache_bounded_def, THEN conjunct2]
  show "omap_get (durable (rememberDurable ck v s)) ck = Some v"
    and "c \<noteq> ck \<Longrightarrow> omap_get (durable (rememberDurable ck v s)) c \<in> {None, omap_get (durable s) c}"
    and "cache_bounded (rememberDurable ck v s)"
    unfolding cache_bounded_def push using lru_push_props [OF m] by blast+
qed

lemma remember_only_key: "cache_bounded s \<Longrightarrow> only_key ck path s (rememberDurable ck v s)"
  using remember_get(2) by (auto simp: only_key_def)

text \<open>Changing one key's own entries only.\<close>

lemma own_only_key:
  "only_key ck path s (s\<lparr>pendingWrites := omap_del ck (pendingWrites s)\<rparr>)"
  "only_key ck path s (s\<lparr>pendingWrites := omap_set ck p (pendingWrites s)\<rparr>)"
  "only_key ck path s (s\<lparr>durable := omap_del ck (durable s)\<rparr>)"
  "only_key ck path s (s\<lparr>uncertain := insert ck (uncertain s)\<rparr>)"
  "only_key ck path s (s\<lparr>uncertain := uncertain s - {ck}\<rparr>)"
  "only_key ck path s (s\<lparr>files := omap_del path (files s)\<rparr>)"
  by (auto simp: only_key_def omap_simps)

subsection \<open>The invariant\<close>

text \<open>
  Per key: certified bytes are the bytes of the file and the key is not uncertain, and a queued
  write belongs to a store that is not critical. Globally: the cache is a bounded map, and every
  key in memory is one the bridge can have used.
\<close>

definition certified_ok :: "bridge \<Rightarrow> js_string \<Rightarrow> js_string \<Rightarrow> bool" where
  "certified_ok s ck path \<longleftrightarrow>
     (\<forall>v. omap_get (durable s) ck = Some v \<longrightarrow> omap_get (files s) path = Some v \<and> ck \<notin> uncertain s)"

definition key_ok :: "bridge \<Rightarrow> js_string \<Rightarrow> js_string \<Rightarrow> bool" where
  "key_ok s n k \<longleftrightarrow>
     certified_ok s (cacheKey n k) (fileName n k) \<and>
     (\<forall>p. omap_get (pendingWrites s) (cacheKey n k) = Some p \<longrightarrow> entry_path p = fileName n k \<and> n \<notin> CRITICAL_STORES)"

definition known_key :: "js_string \<Rightarrow> bool" where
  "known_key ck \<longleftrightarrow> (\<exists>n k. store_name n \<and> ck = cacheKey n k)"

text \<open>A file of the folder that reads as a key of a store is the file of that key.\<close>

definition canonical_file :: "js_string \<Rightarrow> bool" where
  "canonical_file f \<longleftrightarrow> (\<forall>n k. store_name n \<longrightarrow> key_of_file n f = Some k \<longrightarrow> f = fileName n k)"

definition bridge_ok :: "bridge \<Rightarrow> bool" where
  "bridge_ok s \<longleftrightarrow>
     cache_bounded s \<and> omap_ok (pendingWrites s) \<and>
     (\<forall>f. omap_get (files s) f \<noteq> None \<longrightarrow> canonical_file f) \<and>
     (\<forall>ck. omap_get (pendingWrites s) ck \<noteq> None \<longrightarrow> known_key ck) \<and>
     (\<forall>n k. store_name n \<longrightarrow> key_ok s n k)"

lemma bridge_ok_new: "bridge_ok new_bridge"
  by (simp add: bridge_ok_def new_bridge_def cache_bounded_def key_ok_def certified_ok_def)

definition key_step :: "js_string \<Rightarrow> js_string \<Rightarrow> bridge \<Rightarrow> bridge \<Rightarrow> bool" where
  "key_step n k s t \<longleftrightarrow>
     only_key (cacheKey n k) (fileName n k) s t \<and> (cache_bounded s \<longrightarrow> cache_bounded t) \<and>
     (omap_ok (pendingWrites s) \<longrightarrow> omap_ok (pendingWrites t))"

lemma key_step_refl [simp]: "key_step n k s s"
  by (simp add: key_step_def only_key_refl)

lemma key_step_trans: "key_step n k s t \<Longrightarrow> key_step n k t u \<Longrightarrow> key_step n k s u"
  unfolding key_step_def using only_key_trans by blast

lemma cache_bounded_del: "cache_bounded s \<Longrightarrow> cache_bounded (s\<lparr>durable := omap_del ck (durable s)\<rparr>)"
  using length_del_le [of ck "durable s"] by (simp add: cache_bounded_def)

lemma cache_bounded_frame [simp]:
  "cache_bounded (s\<lparr>pendingWrites := p\<rparr>) = cache_bounded s" "cache_bounded (s\<lparr>uncertain := u\<rparr>) = cache_bounded s"
  "cache_bounded (s\<lparr>files := f\<rparr>) = cache_bounded s" "cache_bounded (s\<lparr>next_entry := i\<rparr>) = cache_bounded s"
  by (simp_all add: cache_bounded_def)

lemma key_step_simple:
  "key_step n k s (s\<lparr>pendingWrites := omap_del (cacheKey n k) (pendingWrites s)\<rparr>)"
  "key_step n k s (s\<lparr>pendingWrites := omap_set (cacheKey n k) p (pendingWrites s)\<rparr>)"
  "key_step n k s (s\<lparr>durable := omap_del (cacheKey n k) (durable s)\<rparr>)"
  "key_step n k s (s\<lparr>uncertain := insert (cacheKey n k) (uncertain s)\<rparr>)"
  "key_step n k s (s\<lparr>uncertain := uncertain s - {cacheKey n k}\<rparr>)"
  "key_step n k s (s\<lparr>files := omap_del (fileName n k) (files s)\<rparr>)"
  by (simp_all add: key_step_def own_only_key cache_bounded_del)

lemma key_step_remember: "cache_bounded s \<Longrightarrow> key_step n k s (rememberDurable (cacheKey n k) v s)"
  by (simp add: key_step_def remember_only_key remember_get(3))

lemma only_key_other:
  assumes "only_key (cacheKey n k) (fileName n k) s t" and "store_name n" and "store_name n'"
    and "n' \<noteq> n \<or> k' \<noteq> k" and "key_ok s n' k'"
  shows "key_ok t n' k'"
proof -
  have "cacheKey n' k' \<noteq> cacheKey n k" "fileName n' k' \<noteq> fileName n k"
    using assms by (auto simp: cacheKey_inj fileName_inj)
  then have "omap_get (files t) (fileName n' k') = omap_get (files s) (fileName n' k')"
    "omap_get (pendingWrites t) (cacheKey n' k') = omap_get (pendingWrites s) (cacheKey n' k')"
    "omap_get (durable t) (cacheKey n' k') \<in> {None, omap_get (durable s) (cacheKey n' k')}"
    "cacheKey n' k' \<in> uncertain t \<longleftrightarrow> cacheKey n' k' \<in> uncertain s"
    using assms(1) unfolding only_key_def by blast+
  with assms(5) show ?thesis by (auto simp: key_ok_def certified_ok_def)
qed

lemma bridge_ok_step:
  assumes "bridge_ok s" and "store_name n" and "key_step n k s t" and "key_ok t n k"
  shows "bridge_ok t"
proof -
  have o: "only_key (cacheKey n k) (fileName n k) s t" using assms(3) by (simp add: key_step_def)
  have "key_ok t n' k'" if "store_name n'" for n' k'
    using only_key_other [OF o assms(2) that, of k'] assms(1,4) that by (cases "n' = n \<and> k' = k") (auto simp: bridge_ok_def)
  moreover have "known_key ck" if "omap_get (pendingWrites t) ck \<noteq> None" for ck
  proof (cases "ck = cacheKey n k")
    case True
    with assms(2) show ?thesis by (auto simp: known_key_def)
  next
    case False
    then have "omap_get (pendingWrites s) ck \<noteq> None" using o that by (simp add: only_key_def)
    then show ?thesis using assms(1) by (simp add: bridge_ok_def)
  qed
  moreover have "canonical_file f" if "omap_get (files t) f \<noteq> None" for f
  proof (cases "f = fileName n k")
    case True
    with assms(2) show ?thesis by (simp add: canonical_file_def key_of_other_file)
  next
    case False
    then have "omap_get (files s) f \<noteq> None" using o that by (simp add: only_key_def)
    then show ?thesis using assms(1) by (simp add: bridge_ok_def)
  qed
  ultimately show ?thesis
    using assms(1,3) by (simp add: bridge_ok_def key_step_def)
qed

lemma bridge_okD:
  assumes "bridge_ok s"
  shows "cache_bounded s" and "omap_ok (pendingWrites s)" and "store_name n \<Longrightarrow> key_ok s n k"
    and "store_name n \<Longrightarrow> certified_ok s (cacheKey n k) (fileName n k)"
  using assms by (auto simp: bridge_ok_def key_ok_def)

subsection \<open>The operations keep it\<close>

lemma certify_effect:
  assumes "certifyWrite i (cacheKey n k) (fileName n k) v s = (r, t)" and "cache_bounded s"
    and "certified_ok s (cacheKey n k) (fileName n k)"
  shows "key_step n k s t" and "pendingWrites t = pendingWrites s" and "next_entry t = next_entry s"
    and "certified_ok t (cacheKey n k) (fileName n k)"
    and "omap_get (files t) (fileName n k) \<in> {omap_get (files s) (fileName n k), Some v}"
    and "r = None \<Longrightarrow> omap_get (files t) (fileName n k) = Some v \<and> omap_get (durable t) (cacheKey n k) = Some v \<and>
          cacheKey n k \<notin> uncertain t"
proof -
  let ?ck = "cacheKey n k" and ?path = "fileName n k"
  obtain w s1 where w: "durableWrite i ?path v s = (w, s1)" by (cases "durableWrite i ?path v s")
  from durableWrite_effect [OF w] have mem: "durable s1 = durable s" "uncertain s1 = uncertain s"
    "pendingWrites s1 = pendingWrites s" "next_entry s1 = next_entry s"
    and other: "\<And>f. f \<noteq> ?path \<Longrightarrow> omap_get (files s1) f = omap_get (files s) f"
    and eff: "case w of Written \<Rightarrow> omap_get (files s1) ?path = Some v
      | BarrierUncertainty e \<Rightarrow> omap_get (files s1) ?path \<in> {omap_get (files s) ?path, Some v}
      | _ \<Rightarrow> files s1 = files s"
    unfolding write_effect_def same_memory_def by blast+
  have step1: "key_step n k s s1"
    using mem other by (auto simp: key_step_def only_key_def cache_bounded_def)
  have b1: "cache_bounded s1" using assms(2) mem by (simp add: cache_bounded_def)
  have "key_step n k s t \<and> pendingWrites t = pendingWrites s \<and> next_entry t = next_entry s \<and> certified_ok t ?ck ?path \<and>
    omap_get (files t) ?path \<in> {omap_get (files s) ?path, Some v} \<and>
    (r = None \<longrightarrow> omap_get (files t) ?path = Some v \<and> omap_get (durable t) ?ck = Some v \<and> ?ck \<notin> uncertain t)"
  proof (cases w)
    case Written
    let ?s2 = "s1\<lparr>uncertain := uncertain s1 - {?ck}\<rparr>"
    have t: "r = None" "t = rememberDurable ?ck v ?s2" using assms(1) w Written by (simp_all add: certifyWrite_def)
    have b2: "cache_bounded ?s2" using b1 by simp
    have "key_step n k s t"
      unfolding t(2) using key_step_trans [OF key_step_trans [OF step1 key_step_simple(5)] key_step_remember [OF b2]] .
    then show ?thesis
      using eff Written mem remember_get(1) [OF b2, of ?ck v] by (simp add: t certified_ok_def)
  next
    case (BarrierUncertainty e)
    let ?s2 = "s1\<lparr>durable := omap_del ?ck (durable s1)\<rparr>"
    have t: "r = Some (Errno e)" "t = ?s2\<lparr>uncertain := insert ?ck (uncertain ?s2)\<rparr>"
      using assms(1) w BarrierUncertainty by (simp_all add: certifyWrite_def)
    have "key_step n k s t"
      unfolding t(2) using key_step_trans [OF key_step_trans [OF step1 key_step_simple(3)] key_step_simple(4)] .
    then show ?thesis
      using eff BarrierUncertainty mem by (simp add: t certified_ok_def omap_simps)
  next
    case (WriteFailed e)
    then show ?thesis
      using assms(1,3) w eff mem step1 by (simp add: certifyWrite_def certified_ok_def) blast
  next
    case TempNamesExhausted
    then show ?thesis
      using assms(1,3) w eff mem step1 by (simp add: certifyWrite_def certified_ok_def) blast
  qed
  then show "key_step n k s t" "pendingWrites t = pendingWrites s" "next_entry t = next_entry s"
    "certified_ok t ?ck ?path" "omap_get (files t) ?path \<in> {omap_get (files s) ?path, Some v}"
    "r = None \<Longrightarrow> omap_get (files t) ?path = Some v \<and> omap_get (durable t) ?ck = Some v \<and> ?ck \<notin> uncertain t"
    by blast+
qed

text \<open>The value a key has for its readers: the queued write, else the file.\<close>

definition content :: "bridge \<Rightarrow> js_string \<Rightarrow> js_string \<Rightarrow> bytes option" where
  "content s n k =
     (case omap_get (pendingWrites s) (cacheKey n k) of
        Some p \<Rightarrow> Some (entry_bytes p) | None \<Rightarrow> omap_get (files s) (fileName n k))"

lemma content_other:
  assumes "key_step n k s t" and "store_name n" and "store_name n'" and "n' \<noteq> n \<or> k' \<noteq> k"
  shows "content t n' k' = content s n' k'"
proof -
  have "cacheKey n' k' \<noteq> cacheKey n k" "fileName n' k' \<noteq> fileName n k"
    using assms by (auto simp: cacheKey_inj fileName_inj)
  then show ?thesis using assms(1) by (simp add: content_def key_step_def only_key_def split: option.split)
qed

lemma critical_not_pending:
  "bridge_ok s \<Longrightarrow> store_name n \<Longrightarrow> n \<in> CRITICAL_STORES \<Longrightarrow> omap_get (pendingWrites s) (cacheKey n k) = None"
  using bridge_okD(3) [of s n k] by (cases "omap_get (pendingWrites s) (cacheKey n k)") (auto simp: key_ok_def)

lemma known_set_content:
  assumes "bridge_ok s" and "store_name n" and "set_is_known (cacheKey n k) v s"
  shows "content s n k = Some v"
  using assms(3) bridge_okD(4) [OF assms(1,2), of k]
  by (auto simp: set_is_known_def content_def certified_ok_def split: option.splits)

lemma queue_effect:
  assumes "bridge_ok s" and "store_name n" and "n \<notin> CRITICAL_STORES"
  shows "bridge_ok (queue_write (cacheKey n k) (fileName n k) v s)"
    and "key_step n k s (queue_write (cacheKey n k) (fileName n k) v s)"
    and "content (queue_write (cacheKey n k) (fileName n k) v s) n k = Some v"
proof -
  let ?t = "queue_write (cacheKey n k) (fileName n k) v s"
  show step: "key_step n k s ?t"
    by (auto simp: key_step_def only_key_def queue_write_def omap_simps cache_bounded_def)
  have "key_ok ?t n k"
    using bridge_okD(4) [OF assms(1,2), of k] assms(3) by (auto simp: key_ok_def queue_write_def certified_ok_def omap_simps)
  then show "bridge_ok ?t" by (rule bridge_ok_step [OF assms(1,2) step])
  show "content ?t n k = Some v" by (simp add: content_def queue_write_def omap_simps)
qed

lemma set_effect:
  assumes "doSetLocked i n k v s = (r, t)" and "bridge_ok s" and "store_name n"
  shows "bridge_ok t" and "key_step n k s t"
    and "r = None \<Longrightarrow> content t n k = Some v" and "content t n k \<in> {content s n k, Some v}"
    and "n \<in> CRITICAL_STORES \<Longrightarrow> r = None \<Longrightarrow> omap_get (files t) (fileName n k) = Some v"
    and "n \<notin> CRITICAL_STORES \<Longrightarrow> r = None"
proof -
  let ?ck = "cacheKey n k" and ?path = "fileName n k"
  have "bridge_ok t \<and> key_step n k s t \<and> (r = None \<longrightarrow> content t n k = Some v) \<and> content t n k \<in> {content s n k, Some v} \<and>
    (n \<in> CRITICAL_STORES \<longrightarrow> r = None \<longrightarrow> omap_get (files t) ?path = Some v) \<and> (n \<notin> CRITICAL_STORES \<longrightarrow> r = None)"
  proof (cases "set_is_known ?ck v s")
    case True
    then have rt: "r = None" "t = s" using assms(1) by (simp_all add: doSetLocked_def)
    have c: "content s n k = Some v" using known_set_content [OF assms(2,3) True] .
    moreover have "omap_get (files s) ?path = Some v" if "n \<in> CRITICAL_STORES"
      using c critical_not_pending [OF assms(2,3) that, of k] by (simp add: content_def)
    ultimately show ?thesis using assms(2) by (simp add: rt)
  next
    case unknown: False
    show ?thesis
    proof (cases "n \<in> CRITICAL_STORES")
      case True
      note none = critical_not_pending [OF assms(2,3) True, of k]
      have w: "certifyWrite i ?ck ?path v s = (r, t)"
        using assms(1) unknown True none by (simp add: doSetLocked_def Let_def)
      note eff = certify_effect [OF w bridge_okD(1) [OF assms(2)] bridge_okD(4) [OF assms(2,3)]]
      have "key_ok t n k" using eff(2,4) none by (simp add: key_ok_def)
      then have "bridge_ok t" by (rule bridge_ok_step [OF assms(2,3) eff(1)])
      then show ?thesis using eff none True by (auto simp: content_def)
    next
      case False
      then have "r = None" "t = queue_write ?ck ?path v s"
        using assms(1) unknown by (simp_all add: doSetLocked_def Let_def)
      then show ?thesis using queue_effect [OF assms(2,3) False] False by simp
    qed
  qed
  then show "bridge_ok t" "key_step n k s t" "r = None \<Longrightarrow> content t n k = Some v" "content t n k \<in> {content s n k, Some v}"
    "n \<in> CRITICAL_STORES \<Longrightarrow> r = None \<Longrightarrow> omap_get (files t) ?path = Some v" "n \<notin> CRITICAL_STORES \<Longrightarrow> r = None"
    by blast+
qed

lemma get_effect:
  assumes "doGetLocked i n k s = (r, t)" and "bridge_ok s" and "store_name n"
  shows "bridge_ok t" and "key_step n k s t" and "content t n k = content s n k"
    and "r \<noteq> Inr (content s n k) \<Longrightarrow> \<exists>e. r = Inl (Errno (OtherErrno e)) \<and> read_fault i = Some e"
    and "files t = files s" and "pendingWrites t = pendingWrites s"
proof -
  let ?ck = "cacheKey n k" and ?path = "fileName n k"
  note ok = bridge_okD(4) [OF assms(2,3), of k]
  have key: "key_ok s n k" using bridge_okD(3) [OF assms(2,3)] .
  consider "t = s" "r = Inr (content s n k) \<or> (\<exists>e. r = Inl (Errno (OtherErrno e)) \<and> read_fault i = Some e)"
    | v where "t = rememberDurable ?ck v s" "?ck \<notin> uncertain s" "omap_get (files s) ?path = Some v" "r = Inr (content s n k)"
    using assms(1) ok
    by (auto simp: doGetLocked_def Let_def content_def certified_ok_def split: option.splits if_splits)
  then have "bridge_ok t \<and> key_step n k s t \<and> content t n k = content s n k \<and>
    (r = Inr (content s n k) \<or> (\<exists>e. r = Inl (Errno (OtherErrno e)) \<and> read_fault i = Some e)) \<and>
    files t = files s \<and> pendingWrites t = pendingWrites s"
  proof cases
    case 1
    then show ?thesis using assms(2) by simp
  next
    case 2
    note b = bridge_okD(1) [OF assms(2)]
    have "key_step n k s t" unfolding 2(1) by (rule key_step_remember [OF b])
    moreover have "key_ok t n k"
      using key 2 remember_get(1) [OF b, of ?ck v] by (auto simp: key_ok_def certified_ok_def)
    ultimately show ?thesis using bridge_ok_step [OF assms(2,3)] 2 by (simp add: content_def split: option.split)
  qed
  then show "bridge_ok t" "key_step n k s t" "content t n k = content s n k"
    "r \<noteq> Inr (content s n k) \<Longrightarrow> \<exists>e. r = Inl (Errno (OtherErrno e)) \<and> read_fault i = Some e"
    "files t = files s" "pendingWrites t = pendingWrites s"
    by blast+
qed

text \<open>Restoring after a failed delete puts back what the key had.\<close>

lemma restore_effect:
  fixes s :: bridge and n k :: js_string
  assumes "bridge_ok s" and "store_name n"
  defines "s1 \<equiv> s\<lparr>pendingWrites := omap_del (cacheKey n k) (pendingWrites s), durable := omap_del (cacheKey n k) (durable s)\<rparr>"
  defines "t \<equiv> restoreDeleteState (cacheKey n k) (omap_get (durable s) (cacheKey n k)) (omap_get (pendingWrites s) (cacheKey n k)) s1"
  shows "bridge_ok t" and "key_step n k s t" and "content t n k = content s n k"
proof -
  let ?ck = "cacheKey n k" and ?path = "fileName n k"
  note b = bridge_okD(1,2) [OF assms(1)] and key = bridge_okD(3) [OF assms(1,2), of k]
  have step1: "key_step n k s s1"
    unfolding s1_def using key_step_trans [OF key_step_simple(1) key_step_simple(3), of n k s] by simp
  have b1: "cache_bounded s1" using step1 b by (simp add: key_step_def)
  define s2 where "s2 = (case omap_get (durable s) ?ck of Some v \<Rightarrow> rememberDurable ?ck v s1 | None \<Rightarrow> s1)"
  have step2: "key_step n k s1 s2" "files s2 = files s" "uncertain s2 = uncertain s" "pendingWrites s2 = pendingWrites s1"
    and dur: "omap_get (durable s2) ?ck = omap_get (durable s) ?ck"
    using key_step_remember [OF b1] remember_get(1) [OF b1]
    by (auto simp: s2_def s1_def omap_simps split: option.splits)
  have t: "t = (case omap_get (pendingWrites s) ?ck of
      Some p \<Rightarrow> s2\<lparr>pendingWrites := omap_set ?ck (p\<lparr>entry_armed := True\<rparr>) (pendingWrites s2)\<rparr> | None \<Rightarrow> s2)"
    unfolding t_def restoreDeleteState_def s2_def Let_def ..
  have "key_step n k s2 t" unfolding t using key_step_simple(2) by (auto split: option.split)
  then show step: "key_step n k s t" using key_step_trans step1 step2(1) by blast
  have mem: "files t = files s" "uncertain t = uncertain s" "omap_get (durable t) ?ck = omap_get (durable s) ?ck"
    "omap_get (pendingWrites t) ?ck = map_option (\<lambda>p. p\<lparr>entry_armed := True\<rparr>) (omap_get (pendingWrites s) ?ck)"
    unfolding t using step2 dur by (auto simp: s1_def omap_simps split: option.split)
  have "key_ok t n k" using key by (auto simp: key_ok_def certified_ok_def mem)
  then show "bridge_ok t" by (rule bridge_ok_step [OF assms(1,2) step])
  show "content t n k = content s n k" by (simp add: content_def mem split: option.split)
qed

lemma delete_effect:
  assumes "doDeleteOne i n k s = (r, t)" and "bridge_ok s" and "store_name n"
  shows "bridge_ok t" and "key_step n k s t"
    and "r = None \<Longrightarrow> content t n k = None \<and> omap_get (files t) (fileName n k) = None"
    and "content t n k \<in> {content s n k, None}"
    and "unlink_fault i \<noteq> None \<Longrightarrow> r \<noteq> None \<and> content t n k = content s n k"
    and "r \<noteq> None \<Longrightarrow> unlink_fault i \<noteq> None \<or> dir_fault i \<noteq> None"
proof -
  let ?ck = "cacheKey n k" and ?path = "fileName n k"
  define s1 where "s1 = s\<lparr>pendingWrites := omap_del ?ck (pendingWrites s), durable := omap_del ?ck (durable s)\<rparr>"
  define back_to where "back_to = restoreDeleteState ?ck (omap_get (durable s) ?ck) (omap_get (pendingWrites s) ?ck) s1"
  define s2 where "s2 = s1\<lparr>files := omap_del ?path (files s1)\<rparr>"
  note restored = restore_effect [OF assms(2,3), of k, folded s1_def back_to_def]
  have step1: "key_step n k s s1"
    unfolding s1_def using key_step_trans [OF key_step_simple(1) key_step_simple(3), of n k s] by simp
  have gone: "omap_get (pendingWrites s1) ?ck = None" "omap_get (durable s1) ?ck = None" "files s1 = files s" "uncertain s1 = uncertain s"
    by (simp_all add: s1_def omap_simps)
  have cleared: "bridge_ok u" "content u n k = omap_get (files u) ?path"
    if "key_step n k s1 u" "pendingWrites u = pendingWrites s1" "durable u = durable s1" for u
  proof -
    have "key_ok u n k" using that gone by (simp add: key_ok_def certified_ok_def)
    then show "bridge_ok u" using bridge_ok_step [OF assms(2,3)] key_step_trans [OF step1 that(1)] by blast
    show "content u n k = omap_get (files u) ?path" using that gone by (simp add: content_def)
  qed
  have op: "doDeleteOne i n k s =
      (case unlink_fault i of
         Some e \<Rightarrow> (Some (Errno (OtherErrno e)), back_to)
       | None \<Rightarrow>
           if omap_get (files s) ?path = None then
             (if ?ck \<notin> uncertain s then (None, s1)
              else (case dir_fault i of
                      Some e \<Rightarrow> (Some (Errno e), back_to)
                    | None \<Rightarrow> (None, s1\<lparr>uncertain := uncertain s1 - {?ck}\<rparr>)))
           else (case dir_fault i of
                   Some e \<Rightarrow> (Some (Errno e), s2\<lparr>uncertain := insert ?ck (uncertain s2)\<rparr>)
                 | None \<Rightarrow> (None, s2\<lparr>uncertain := uncertain s2 - {?ck}\<rparr>)))"
    unfolding doDeleteOne_def Let_def s1_def [symmetric] back_to_def [symmetric] s2_def [symmetric] ..
  have steps: "key_step n k s1 (s1\<lparr>uncertain := uncertain s1 - {?ck}\<rparr>)" "key_step n k s1 s2"
    "key_step n k s1 (s2\<lparr>uncertain := insert ?ck (uncertain s2)\<rparr>)" "key_step n k s1 (s2\<lparr>uncertain := uncertain s2 - {?ck}\<rparr>)"
    using key_step_simple [of n k s1] key_step_trans [OF _ key_step_simple(4), of n k s1 s2]
      key_step_trans [OF _ key_step_simple(5), of n k s1 s2] by (simp_all add: s2_def)
  consider (undone) e where "r = Some e" "t = back_to" "unlink_fault i \<noteq> None \<or> dir_fault i \<noteq> None"
    | (absent) "r = None" "t = s1 \<or> t = s1\<lparr>uncertain := uncertain s1 - {?ck}\<rparr>" "omap_get (files s) ?path = None" "unlink_fault i = None"
    | (gone_unsure) e where "r = Some e" "t = s2\<lparr>uncertain := insert ?ck (uncertain s2)\<rparr>" "unlink_fault i = None" "dir_fault i \<noteq> None"
    | (gone) "r = None" "t = s2\<lparr>uncertain := uncertain s2 - {?ck}\<rparr>" "unlink_fault i = None"
    using assms(1) unfolding op by (auto split: option.splits if_splits)
  then have "bridge_ok t \<and> key_step n k s t \<and> (r = None \<longrightarrow> content t n k = None \<and> omap_get (files t) ?path = None) \<and>
    content t n k \<in> {content s n k, None} \<and> (unlink_fault i \<noteq> None \<longrightarrow> r \<noteq> None \<and> content t n k = content s n k) \<and>
    (r \<noteq> None \<longrightarrow> unlink_fault i \<noteq> None \<or> dir_fault i \<noteq> None)"
  proof cases
    case undone
    then show ?thesis using restored by simp
  next
    case absent
    then have "key_step n k s1 t" "pendingWrites t = pendingWrites s1" "durable t = durable s1" "files t = files s1"
      using steps(1) by auto
    then show ?thesis using cleared [of t] absent gone key_step_trans [OF step1] by simp
  next
    case gone_unsure
    then have "key_step n k s1 t" "pendingWrites t = pendingWrites s1" "durable t = durable s1" "omap_get (files t) ?path = None"
      using steps(3) by (auto simp: s2_def omap_simps)
    then show ?thesis using cleared [of t] gone_unsure key_step_trans [OF step1] by simp
  next
    case gone
    then have "key_step n k s1 t" "pendingWrites t = pendingWrites s1" "durable t = durable s1" "omap_get (files t) ?path = None"
      using steps(4) by (auto simp: s2_def omap_simps)
    then show ?thesis using cleared [of t] gone key_step_trans [OF step1] by simp
  qed
  then show "bridge_ok t" "key_step n k s t"
    "r = None \<Longrightarrow> content t n k = None \<and> omap_get (files t) ?path = None"
    "content t n k \<in> {content s n k, None}"
    "unlink_fault i \<noteq> None \<Longrightarrow> r \<noteq> None \<and> content t n k = content s n k"
    "r \<noteq> None \<Longrightarrow> unlink_fault i \<noteq> None \<or> dir_fault i \<noteq> None"
    by blast+
qed

lemma flushOne_effect:
  assumes "flushOne i (cacheKey n k) failed s = (r, failed', t)" and "bridge_ok s" and "store_name n"
  shows "bridge_ok t" and "key_step n k s t" and "content t n k = content s n k"
    and "r = None \<Longrightarrow> failed' = failed \<and>
      (omap_get (pendingWrites t) (cacheKey n k) = None \<or>
       (\<exists>p. omap_get (pendingWrites t) (cacheKey n k) = Some p \<and> entry_no p \<in> failed))"
    and "r \<noteq> None \<Longrightarrow> \<exists>p. omap_get (pendingWrites s) (cacheKey n k) = Some p \<and>
      omap_get (pendingWrites t) (cacheKey n k) = Some (p\<lparr>entry_armed := False\<rparr>) \<and> failed' = insert (entry_no p) failed"
proof -
  let ?ck = "cacheKey n k" and ?path = "fileName n k"
  have "bridge_ok t \<and> key_step n k s t \<and> content t n k = content s n k \<and>
    (r = None \<longrightarrow> failed' = failed \<and> (omap_get (pendingWrites t) ?ck = None \<or>
       (\<exists>p. omap_get (pendingWrites t) ?ck = Some p \<and> entry_no p \<in> failed))) \<and>
    (r \<noteq> None \<longrightarrow> (\<exists>p. omap_get (pendingWrites s) ?ck = Some p \<and>
      omap_get (pendingWrites t) ?ck = Some (p\<lparr>entry_armed := False\<rparr>) \<and> failed' = insert (entry_no p) failed))"
  proof (cases "omap_get (pendingWrites s) ?ck")
    case None
    with assms(1,2) show ?thesis by (simp add: flushOne_def)
  next
    case (Some p)
    then have path: "entry_path p = ?path" and nc: "n \<notin> CRITICAL_STORES"
      using bridge_okD(3) [OF assms(2,3), of k] by (simp_all add: key_ok_def)
    show ?thesis
    proof (cases "entry_no p \<in> failed")
      case True
      with Some assms(1,2) show ?thesis by (simp add: flushOne_def)
    next
      case False
      define s1 where "s1 = s\<lparr>pendingWrites := omap_set ?ck (p\<lparr>entry_armed := False\<rparr>) (pendingWrites s)\<rparr>"
      have step1: "key_step n k s s1" unfolding s1_def by (rule key_step_simple(2))
      have b1: "cache_bounded s1" and c1: "certified_ok s1 ?ck ?path"
        using bridge_okD(1,4) [OF assms(2)] assms(3) by (auto simp: s1_def certified_ok_def)
      have p1: "omap_get (pendingWrites s1) ?ck = Some (p\<lparr>entry_armed := False\<rparr>)" by (simp add: s1_def omap_simps)
      obtain e s2 where w: "certifyWrite i ?ck ?path (entry_bytes p) s1 = (e, s2)"
        by (cases "certifyWrite i ?ck ?path (entry_bytes p) s1")
      note eff = certify_effect [OF w b1 c1]
      have step2: "key_step n k s s2" using key_step_trans [OF step1 eff(1)] .
      show ?thesis
      proof (cases e)
        case None
        let ?t = "s2\<lparr>pendingWrites := omap_del ?ck (pendingWrites s2)\<rparr>"
        have rt: "r = None" "failed' = failed" "t = ?t"
          using assms(1) Some False w None path by (simp_all add: flushOne_def s1_def [symmetric])
        have step: "key_step n k s ?t" using key_step_trans [OF step2 key_step_simple(1)] .
        have "key_ok ?t n k" using eff(4) by (simp add: key_ok_def certified_ok_def omap_simps)
        then have "bridge_ok ?t" by (rule bridge_ok_step [OF assms(2,3) step])
        then show ?thesis using step eff(6) [OF None] Some by (simp add: rt content_def omap_simps)
      next
        case (Some err)
        then have rt: "r = Some err" "failed' = insert (entry_no p) failed" "t = s2"
          using assms(1) \<open>omap_get (pendingWrites s) ?ck = Some p\<close> False w path by (simp_all add: flushOne_def s1_def [symmetric])
        have p2: "omap_get (pendingWrites s2) ?ck = Some (p\<lparr>entry_armed := False\<rparr>)" using eff(2) p1 by simp
        have "key_ok s2 n k" using eff(4) p2 path nc by (simp add: key_ok_def)
        then have "bridge_ok s2" by (rule bridge_ok_step [OF assms(2,3) step2])
        then show ?thesis using step2 p2 \<open>omap_get (pendingWrites s) ?ck = Some p\<close> by (simp add: rt content_def)
      qed
    qed
  qed
  then show "bridge_ok t" "key_step n k s t" "content t n k = content s n k"
    "r = None \<Longrightarrow> failed' = failed \<and> (omap_get (pendingWrites t) ?ck = None \<or>
       (\<exists>p. omap_get (pendingWrites t) ?ck = Some p \<and> entry_no p \<in> failed))"
    "r \<noteq> None \<Longrightarrow> \<exists>p. omap_get (pendingWrites s) ?ck = Some p \<and>
      omap_get (pendingWrites t) ?ck = Some (p\<lparr>entry_armed := False\<rparr>) \<and> failed' = insert (entry_no p) failed"
    by blast+
qed

subsection \<open>Calls, batches and enumeration\<close>

datatype key_op = OpGet js_string js_string | OpSet js_string js_string bytes | OpDelete js_string js_string

primrec op_store :: "key_op \<Rightarrow> js_string" where
  "op_store (OpGet n k) = n"
| "op_store (OpSet n k v) = n"
| "op_store (OpDelete n k) = n"

primrec run_op :: "io \<Rightarrow> key_op \<Rightarrow> bridge \<Rightarrow> bridge_error option \<times> bridge" where
  "run_op i (OpGet n k) s = (case doGetLocked i n k s of (Inl e, t) \<Rightarrow> (Some e, t) | (Inr _, t) \<Rightarrow> (None, t))"
| "run_op i (OpSet n k v) s = doSetLocked i n k v s"
| "run_op i (OpDelete n k) s = doDeleteOne i n k s"

text \<open>Operations one after the other; every one is attempted, the errors are collected in order.\<close>

fun run_ops :: "(io \<times> key_op) list \<Rightarrow> bridge \<Rightarrow> bridge_error list \<times> bridge" where
  "run_ops [] s = ([], s)"
| "run_ops ((i, a) # ops) s =
     (let (e, s1) = run_op i a s; (es, s2) = run_ops ops s1
      in (case e of None \<Rightarrow> es | Some x \<Rightarrow> x # es, s2))"

definition first_error :: "bridge_error list \<Rightarrow> bridge_error option" where
  "first_error es = (case es of [] \<Rightarrow> None | e # _ \<Rightarrow> Some e)"

definition bridge_setMany :: "js_string \<Rightarrow> (io \<times> js_string \<times> bytes) list \<Rightarrow> bridge \<Rightarrow> bridge_error option \<times> bridge" where
  "bridge_setMany n entries s =
     (let (es, t) = run_ops (map (\<lambda>(i, k, v). (i, OpSet n k v)) entries) s in (first_error es, t))"

definition bridge_deleteMany :: "js_string \<Rightarrow> (io \<times> js_string) list \<Rightarrow> bridge \<Rightarrow> bridge_error option \<times> bridge" where
  "bridge_deleteMany n keys s =
     (let (es, t) = run_ops (map (\<lambda>(i, k). (i, OpDelete n k)) keys) s in (first_error es, t))"

fun bridge_getMany :: "js_string \<Rightarrow> (io \<times> js_string) list \<Rightarrow> bridge \<Rightarrow> (bridge_error + (js_string \<times> bytes) list) \<times> bridge" where
  "bridge_getMany n [] s = (Inr [], s)"
| "bridge_getMany n ((i, k) # keys) s =
     (let (r, s1) = doGetLocked i n k s; (rs, s2) = bridge_getMany n keys s1
      in (case r of
            Inl e \<Rightarrow> Inl e
          | Inr None \<Rightarrow> rs
          | Inr (Some v) \<Rightarrow> (case rs of Inl e \<Rightarrow> Inl e | Inr out \<Rightarrow> Inr ((k, v) # out)), s2))"

lemma run_op_effect:
  assumes "run_op i a s = (r, t)" and "bridge_ok s" and "store_name (op_store a)"
  shows "bridge_ok t" and "\<exists>k. key_step (op_store a) k s t"
proof -
  have "bridge_ok t \<and> (\<exists>k. key_step (op_store a) k s t)"
  proof (cases a)
    case (OpGet n k)
    obtain g u where "doGetLocked i n k s = (g, u)" by (cases "doGetLocked i n k s")
    with OpGet assms get_effect [of i n k s g u] show ?thesis by (auto split: sum.splits)
  next
    case (OpSet n k v)
    with assms set_effect [of i n k v s r t] show ?thesis by auto
  next
    case (OpDelete n k)
    with assms delete_effect [of i n k s r t] show ?thesis by auto
  qed
  then show "bridge_ok t" "\<exists>k. key_step (op_store a) k s t" by simp_all
qed

lemma run_ops_ok:
  "run_ops ops s = (es, t) \<Longrightarrow> bridge_ok s \<Longrightarrow> \<forall>(i, a) \<in> set ops. store_name (op_store a) \<Longrightarrow> bridge_ok t"
proof (induction ops arbitrary: s es)
  case (Cons ia ops)
  obtain i a where ia: "ia = (i, a)" by (cases ia)
  obtain e s1 where r1: "run_op i a s = (e, s1)" by (cases "run_op i a s")
  obtain es2 where "run_ops ops s1 = (es2, t)" using Cons.prems(1) ia r1 by (auto simp: Let_def split: prod.splits)
  then show ?case using Cons.IH run_op_effect(1) [OF r1 Cons.prems(2)] Cons.prems(3) ia by auto
qed simp

subsection \<open>Flushing\<close>

text \<open>
  What happens around one pass: operations admitted while the pass waits for the outstanding ones,
  and while it drains, and how many of the operations in flight have completed by its end; and the
  faults of the flush of each key.
\<close>

record pass_env =
  barrier_new :: "(io \<times> key_op) list"
  barrier_done :: nat
  drain_new :: "(io \<times> key_op) list"
  drain_done :: nat
  flush_io :: "js_string \<Rightarrow> io"

record flush_state =
  fl_errors :: "bridge_error list"
  fl_failed :: "nat set"
  fl_admitted :: "(io \<times> key_op) list"
  fl_bridge :: bridge

definition eligibleKeys :: "nat set \<Rightarrow> bridge \<Rightarrow> js_string list" where
  "eligibleKeys failed s = map fst (filter (\<lambda>(_, p). entry_no p \<notin> failed) (pendingWrites s))"

fun flush_keys :: "(js_string \<Rightarrow> io) \<Rightarrow> js_string list \<Rightarrow> nat set \<Rightarrow> bridge \<Rightarrow> bridge_error list \<times> nat set \<times> bridge" where
  "flush_keys ios [] failed s = ([], failed, s)"
| "flush_keys ios (ck # cks) failed s =
     (let (e, failed1, s1) = flushOne (ios ck) ck failed s; (es, failed2, s2) = flush_keys ios cks failed1 s1
      in (case e of None \<Rightarrow> es | Some x \<Rightarrow> x # es, failed2, s2))"

datatype pass_status = NextPass | Quiet | Stopped

text \<open>One pass; \<open>continue\<close> and the end of a clean pass are \<open>NextPass\<close>.\<close>

definition flush_pass :: "pass_env \<Rightarrow> flush_state \<Rightarrow> pass_status \<times> flush_state" where
  "flush_pass env f =
     (let (es, s1) = run_ops (fl_admitted f) (fl_bridge f);
          (_, s2) = run_ops (take (barrier_done env) (barrier_new env)) s1;
          left = drop (barrier_done env) (barrier_new env);
          keys = eligibleKeys (fl_failed f) s2
      in if keys = [] then
           (if left = [] then Quiet else NextPass,
            f\<lparr>fl_errors := fl_errors f @ es, fl_admitted := left, fl_bridge := s2\<rparr>)
         else
           (let (es2, failed, s3) = flush_keys (flush_io env) keys (fl_failed f) s2;
                queue = left @ drain_new env;
                (_, s4) = run_ops (take (drain_done env) queue) s3
            in (if es2 \<noteq> [] then Stopped else NextPass,
                \<lparr>fl_errors = fl_errors f @ es @ es2, fl_failed = failed,
                 fl_admitted = drop (drain_done env) queue, fl_bridge = s4\<rparr>)))"

fun flush_loop :: "nat \<Rightarrow> nat \<Rightarrow> (nat \<Rightarrow> pass_env) \<Rightarrow> flush_state \<Rightarrow> flush_state" where
  "flush_loop 0 n env f = f"
| "flush_loop (Suc left) n env f =
     (case flush_pass (env n) f of
        (NextPass, f1) \<Rightarrow> flush_loop left (Suc n) env f1
      | (_, f1) \<Rightarrow> f1)"

definition FLUSH_MAX_PASSES :: nat where
  "FLUSH_MAX_PASSES = 32"

definition settledFlushError :: "bridge_error list \<Rightarrow> bridge_error" where
  "settledFlushError errors = (case errors of [e] \<Rightarrow> e | _ \<Rightarrow> FlushFailed errors)"

record drain_scope =
  failedEntries :: "nat set"
  exhausted :: bool

definition newDrainScope :: drain_scope where
  "newDrainScope = \<lparr>failedEntries = {}, exhausted = False\<rparr>"

definition flushAll ::
    "drain_scope \<Rightarrow> (nat \<Rightarrow> pass_env) \<Rightarrow> (io \<times> key_op) list \<Rightarrow> bridge \<Rightarrow> bridge_error option \<times> drain_scope \<times> flush_state" where
  "flushAll scope env admitted s =
     (let f0 = \<lparr>fl_errors = [], fl_failed = failedEntries scope, fl_admitted = admitted, fl_bridge = s\<rparr> in
      if exhausted scope then (Some NotQuiesced, scope, f0)
      else
        (let f = flush_loop FLUSH_MAX_PASSES 0 env f0;
             scope1 = scope\<lparr>failedEntries := fl_failed f\<rparr>
         in if fl_errors f \<noteq> [] then (Some (settledFlushError (fl_errors f)), scope1, f)
            else if eligibleKeys (fl_failed f) (fl_bridge f) \<noteq> [] \<or> fl_admitted f \<noteq> [] then
              (Some NotQuiesced, scope1\<lparr>exhausted := True\<rparr>, f)
            else (None, scope1, f)))"

text \<open>
  Enumeration: a flush first, whose failure propagates; then the names in the folder that belong to
  the store (a missing folder counts as empty), then what is still pending.
\<close>

definition prefix_ok :: "js_string option \<Rightarrow> js_string \<Rightarrow> bool" where
  "prefix_ok prefix k = (case prefix of None \<Rightarrow> True | Some p \<Rightarrow> p = [] \<or> starts_with k p)"

definition listed_keys :: "js_string \<Rightarrow> js_string option \<Rightarrow> js_string list \<Rightarrow> js_string list \<Rightarrow> js_string list" where
  "listed_keys store prefix entries pending_keys =
     (let names = List.map_filter (key_of_file store) entries;
          waiting = List.map_filter (key_of_cache_key store) pending_keys
      in fold set_add (filter (prefix_ok prefix) waiting) (fold set_add (filter (prefix_ok prefix) names) []))"

definition doListKeys ::
    "(nat \<Rightarrow> pass_env) \<Rightarrow> (io \<times> key_op) list \<Rightarrow> errno option \<Rightarrow> js_string \<Rightarrow> js_string option \<Rightarrow> bridge
      \<Rightarrow> (bridge_error + js_string list) \<times> flush_state" where
  "doListKeys env admitted readdir_fault store prefix s =
     (case flushAll newDrainScope env admitted s of
        (Some e, _, f) \<Rightarrow> (Inl e, f)
      | (None, _, f) \<Rightarrow>
          (case readdir_fault of
             Some e \<Rightarrow>
               if e = ENOENT then (Inr (listed_keys store prefix [] (map fst (pendingWrites (fl_bridge f)))), f)
               else (Inl (Errno e), f)
           | None \<Rightarrow>
               (Inr (listed_keys store prefix (map fst (files (fl_bridge f))) (map fst (pendingWrites (fl_bridge f)))), f)))"

definition bridge_deletePrefix ::
    "(nat \<Rightarrow> pass_env) \<Rightarrow> (io \<times> key_op) list \<Rightarrow> errno option \<Rightarrow> (js_string \<Rightarrow> io) \<Rightarrow> js_string \<Rightarrow> js_string \<Rightarrow> bridge
      \<Rightarrow> (bridge_error + nat) \<times> flush_state" where
  "bridge_deletePrefix env admitted readdir_fault ios store prefix s =
     (case doListKeys env admitted readdir_fault store (Some prefix) s of
        (Inl e, f) \<Rightarrow> (Inl e, f)
      | (Inr keys, f) \<Rightarrow>
          (case bridge_deleteMany store (map (\<lambda>k. (ios k, k)) keys) (fl_bridge f) of
             (Some e, t) \<Rightarrow> (Inl e, f\<lparr>fl_bridge := t\<rparr>)
           | (None, t) \<Rightarrow> (Inr (length keys), f\<lparr>fl_bridge := t\<rparr>)))"

subsection \<open>What a flush guarantees\<close>

definition ops_ok :: "(io \<times> key_op) list \<Rightarrow> bool" where
  "ops_ok ops \<longleftrightarrow> (\<forall>(i, a) \<in> set ops. store_name (op_store a))"

definition env_ok :: "pass_env \<Rightarrow> bool" where
  "env_ok env \<longleftrightarrow> ops_ok (barrier_new env) \<and> ops_ok (drain_new env)"

lemma ops_ok_parts: "ops_ok ops \<Longrightarrow> ops_ok (take i ops) \<and> ops_ok (drop i ops)"
  by (auto simp: ops_ok_def dest: in_set_takeD in_set_dropD)

lemma ops_ok_append: "ops_ok (a @ b) \<longleftrightarrow> ops_ok a \<and> ops_ok b"
  by (auto simp: ops_ok_def)

lemma run_ops_keeps: "bridge_ok s \<Longrightarrow> ops_ok ops \<Longrightarrow> bridge_ok (snd (run_ops ops s))"
  using run_ops_ok [of ops s] by (cases "run_ops ops s") (simp add: ops_ok_def)

lemma flush_keys_effect:
  assumes "flush_keys ios cks failed s = (es, failed', t)" and "bridge_ok s" and "\<forall>ck \<in> set cks. known_key ck"
  shows "bridge_ok t" and "store_name n \<Longrightarrow> content t n k = content s n k" and "es = [] \<Longrightarrow> failed' = failed"
proof -
  have "bridge_ok t \<and> (\<forall>n k. store_name n \<longrightarrow> content t n k = content s n k) \<and> (es = [] \<longrightarrow> failed' = failed)"
    using assms
  proof (induction cks arbitrary: failed s es)
    case (Cons ck cks)
    obtain n k where ck: "ck = cacheKey n k" "store_name n" using Cons.prems(3) by (auto simp: known_key_def)
    obtain e failed1 s1 where f: "flushOne (ios ck) (cacheKey n k) failed s = (e, failed1, s1)"
      by (cases "flushOne (ios ck) (cacheKey n k) failed s")
    note eff = flushOne_effect [OF f Cons.prems(2) ck(2)]
    obtain es2 where rest: "flush_keys ios cks failed1 s1 = (es2, failed', t)" and es: "es = (case e of None \<Rightarrow> es2 | Some x \<Rightarrow> x # es2)"
      using Cons.prems(1) f ck by (auto simp: Let_def split: prod.splits)
    have same: "content s1 n' k' = content s n' k'" if "store_name n'" for n' k'
      using content_other [OF eff(2) ck(2) that, of k'] eff(3) by (cases "n' = n \<and> k' = k") auto
    from Cons.IH [OF rest eff(1)] Cons.prems(3) same eff(4) es show ?case by (auto split: option.splits)
  qed simp
  then show "bridge_ok t" "store_name n \<Longrightarrow> content t n k = content s n k" "es = [] \<Longrightarrow> failed' = failed" by auto
qed

lemma eligible_known: "bridge_ok s \<Longrightarrow> \<forall>ck \<in> set (eligibleKeys failed s). known_key ck"
proof
  fix ck assume "bridge_ok s" and "ck \<in> set (eligibleKeys failed s)"
  then have "ck \<in> fst ` set (pendingWrites s)" by (force simp: eligibleKeys_def)
  then have "omap_get (pendingWrites s) ck \<noteq> None" by (simp add: map_of_eq_None_iff)
  then show "known_key ck" using \<open>bridge_ok s\<close> by (simp add: bridge_ok_def)
qed

text \<open>The invariant of the drain loop.\<close>

definition drain_ok :: "nat set \<Rightarrow> flush_state \<Rightarrow> bool" where
  "drain_ok failed0 f \<longleftrightarrow>
     bridge_ok (fl_bridge f) \<and> ops_ok (fl_admitted f) \<and> (fl_errors f = [] \<longrightarrow> fl_failed f = failed0)"

lemma flush_pass_ok:
  assumes "flush_pass env f = (st, f')" and "drain_ok failed0 f" and "env_ok env"
  shows "drain_ok failed0 f'"
proof -
  obtain es s1 where r1: "run_ops (fl_admitted f) (fl_bridge f) = (es, s1)" by fastforce
  obtain x s2 where r2: "run_ops (take (barrier_done env) (barrier_new env)) s1 = (x, s2)" by fastforce
  have b1: "bridge_ok s1" using run_ops_keeps [of "fl_bridge f" "fl_admitted f"] assms(2) r1 by (simp add: drain_ok_def)
  have b2: "bridge_ok s2"
    using run_ops_keeps [OF b1, of "take (barrier_done env) (barrier_new env)"] assms(3) r2 ops_ok_parts by (auto simp: env_ok_def)
  define left where "left = drop (barrier_done env) (barrier_new env)"
  define queue where "queue = left @ drain_new env"
  have left: "ops_ok left" and queue: "ops_ok queue"
    using assms(3) ops_ok_parts by (auto simp: env_ok_def ops_ok_append left_def queue_def)
  obtain es2 failed s3 where r3: "flush_keys (flush_io env) (eligibleKeys (fl_failed f) s2) (fl_failed f) s2 = (es2, failed, s3)"
    by (cases "flush_keys (flush_io env) (eligibleKeys (fl_failed f) s2) (fl_failed f) s2")
  note eff = flush_keys_effect [OF r3 b2 eligible_known [OF b2]]
  obtain y s4 where r4: "run_ops (take (drain_done env) queue) s3 = (y, s4)" by fastforce
  have parts: "ops_ok (take (drain_done env) queue)" "ops_ok (drop (drain_done env) queue)"
    using ops_ok_parts [OF queue] by simp_all
  have b4: "bridge_ok s4"
    using run_ops_keeps [OF eff(1) parts(1)] r4 by simp
  show ?thesis
    using assms(1,2) b2 b4 left parts eff(3)
    unfolding flush_pass_def Let_def r1 r2 left_def [symmetric] queue_def [symmetric] r3 r4 prod.case
    by (auto simp: r3 r4 drain_ok_def split: if_splits)
qed

lemma eligible_none: "eligibleKeys {} s = [] \<longleftrightarrow> pendingWrites s = []"
  by (cases "pendingWrites s") (auto simp: eligibleKeys_def)

lemma flush_loop_ok: "\<forall>n. env_ok (env n) \<Longrightarrow> drain_ok failed0 f \<Longrightarrow> drain_ok failed0 (flush_loop left n env f)"
proof (induction left n env f rule: flush_loop.induct)
  case (2 left n env f)
  obtain st f1 where p: "flush_pass (env n) f = (st, f1)" by fastforce
  then have "drain_ok failed0 f1" using flush_pass_ok [OF p 2(3)] 2(2) by simp
  then show ?case using 2(1) [OF p [symmetric]] 2(2) p by (cases st) auto
qed simp

lemma flushAll_ok:
  assumes "flushAll newDrainScope env admitted s = (r, scope, f)" and "bridge_ok s" and "ops_ok admitted" and "\<forall>n. env_ok (env n)"
  shows "bridge_ok (fl_bridge f)"
    and "r = None \<Longrightarrow> fl_admitted f = [] \<and> pendingWrites (fl_bridge f) = []"
proof -
  let ?start = "\<lparr>fl_errors = [], fl_failed = {}, fl_admitted = admitted, fl_bridge = s\<rparr>"
  let ?f = "flush_loop FLUSH_MAX_PASSES 0 env ?start"
  have start: "drain_ok {} ?start" using assms(2,3) by (simp add: drain_ok_def)
  have ok: "drain_ok {} ?f" by (rule flush_loop_ok [OF assms(4) start])
  have f: "f = ?f" and r: "r = None \<Longrightarrow> fl_errors ?f = [] \<and> eligibleKeys (fl_failed ?f) (fl_bridge ?f) = [] \<and> fl_admitted ?f = []"
    using assms(1) by (auto simp: flushAll_def newDrainScope_def Let_def split: if_splits)
  show "bridge_ok (fl_bridge f)" using ok f by (simp add: drain_ok_def)
  show "fl_admitted f = [] \<and> pendingWrites (fl_bridge f) = []" if "r = None"
    using r [OF that] ok unfolding f by (auto simp: drain_ok_def eligible_none)
qed

text \<open>Without other operations around, a flush changes no value, whatever fails.\<close>

definition alone :: "pass_env \<Rightarrow> bool" where
  "alone env \<longleftrightarrow> barrier_new env = [] \<and> drain_new env = []"

lemma flush_pass_alone:
  assumes "flush_pass env f = (st, f')" and "bridge_ok (fl_bridge f)" and "fl_admitted f = []" and "alone env"
  shows "bridge_ok (fl_bridge f')" and "fl_admitted f' = []"
    and "store_name n \<Longrightarrow> content (fl_bridge f') n k = content (fl_bridge f) n k"
proof -
  obtain es2 failed s3 where r3: "flush_keys (flush_io env) (eligibleKeys (fl_failed f) (fl_bridge f)) (fl_failed f) (fl_bridge f) = (es2, failed, s3)"
    by (cases "flush_keys (flush_io env) (eligibleKeys (fl_failed f) (fl_bridge f)) (fl_failed f) (fl_bridge f)")
  note eff = flush_keys_effect [OF r3 assms(2) eligible_known [OF assms(2)]]
  show "bridge_ok (fl_bridge f')" "fl_admitted f' = []"
    "store_name n \<Longrightarrow> content (fl_bridge f') n k = content (fl_bridge f) n k"
    using assms(1-4) eff by (auto simp: flush_pass_def Let_def alone_def r3 split: if_splits)
qed

lemma flush_loop_alone:
  assumes "\<forall>n. alone (env n)" and "bridge_ok (fl_bridge f)" and "fl_admitted f = []" and "store_name n"
  shows "content (fl_bridge (flush_loop left i env f)) n k = content (fl_bridge f) n k"
  using assms
proof (induction left i env f rule: flush_loop.induct)
  case (2 left i env f)
  obtain st f1 where p: "flush_pass (env i) f = (st, f1)" by fastforce
  note eff = flush_pass_alone [OF p 2(3,4)]
  from eff 2 p show ?case by (cases st) auto
qed simp

subsection \<open>Runs without faults\<close>

definition clean_io :: "io \<Rightarrow> bridge \<Rightarrow> bool" where
  "clean_io i s \<longleftrightarrow>
     rename_fault i = None \<and> dir_fault i = None \<and> read_fault i = None \<and> unlink_fault i = None \<and>
     open_fault (attempts i 0) = None \<and> handle_fault (attempts i 0) = None \<and>
     omap_get (temps s) (tmp_name (attempts i 0)) = None"

definition same_temps :: "bridge \<Rightarrow> bridge \<Rightarrow> bool" where
  "same_temps s t \<longleftrightarrow> omap_get (temps t) = omap_get (temps s)"

lemma clean_io_same: "same_temps s t \<Longrightarrow> clean_io i t = clean_io i s"
  by (simp add: clean_io_def same_temps_def)

lemma clean_certify:
  assumes "clean_io i s"
  shows "\<exists>t. certifyWrite i ck path v s = (None, t) \<and> same_temps s t"
proof -
  let ?a = "attempts i 0"
  have w: "defaultWriteTmp ?a v s = (None, s\<lparr>temps := omap_set (tmp_name ?a) v (temps s)\<rparr>)"
    using assms by (simp add: clean_io_def defaultWriteTmp_def)
  have "\<exists>t. durableWrite i path v s = (Written, t) \<and> same_temps s t"
    using assms w
    by (auto simp: durableWrite_def MAX_TMP_ATTEMPTS_def numeral_eq_Suc publish_def Let_def clean_io_def same_temps_def
        omap_simps fun_eq_iff)
  then show ?thesis by (auto simp: certifyWrite_def same_temps_def)
qed

lemma clean_flush_keys:
  assumes "\<forall>ck. clean_io (ios ck) s" and "bridge_ok s" and "\<forall>ck \<in> set cks. known_key ck"
  shows "\<exists>t. flush_keys ios cks {} s = ([], {}, t) \<and> bridge_ok t \<and> same_temps s t \<and>
    (\<forall>c. omap_get (pendingWrites t) c = (if c \<in> set cks then None else omap_get (pendingWrites s) c))"
  using assms
proof (induction cks arbitrary: s)
  case Nil
  then show ?case by (simp add: same_temps_def)
next
  case (Cons ck cks)
  obtain n k where ck: "ck = cacheKey n k" "store_name n" using Cons.prems(3) by (auto simp: known_key_def)
  obtain s1 where f: "flushOne (ios ck) ck {} s = (None, {}, s1)" and temps: "same_temps s s1"
  proof (cases "omap_get (pendingWrites s) ck")
    case None
    then show ?thesis using that [of s] by (simp add: flushOne_def same_temps_def)
  next
    case (Some p)
    let ?s = "s\<lparr>pendingWrites := omap_set ck (p\<lparr>entry_armed := False\<rparr>) (pendingWrites s)\<rparr>"
    have "clean_io (ios ck) ?s" using Cons.prems(1) by (simp add: clean_io_def)
    then obtain t where "certifyWrite (ios ck) ck (entry_path p) (entry_bytes p) ?s = (None, t)" "same_temps ?s t"
      using clean_certify by blast
    with Some show ?thesis
      by (intro that [of "t\<lparr>pendingWrites := omap_del ck (pendingWrites t)\<rparr>"]) (simp_all add: flushOne_def same_temps_def)
  qed
  note eff = flushOne_effect [OF f [unfolded ck(1)] Cons.prems(2) ck(2)]
  have gone: "omap_get (pendingWrites s1) ck = None" using eff(4) ck(1) by simp
  have others: "c \<noteq> ck \<Longrightarrow> omap_get (pendingWrites s1) c = omap_get (pendingWrites s) c" for c
    using eff(2) ck(1) by (simp add: key_step_def only_key_def)
  have "\<forall>ck. clean_io (ios ck) s1" using Cons.prems(1) clean_io_same [OF temps] by simp
  from Cons.IH [OF this eff(1)] Cons.prems(3)
  obtain t where "flush_keys ios cks {} s1 = ([], {}, t)" "bridge_ok t" "same_temps s1 t"
    and p: "\<forall>c. omap_get (pendingWrites t) c = (if c \<in> set cks then None else omap_get (pendingWrites s1) c)" by auto
  moreover have "same_temps s t" using temps \<open>same_temps s1 t\<close> by (simp add: same_temps_def)
  moreover have "\<forall>c. omap_get (pendingWrites t) c = (if c \<in> set (ck # cks) then None else omap_get (pendingWrites s) c)"
    using p gone others by auto
  ultimately show ?case using f by auto
qed

lemma pending_emptyI: "\<forall>c. omap_get (pendingWrites t) c = None \<Longrightarrow> pendingWrites t = []"
  by (metis eligible_none map_of_eq_empty_iff ext)

lemma flush_loop_quiet: "flush_pass (env n) f = (Quiet, f1) \<Longrightarrow> 0 < left \<Longrightarrow> flush_loop left n env f = f1"
  by (cases left) simp_all

lemma clean_flush_returns:
  assumes "bridge_ok s" and "\<forall>n. alone (env n)" and "\<forall>n ck. clean_io (flush_io (env n) ck) s"
  shows "\<exists>scope f. flushAll newDrainScope env [] s = (None, scope, f)"
proof -
  let ?start = "\<lparr>fl_errors = [], fl_failed = {}, fl_admitted = [], fl_bridge = s\<rparr>"
  have alone: "barrier_new (env n) = []" "drain_new (env n) = []" for n using assms(2) by (simp_all add: alone_def)
  have two: "\<exists>t. flush_loop (Suc (Suc m)) 0 env ?start = \<lparr>fl_errors = [], fl_failed = {}, fl_admitted = [], fl_bridge = t\<rparr> \<and>
    pendingWrites t = []" for m
  proof (cases "pendingWrites s = []")
    case True
    then have "eligibleKeys {} s = []" by (simp add: eligible_none)
    then have "flush_pass (env 0) ?start = (Quiet, ?start)"
      by (simp add: flush_pass_def Let_def alone)
    then show ?thesis using True by simp
  next
    case False
    then have keys: "eligibleKeys {} s \<noteq> []" by (simp add: eligible_none)
    have "\<forall>ck. clean_io (flush_io (env 0) ck) s" using assms(3) by blast
    from clean_flush_keys [OF this assms(1) eligible_known [OF assms(1)], of "{}"]
    obtain t where t: "flush_keys (flush_io (env 0)) (eligibleKeys {} s) {} s = ([], {}, t)"
      and p: "\<forall>c. omap_get (pendingWrites t) c = (if c \<in> set (eligibleKeys {} s) then None else omap_get (pendingWrites s) c)"
      by blast
    have "c \<in> set (eligibleKeys {} s)" if "omap_get (pendingWrites s) c \<noteq> None" for c
      using that by (auto simp: eligibleKeys_def map_of_eq_None_iff image_iff intro: rev_image_eqI)
    then have "\<forall>c. omap_get (pendingWrites t) c = None" using p by metis
    then have pt: "pendingWrites t = []" by (rule pending_emptyI)
    let ?mid = "\<lparr>fl_errors = [], fl_failed = {}, fl_admitted = [], fl_bridge = t\<rparr>"
    have "flush_pass (env 0) ?start = (NextPass, ?mid)"
      using keys by (simp add: flush_pass_def Let_def alone t)
    moreover have "flush_pass (env (Suc 0)) ?mid = (Quiet, ?mid)"
      using pt by (simp add: flush_pass_def Let_def alone eligible_none)
    ultimately show ?thesis using pt by (simp del: One_nat_def)
  qed
  have "FLUSH_MAX_PASSES = Suc (Suc 30)" by (simp add: FLUSH_MAX_PASSES_def)
  with two [of 30] obtain t where
    "flush_loop FLUSH_MAX_PASSES 0 env ?start = \<lparr>fl_errors = [], fl_failed = {}, fl_admitted = [], fl_bridge = t\<rparr>"
    "pendingWrites t = []" by metis
  then show ?thesis
    by (simp add: flushAll_def newDrainScope_def Let_def eligible_none)
qed

text \<open>Without faults the store is a key-value store: the contract of \<open>MemoryStore\<close> again.\<close>

definition fresh_tmp :: "bridge \<Rightarrow> js_string" where
  "fresh_tmp s = CHR ''t'' # concat (map fst (temps s))"

definition quiet_io :: "bridge \<Rightarrow> io" where
  "quiet_io s =
     \<lparr>attempts = (\<lambda>_. \<lparr>tmp_name = fresh_tmp s, open_fault = None, handle_fault = None, cleanup_fails = False\<rparr>),
      rename_fault = None, dir_fault = None, tmp_unlink_fails = False, read_fault = None, unlink_fault = None\<rparr>"

definition bridge_put :: "js_string \<Rightarrow> js_string \<Rightarrow> bytes \<Rightarrow> bridge \<Rightarrow> bridge" where
  "bridge_put n k v s = snd (doSetLocked (quiet_io s) n k v s)"

definition bridge_remove :: "js_string \<Rightarrow> js_string \<Rightarrow> bridge \<Rightarrow> bridge" where
  "bridge_remove n k s = snd (doDeleteOne (quiet_io s) n k s)"

lemma fresh_tmp_absent: "omap_get (temps s) (fresh_tmp s) = None"
proof -
  have "length k \<le> length (concat (map fst m))" if "k \<in> fst ` set m" for k and m :: "(js_string, bytes) omap"
    using that by (induction m) (auto intro: trans_le_add2)
  then have "fresh_tmp s \<notin> fst ` set (temps s)"
    by (metis fresh_tmp_def length_Cons Suc_n_not_le_n)
  then show ?thesis by (simp add: map_of_eq_None_iff)
qed

lemma quiet_is_clean: "clean_io (quiet_io s) s"
  by (simp add: clean_io_def quiet_io_def fresh_tmp_absent)

lemma clean_set_returns:
  assumes "clean_io i s" and "bridge_ok s" and "store_name n"
  shows "fst (doSetLocked i n k v s) = None"
proof (cases "n \<in> CRITICAL_STORES \<and> \<not> set_is_known (cacheKey n k) v s")
  case True
  then have none: "omap_get (pendingWrites s) (cacheKey n k) = None"
    using critical_not_pending [OF assms(2,3)] by simp
  obtain t where "certifyWrite i (cacheKey n k) (fileName n k) v s = (None, t)" using clean_certify [OF assms(1)] by blast
  with True none show ?thesis by (simp add: doSetLocked_def Let_def)
qed (auto simp: doSetLocked_def Let_def)

interpretation bridge: kv_store content bridge_put bridge_remove bridge_ok store_name
proof
  fix s n k v n' k'
  assume s: "bridge_ok s" and n: "store_name n"
  obtain r t where set: "doSetLocked (quiet_io s) n k v s = (r, t)" by fastforce
  have r: "r = None" using clean_set_returns [OF quiet_is_clean s n, of k v] set by simp
  note eff = set_effect [OF set s n]
  show "bridge_ok (bridge_put n k v s)" using eff(1) by (simp add: bridge_put_def set)
  obtain q u where del: "doDeleteOne (quiet_io s) n k s = (q, u)" by fastforce
  note effd = delete_effect [OF del s n]
  have q: "q = None" using effd(6) by (cases q) (auto simp: quiet_io_def)
  show "bridge_ok (bridge_remove n k s)" using effd(1) by (simp add: bridge_remove_def del)
  assume n': "store_name n'"
  show "content (bridge_put n k v s) n' k' = (if n' = n \<and> k' = k then Some v else content s n' k')"
    using eff(3) [OF r] content_other [OF eff(2) n n', of k'] by (auto simp: bridge_put_def set)
  show "content (bridge_remove n k s) n' k' = (if n' = n \<and> k' = k then None else content s n' k')"
    using effd(3) [OF q] content_other [OF effd(2) n n', of k'] by (auto simp: bridge_remove_def del)
qed

subsection \<open>Enumeration\<close>

lemma listed_keys_set:
  "set (listed_keys n prefix entries waiting) =
     {k. prefix_ok prefix k \<and> ((\<exists>f \<in> set entries. key_of_file n f = Some k) \<or> (\<exists>c \<in> set waiting. key_of_cache_key n c = Some k))}"
  by (auto simp: listed_keys_def Let_def set_fold_add List.map_filter_def image_iff)

lemma distinct_set_add: "distinct xs \<Longrightarrow> distinct (set_add x xs)"
  by (simp add: set_add_def)

lemma distinct_fold_add: "distinct xs \<Longrightarrow> distinct (fold set_add ys xs)"
  by (induction ys arbitrary: xs) (auto simp: distinct_set_add)

lemma list_after_flush:
  assumes "bridge_ok s" and "pendingWrites s = []" and "store_name n"
  shows "set (listed_keys n prefix (map fst (files s)) []) = {k. prefix_ok prefix k \<and> content s n k \<noteq> None}"
proof -
  have "(\<exists>f \<in> set (map fst (files s)). key_of_file n f = Some k) \<longleftrightarrow> content s n k \<noteq> None" for k
  proof
    assume "\<exists>f \<in> set (map fst (files s)). key_of_file n f = Some k"
    then obtain f where f: "omap_get (files s) f \<noteq> None" "key_of_file n f = Some k"
      by (auto simp: map_of_eq_None_iff)
    then have "f = fileName n k" using assms(1,3) by (auto simp: bridge_ok_def canonical_file_def)
    with f assms(2) show "content s n k \<noteq> None" by (simp add: content_def)
  next
    assume "content s n k \<noteq> None"
    then have "fileName n k \<in> fst ` set (files s)" using assms(2) by (simp add: content_def map_of_eq_None_iff)
    then have "fileName n k \<in> set (map fst (files s))" by simp
    then show "\<exists>f \<in> set (map fst (files s)). key_of_file n f = Some k" using key_of_fileName by blast
  qed
  then show ?thesis by (simp add: listed_keys_set)
qed

subsection \<open>Properties\<close>



text \<open>
  C15: a set that resolves has taken effect: the key reads as the new value, and for a critical store
  the new bytes are in the file, even when the write was skipped as already known; a set that
  rejects leaves the old or the new value, and no set touches another key.
\<close>

theorem acknowledged_set_is_kept:
  assumes "doSetLocked i n k v s = (r, t)" and "bridge_ok s" and "store_name n"
  shows "bridge_ok t \<and> (r = None \<longrightarrow> content t n k = Some v) \<and>
    (r = None \<longrightarrow> n \<in> CRITICAL_STORES \<longrightarrow> omap_get (files t) (fileName n k) = Some v) \<and>
    content t n k \<in> {content s n k, Some v} \<and>
    (\<forall>n' k'. store_name n' \<longrightarrow> (n', k') \<noteq> (n, k) \<longrightarrow> content t n' k' = content s n' k') \<and>
    (\<forall>j. r = None \<longrightarrow> read_fault j = None \<longrightarrow> fst (doGetLocked j n k t) = Inr (Some v))"
proof -
  note eff = set_effect [OF assms]
  have read: "fst (doGetLocked j n k t) = Inr (Some v)" if r: "r = None" and "read_fault j = None" for j
  proof -
    obtain g u where g: "doGetLocked j n k t = (g, u)" by fastforce
    show ?thesis using get_effect(4) [OF g eff(1) assms(3)] eff(3) [OF r] that(2) g by auto
  qed
  have "content t n' k' = content s n' k'" if "store_name n'" "(n', k') \<noteq> (n, k)" for n' k'
    using content_other [OF eff(2) assms(3) that(1), of k'] that(2) by auto
  then show ?thesis using eff(1,3,4,5) read by blast
qed

theorem acknowledged_set_is_kept_witness:
  "\<exists>t. doSetLocked (quiet_io new_bridge) ''device'' ''a'' [7] new_bridge = (None, t) \<and>
     omap_get (files t) (fileName ''device'' ''a'') = Some [7]"
proof -
  have name: "store_name ''device''" by (simp add: store_name_def char_of_eq_iff)
  obtain t where t: "doSetLocked (quiet_io new_bridge) ''device'' ''a'' [7] new_bridge = (None, t)"
    using clean_set_returns [OF quiet_is_clean bridge_ok_new name, of "''a''" "[7]"] by (metis prod.collapse)
  from acknowledged_set_is_kept [OF t bridge_ok_new name] t show ?thesis by (simp add: CRITICAL_STORES_def)
qed

text \<open>
  C16: a delete that resolves leaves the key without a value and without a file; when the unlink
  itself fails, the acknowledged value stays readable exactly as before, its queued write included;
  in between (the barrier failed after the unlink) the key has its old value or none.
\<close>

theorem failed_delete_restores:
  assumes "doDeleteOne i n k s = (r, t)" and "bridge_ok s" and "store_name n"
  shows "bridge_ok t \<and> (r = None \<longrightarrow> content t n k = None \<and> omap_get (files t) (fileName n k) = None) \<and>
    (unlink_fault i \<noteq> None \<longrightarrow> r \<noteq> None \<and> content t n k = content s n k) \<and>
    content t n k \<in> {content s n k, None} \<and>
    (\<forall>n' k'. store_name n' \<longrightarrow> (n', k') \<noteq> (n, k) \<longrightarrow> content t n' k' = content s n' k')"
proof -
  note eff = delete_effect [OF assms]
  have "content t n' k' = content s n' k'" if "store_name n'" "(n', k') \<noteq> (n, k)" for n' k'
    using content_other [OF eff(2) assms(3) that(1), of k'] that(2) by auto
  then show ?thesis using eff(1,3,4,5) by blast
qed

theorem failed_delete_restores_witness:
  "fst (doDeleteOne ((quiet_io new_bridge)\<lparr>unlink_fault := Some 13\<rparr>) ''lid'' ''a'' (queue_write (cacheKey ''lid'' ''a'') (fileName ''lid'' ''a'') [5] new_bridge)) \<noteq> None \<and>
   content (snd (doDeleteOne ((quiet_io new_bridge)\<lparr>unlink_fault := Some 13\<rparr>) ''lid'' ''a'' (queue_write (cacheKey ''lid'' ''a'') (fileName ''lid'' ''a'') [5] new_bridge))) ''lid'' ''a'' = Some [5]"
proof -
  have n: "store_name ''lid''" "''lid'' \<notin> CRITICAL_STORES" by (simp_all add: store_name_def char_of_eq_iff CRITICAL_STORES_def)
  note q = queue_effect [OF bridge_ok_new n, of "''a''" "[5]"]
  let ?s = "queue_write (cacheKey ''lid'' ''a'') (fileName ''lid'' ''a'') [5] new_bridge"
  let ?d = "doDeleteOne ((quiet_io new_bridge)\<lparr>unlink_fault := Some 13\<rparr>) ''lid'' ''a'' ?s"
  have "?d = (fst ?d, snd ?d)" by simp
  from failed_delete_restores [OF this q(1) n(1)] show ?thesis unfolding q(3) by simp
qed

text \<open>
  C17: a flush that resolves reached quiescence: every operation admitted before or during it has
  finished, nothing is queued any more, and every value a reader would see is the content of its
  file, whatever was admitted meanwhile. A flush with nothing else going on changes no value at all,
  whatever fails in it.
\<close>

theorem flush_success_is_durable:
  assumes "flushAll newDrainScope env admitted s = (r, scope, f)" and "bridge_ok s" and "ops_ok admitted"
    and "\<forall>i. env_ok (env i)"
  shows "bridge_ok (fl_bridge f) \<and>
    (r = None \<longrightarrow> fl_admitted f = [] \<and> pendingWrites (fl_bridge f) = [] \<and>
       (\<forall>n k. content (fl_bridge f) n k = omap_get (files (fl_bridge f)) (fileName n k))) \<and>
    (admitted = [] \<longrightarrow> (\<forall>i. alone (env i)) \<longrightarrow>
       (\<forall>n k. store_name n \<longrightarrow> content (fl_bridge f) n k = content s n k))"
proof -
  let ?start = "\<lparr>fl_errors = [], fl_failed = {}, fl_admitted = [], fl_bridge = s\<rparr>"
  have "content (fl_bridge f) n k = content s n k"
    if "admitted = []" "\<forall>i. alone (env i)" "store_name n" for n k
  proof -
    have "f = flush_loop FLUSH_MAX_PASSES 0 env ?start"
      using assms(1) that(1) by (auto simp: flushAll_def newDrainScope_def Let_def split: if_splits)
    then show ?thesis using flush_loop_alone [OF that(2), of ?start n] assms(2) that(3) by simp
  qed
  then show ?thesis using flushAll_ok [OF assms] by (auto simp: content_def)
qed

theorem flush_success_is_durable_witness:
  "\<exists>f scope. flushAll newDrainScope (\<lambda>_. \<lparr>barrier_new = [], barrier_done = 0, drain_new = [], drain_done = 0, flush_io = (\<lambda>_. quiet_io new_bridge)\<rparr>) []
       (queue_write (cacheKey ''lid'' ''a'') (fileName ''lid'' ''a'') [5] new_bridge) = (None, scope, f) \<and>
     omap_get (files (fl_bridge f)) (fileName ''lid'' ''a'') = Some [5]"
proof -
  have n: "store_name ''lid''" "''lid'' \<notin> CRITICAL_STORES" by (simp_all add: store_name_def char_of_eq_iff CRITICAL_STORES_def)
  let ?s = "queue_write (cacheKey ''lid'' ''a'') (fileName ''lid'' ''a'') [5] new_bridge"
  let ?env = "\<lambda>_ :: nat. \<lparr>barrier_new = [], barrier_done = 0, drain_new = [], drain_done = 0, flush_io = (\<lambda>_. quiet_io new_bridge)\<rparr>"
  note q = queue_effect [OF bridge_ok_new n, of "''a''" "[5]"]
  have "clean_io (quiet_io new_bridge) ?s"
    using quiet_is_clean [of new_bridge] by (simp add: clean_io_def queue_write_def)
  then obtain scope f where f: "flushAll newDrainScope ?env [] ?s = (None, scope, f)"
    using clean_flush_returns [OF q(1), of ?env] by (auto simp: alone_def)
  have "ops_ok []" "\<forall>i. env_ok (?env i)" by (simp_all add: ops_ok_def env_ok_def)
  note durable = flush_success_is_durable [OF f q(1) this]
  have "\<forall>i. alone (?env i)" by (simp add: alone_def)
  then have "content (fl_bridge f) ''lid'' ''a'' = Some [5]" using durable n(1) q(3) by metis
  moreover have "content (fl_bridge f) ''lid'' ''a'' = omap_get (files (fl_bridge f)) (fileName ''lid'' ''a'')"
    using durable by blast
  ultimately show ?thesis using f by auto
qed

text \<open>
  C18: without faults and without new work a flush returns successfully, within its bound on passes,
  however much is queued.
\<close>

theorem flush_without_faults_returns:
  assumes "bridge_ok s" and "\<forall>n. alone (env n)" and "\<forall>n ck. clean_io (flush_io (env n) ck) s"
  shows "\<exists>scope f. flushAll newDrainScope env [] s = (None, scope, f)"
  using clean_flush_returns [OF assms] .

theorem flush_without_faults_returns_witness:
  "\<exists>scope f. flushAll newDrainScope
     (\<lambda>_. \<lparr>barrier_new = [], barrier_done = 0, drain_new = [], drain_done = 0, flush_io = (\<lambda>_. quiet_io new_bridge)\<rparr>) [] new_bridge
     = (None, scope, f)"
  by (rule flush_without_faults_returns) (simp_all add: bridge_ok_new alone_def quiet_is_clean)

text \<open>
  enumeration returns every live key of the store with the prefix exactly once and no other
  key, where live means that a read of the key would find a value after the flush it starts with.
\<close>

theorem list_keys_lists_live_keys:
  assumes "doListKeys env admitted None n prefix s = (Inr keys, f)" and "bridge_ok s" and "ops_ok admitted"
    and "\<forall>i. env_ok (env i)" and "store_name n"
  shows "distinct keys \<and> set keys = {k. prefix_ok prefix k \<and> content (fl_bridge f) n k \<noteq> None}"
proof -
  obtain r scope g where flush: "flushAll newDrainScope env admitted s = (r, scope, g)"
    by (cases "flushAll newDrainScope env admitted s")
  with assms(1) have r: "r = None" "f = g"
    and keys: "keys = listed_keys n prefix (map fst (files (fl_bridge f))) (map fst (pendingWrites (fl_bridge f)))"
    by (auto simp: doListKeys_def split: option.splits)
  note ok = flushAll_ok [OF flush assms(2-4)]
  have "pendingWrites (fl_bridge f) = []" and "bridge_ok (fl_bridge f)" using ok r by simp_all
  then show ?thesis
    using list_after_flush [of "fl_bridge f" n prefix] assms(5) keys
    by (simp add: listed_keys_def Let_def distinct_fold_add)
qed

theorem list_keys_lists_live_keys_witness:
  "\<exists>f. doListKeys (\<lambda>_. \<lparr>barrier_new = [], barrier_done = 0, drain_new = [], drain_done = 0, flush_io = (\<lambda>_. quiet_io new_bridge)\<rparr>) []
      None ''lid'' None new_bridge = (Inr [], f) \<and> {k. prefix_ok None k \<and> content (fl_bridge f) ''lid'' k \<noteq> None} = {}"
proof -
  let ?env = "\<lambda>_ :: nat. \<lparr>barrier_new = [], barrier_done = 0, drain_new = [], drain_done = 0, flush_io = (\<lambda>_. quiet_io new_bridge)\<rparr>"
  let ?start = "\<lparr>fl_errors = [], fl_failed = {}, fl_admitted = [], fl_bridge = new_bridge\<rparr>"
  have "flush_pass (?env 0) ?start = (Quiet, ?start)"
    by (simp add: flush_pass_def eligibleKeys_def new_bridge_def)
  then have "flush_loop FLUSH_MAX_PASSES 0 ?env ?start = ?start"
    by (rule flush_loop_quiet) (simp add: FLUSH_MAX_PASSES_def)
  then have l: "doListKeys ?env [] None ''lid'' None new_bridge = (Inr [], ?start)"
    by (simp add: doListKeys_def flushAll_def newDrainScope_def Let_def eligibleKeys_def new_bridge_def listed_keys_def)
  have "ops_ok []" "\<forall>i. env_ok (?env i)" "store_name ''lid''" by (simp_all add: ops_ok_def env_ok_def store_name_def char_of_eq_iff)
  from list_keys_lists_live_keys [OF l bridge_ok_new this] l show ?thesis by auto
qed

end
