(* ===== verification/SnapshotStore.thy ===== *)
theory SnapshotStore
  imports BridgeStore
begin

text \<open>
  The atomic snapshot of the bridge's app-state rows: \<open>src/src/Utils/snapshot-transactions.ts\<close>
  (its file format, persistence and transactions), \<open>snapshot-rollback.ts\<close> and
  \<open>snapshot-rollback-proof.ts\<close> (the offline export), \<open>native-auth-rollback.ts\<close>,
  \<open>store-migration.ts\<close> and the routing of \<open>transactional-file-store.ts\<close>. The folder is a map from
  file names to bytes. A sequence of file-system actions may stop after any of its actions, by an
  error or by a crash; publishing a file is one action because it renames a complete temporary
  file. SHA-256 is a parameter, as it belongs to the crypto module of the platform.
\<close>

type_synonym rows = "(js_string, bytes) omap"
type_synonym folder = "(js_string, bytes) omap"

subsection \<open>The snapshot file\<close>

definition nativeAtomicNamespaces :: "js_string set" where
  "nativeAtomicNamespaces = {''sync_version'', ''mutation_mac'', ''tc_token'', ''meta''}"

definition snapshot_entry :: "js_string \<times> bytes \<Rightarrow> json" where
  "snapshot_entry = (\<lambda>(key, v). JArr [JStr key, JStr (base64Encode v)])"

definition snapshot_bytes :: "rows \<Rightarrow> bytes" where
  "snapshot_bytes rows = utf8Encode (stringify (JArr (map snapshot_entry rows)))"

text \<open>
  \<open>Buffer.from(text, 'base64')\<close> accepts more than it prints; the comparison that follows rejects
  everything but the printed form, on which it agrees with the decoder of \<open>bytes.ts\<close>.
\<close>

definition strict_base64 :: "js_string \<Rightarrow> bytes option" where
  "strict_base64 enc =
     (case base64Decode enc of Inr bs \<Rightarrow> if base64Encode bs = enc then Some bs else None | Inl _ \<Rightarrow> None)"

fun readEntries :: "js_string set \<Rightarrow> json list \<Rightarrow> rows \<Rightarrow> store_error + rows" where
  "readEntries ns [] rows = Inr rows"
| "readEntries ns (e # es) rows =
     (case e of
        JArr [JStr raw, JStr enc] \<Rightarrow>
          (case json_parse raw of
             None \<Rightarrow> Inl SyntaxErr
           | Some (JArr [JStr n, JStr k]) \<Rightarrow>
               if n \<notin> ns then Inl TypeErr
               else if omap_get rows raw \<noteq> None then Inl TypeErr
               else if rowKey n k \<noteq> raw then Inl TypeErr
               else (case strict_base64 enc of
                       None \<Rightarrow> Inl TypeErr | Some v \<Rightarrow> readEntries ns es (omap_set raw v rows))
           | Some _ \<Rightarrow> Inl TypeErr)
      | _ \<Rightarrow> Inl TypeErr)"

definition parse_snapshot :: "js_string set \<Rightarrow> bytes \<Rightarrow> store_error + rows" where
  "parse_snapshot ns file =
     (case utf8Decode file of
        None \<Rightarrow> Inl OutsideText
      | Some txt \<Rightarrow>
          (case json_parse txt of
             None \<Rightarrow> Inl SyntaxErr
           | Some (JArr entries) \<Rightarrow> readEntries ns entries []
           | Some _ \<Rightarrow> Inl TypeErr))"

definition readRows :: "js_string set \<Rightarrow> js_string \<Rightarrow> (folder \<Rightarrow> store_error + rows) \<Rightarrow> folder \<Rightarrow> store_error + rows" where
  "readRows ns snapshotName importRows folder =
     (case omap_get folder snapshotName of
        Some file \<Rightarrow> parse_snapshot ns file
      | None \<Rightarrow> importRows folder)"

definition rows_ok :: "js_string set \<Rightarrow> rows \<Rightarrow> bool" where
  "rows_ok ns rows \<longleftrightarrow> omap_ok rows \<and> (\<forall>raw \<in> fst ` set rows. \<exists>n k. n \<in> ns \<and> raw = rowKey n k)"

lemma strict_base64_encode: "strict_base64 (base64Encode v) = Some v"
  by (simp add: strict_base64_def base64Decode_encode)

lemma rowKey_parse: "json_parse (rowKey n k) = Some (JArr [JStr n, JStr k])"
  unfolding rowKey_def by (rule json_parse_stringify) simp

lemma readEntries_print:
  assumes "omap_ok (acc @ xs)" and "\<forall>raw \<in> fst ` set xs. \<exists>n k. n \<in> ns \<and> raw = rowKey n k"
  shows "readEntries ns (map snapshot_entry xs) acc = Inr (acc @ xs)"
  using assms
proof (induction xs arbitrary: acc)
  case (Cons x xs)
  obtain raw v where x: "x = (raw, v)" by (cases x)
  then obtain n k where raw: "raw = rowKey n k" "n \<in> ns" using Cons.prems(2) by auto
  have fresh: "omap_get acc raw = None"
    using Cons.prems(1) x by (auto simp: omap_ok_def map_of_eq_None_iff)
  then have "omap_set raw v acc = acc @ [x]" using set_absent_append x by simp
  moreover have "readEntries ns (map snapshot_entry xs) (acc @ [x]) = Inr ((acc @ [x]) @ xs)"
    using Cons.prems by (intro Cons.IH) auto
  ultimately show ?case
    using fresh raw by (simp add: x snapshot_entry_def rowKey_parse strict_base64_encode)
qed simp

lemma parse_print_snapshot:
  assumes "rows_ok ns rows"
  shows "parse_snapshot ns (snapshot_bytes rows) = Inr rows"
proof -
  have "json_wf (JArr (map snapshot_entry rows))"
    by (auto simp: list_all_iff snapshot_entry_def)
  then have "json_parse (stringify (JArr (map snapshot_entry rows))) = Some (JArr (map snapshot_entry rows))"
    by (rule json_parse_stringify)
  then show ?thesis
    using readEntries_print [of "[]" rows ns] assms
    by (simp add: parse_snapshot_def snapshot_bytes_def utf8_decode_encode rows_ok_def del: stringify.simps)
qed

subsection \<open>File-system actions that may be interrupted\<close>

datatype fs_action = PutFile js_string bytes | RemoveFile js_string | MoveFile js_string js_string | SyncDir

fun apply_action :: "fs_action \<Rightarrow> folder \<Rightarrow> folder" where
  "apply_action (PutFile name v) d = omap_set name v d"
| "apply_action (RemoveFile name) d = omap_del name d"
| "apply_action (MoveFile a b) d = (case omap_get d a of Some v \<Rightarrow> omap_set b v (omap_del a d) | None \<Rightarrow> d)"
| "apply_action SyncDir d = d"

definition run_actions :: "fs_action list \<Rightarrow> folder \<Rightarrow> folder" where
  "run_actions acts d = fold apply_action acts d"

definition rollbackProofName :: "js_string \<Rightarrow> js_string" where
  "rollbackProofName snapshotName = CHR ''.'' # snapshotName @ ''.rollback-proof.json''"

definition clearRollbackProof :: "js_string \<Rightarrow> folder \<Rightarrow> fs_action list" where
  "clearRollbackProof snapshotName d =
     (if omap_get d (rollbackProofName snapshotName) = None then []
      else [RemoveFile (rollbackProofName snapshotName), SyncDir])"

text \<open>
  \<open>persist\<close>: the temporary file is created, written, closed and renamed; \<open>stop_at\<close> is the number of
  actions that take effect before a failure. The \<open>finally\<close> block removes the temporary file,
  unless the process is gone.
\<close>

definition persist_actions :: "js_string \<Rightarrow> js_string \<Rightarrow> rows \<Rightarrow> folder \<Rightarrow> fs_action list" where
  "persist_actions snapshotName tmp rows d =
     clearRollbackProof snapshotName d @ [PutFile tmp (snapshot_bytes rows), MoveFile tmp snapshotName, SyncDir]"

definition persist :: "js_string \<Rightarrow> js_string \<Rightarrow> nat \<Rightarrow> bool \<Rightarrow> rows \<Rightarrow> folder \<Rightarrow> bool \<times> folder" where
  "persist snapshotName tmp stop_at crash rows d =
     (let acts = persist_actions snapshotName tmp rows d;
          d1 = run_actions (take stop_at acts) d
      in (length acts \<le> stop_at, if crash then d1 else omap_del tmp d1))"

datatype snapshot_error = RowError store_error | IoFailure

definition snapshot_transaction ::
    "js_string set \<Rightarrow> js_string \<Rightarrow> (folder \<Rightarrow> store_error + rows) \<Rightarrow> (rows \<Rightarrow> store_error + rows) \<Rightarrow> js_string \<Rightarrow> nat \<Rightarrow> bool
      \<Rightarrow> folder \<Rightarrow> snapshot_error option \<times> folder" where
  "snapshot_transaction ns snapshotName importRows change tmp stop_at crash d =
     (case readRows ns snapshotName importRows d of
        Inl e \<Rightarrow> (Some (RowError e), d)
      | Inr rows \<Rightarrow>
          (case change rows of
             Inl e \<Rightarrow> (Some (RowError e), d)
           | Inr rows' \<Rightarrow>
               (let (done, d1) = persist snapshotName tmp stop_at crash rows' d
                in (if done then None else Some IoFailure, d1))))"

lemma run_actions_simps [simp]:
  "run_actions [] d = d" "run_actions (a # as) d = run_actions as (apply_action a d)"
  "run_actions (as @ bs) d = run_actions bs (run_actions as d)"
  by (simp_all add: run_actions_def)

lemma proof_name_differs: "rollbackProofName s \<noteq> s"
proof
  assume "rollbackProofName s = s"
  then have "length (rollbackProofName s) = length s" by simp
  then show False by (simp add: rollbackProofName_def)
qed

lemma clear_prefix:
  "x \<noteq> rollbackProofName snapshotName \<Longrightarrow>
     omap_get (run_actions (take j (clearRollbackProof snapshotName d)) d) x = omap_get d x"
  by (auto simp: clearRollbackProof_def take_Cons' omap_simps)

lemma clear_done: "omap_get (run_actions (clearRollbackProof snapshotName d) d) (rollbackProofName snapshotName) = None"
  by (auto simp: clearRollbackProof_def omap_simps)

text \<open>After any prefix of \<open>persist\<close>: the old snapshot, or the new one and no proof.\<close>

lemma persist_prefix:
  fixes snapshotName tmp :: js_string
  assumes "persist snapshotName tmp stop_at crash rows d = (done, d1)"
    and "tmp \<noteq> snapshotName" and "tmp \<noteq> rollbackProofName snapshotName"
  shows "omap_get d1 snapshotName = omap_get d snapshotName \<or>
      (omap_get d1 snapshotName = Some (snapshot_bytes rows) \<and> omap_get d1 (rollbackProofName snapshotName) = None)"
    and "done \<Longrightarrow> omap_get d1 snapshotName = Some (snapshot_bytes rows) \<and> omap_get d1 (rollbackProofName snapshotName) = None"
    and "x \<notin> {snapshotName, tmp, rollbackProofName snapshotName} \<Longrightarrow> omap_get d1 x = omap_get d x"
proof -
  let ?clear = "clearRollbackProof snapshotName d"
  define c where "c = run_actions (take stop_at ?clear) d"
  note names = assms(2,3) proof_name_differs [of snapshotName]
  have c: "x \<noteq> rollbackProofName snapshotName \<Longrightarrow> omap_get c x = omap_get d x" for x
    unfolding c_def by (rule clear_prefix)
  define rest where "rest = [PutFile tmp (snapshot_bytes rows), MoveFile tmp snapshotName, SyncDir]"
  define j where "j = stop_at - length ?clear"
  define d0 where "d0 = run_actions (take j rest) c"
  have d1: "d1 = (if crash then d0 else omap_del tmp d0)" and fin: "done \<longleftrightarrow> length ?clear + 3 \<le> stop_at"
    using assms(1) by (auto simp: persist_def persist_actions_def Let_def c_def rest_def j_def d0_def)
  have cleared: "omap_get c (rollbackProofName snapshotName) = None" if "j > 0"
    using that clear_done [of snapshotName d] by (simp add: c_def j_def)
  have "j = 0 \<or> j = 1 \<or> j \<ge> 2" by linarith
  then have d0: "(j < 2 \<and> omap_get d0 snapshotName = omap_get c snapshotName) \<or>
      (j \<ge> 2 \<and> omap_get d0 snapshotName = Some (snapshot_bytes rows) \<and>
       omap_get d0 (rollbackProofName snapshotName) = omap_get c (rollbackProofName snapshotName))"
    and other: "x \<notin> {snapshotName, tmp} \<Longrightarrow> omap_get d0 x = omap_get c x" for x
    using names unfolding d0_def rest_def by (auto simp: take_Cons' omap_simps)
  show "omap_get d1 snapshotName = omap_get d snapshotName \<or>
      (omap_get d1 snapshotName = Some (snapshot_bytes rows) \<and> omap_get d1 (rollbackProofName snapshotName) = None)"
    using d0 cleared c [of snapshotName] names by (auto simp: d1 omap_simps)
  show "omap_get d1 snapshotName = Some (snapshot_bytes rows) \<and> omap_get d1 (rollbackProofName snapshotName) = None" if "done"
  proof -
    have "j \<ge> 2" "j > 0" using that fin by (simp_all add: j_def)
    then show ?thesis using d0 cleared names by (auto simp: d1 omap_simps)
  qed
  show "omap_get d1 x = omap_get d x" if "x \<notin> {snapshotName, tmp, rollbackProofName snapshotName}"
    using that other [of x] c [of x] by (auto simp: d1 omap_simps)
qed

subsection \<open>Importing the old per-key files\<close>

text \<open>\<open>name.slice(0, name.indexOf('-'))\<close>, where -1 cuts the last character.\<close>

definition file_store :: "js_string \<Rightarrow> js_string" where
  "file_store name =
     (let i = js_indexOf name (CHR ''-'') 0 in if i < 0 then butlast name else take (nat i) name)"

definition isNativeAtomicRecordFile :: "js_string \<Rightarrow> bool" where
  "isNativeAtomicRecordFile name \<longleftrightarrow> ends_with name ''.bin'' \<and> file_store name \<in> nativeAtomicNamespaces"

text \<open>\<open>requireOfflineMigration\<close>: whether opening is refused.\<close>

definition requireOfflineMigration :: "js_string \<Rightarrow> (js_string \<Rightarrow> bool) \<Rightarrow> bool \<Rightarrow> folder \<Rightarrow> bool" where
  "requireOfflineMigration snapshotName isOldRecord migrate d =
     (if omap_get d snapshotName \<noteq> None then False
      else (\<not> migrate \<and> list_ex isOldRecord (map fst d)))"

fun import_files :: "(js_string \<times> bytes) list \<Rightarrow> rows \<Rightarrow> store_error + rows" where
  "import_files [] rows = Inr rows"
| "import_files ((file, v) # fs) rows =
     (let sep = js_indexOf file (CHR ''-'') 0;
          store = file_store file;
          encoded = js_slice file (nat (sep + 1)) (length file - 4)
      in if store \<notin> nativeAtomicNamespaces \<or> \<not> ends_with file ''.bin'' then import_files fs rows
         else (case decodeURIComponent encoded of
                 None \<Rightarrow> Inl UriErr
               | Some key \<Rightarrow>
                   if encodeURIComponent key \<noteq> encoded then Inl TypeErr
                   else if omap_get rows (rowKey store key) \<noteq> None then Inl TypeErr
                   else import_files fs (omap_set (rowKey store key) v rows)))"

definition importRows :: "folder \<Rightarrow> store_error + rows" where
  "importRows d = import_files d []"

lemma native_names: "n \<in> nativeAtomicNamespaces \<Longrightarrow> store_name n"
  by (auto simp: nativeAtomicNamespaces_def store_name_def char_of_eq_iff)

lemma fileName_split:
  assumes "n \<in> nativeAtomicNamespaces"
  shows "js_indexOf (fileName n k) (CHR ''-'') 0 = int (length n)"
    and "take (length n) (fileName n k) = n" and "ends_with (fileName n k) ''.bin''"
    and "js_slice (fileName n k) (Suc (length n)) (length (fileName n k) - 4) = encodeURIComponent k"
proof -
  have "CHR ''-'' \<notin> set n" using native_names [OF assms] by (simp add: store_name_def)
  then show "js_indexOf (fileName n k) (CHR ''-'') 0 = int (length n)"
    by (simp add: js_indexOf_def fileName_def str_index_first)
qed (simp_all add: fileName_def js_slice_def ends_with_def)

lemma file_store_fileName: "n \<in> nativeAtomicNamespaces \<Longrightarrow> file_store (fileName n k) = n"
  by (simp add: file_store_def fileName_split)

lemma fileName_is_record: "n \<in> nativeAtomicNamespaces \<Longrightarrow> isNativeAtomicRecordFile (fileName n k)"
  by (simp add: isNativeAtomicRecordFile_def fileName_split file_store_fileName)

lemma import_skips: "\<not> isNativeAtomicRecordFile f \<Longrightarrow> import_files ((f, v) # fs) rows = import_files fs rows"
  by (auto simp: isNativeAtomicRecordFile_def Let_def)

lemma import_takes:
  assumes "n \<in> nativeAtomicNamespaces" and "omap_get rows (rowKey n k) = None"
  shows "import_files ((fileName n k, v) # fs) rows = import_files fs (omap_set (rowKey n k) v rows)"
  using assms fileName_split [OF assms(1), of k] by (simp add: Let_def decode_encode_uri nat_add_distrib file_store_fileName)

lemma import_result:
  assumes "omap_ok fs" and "\<forall>f \<in> fst ` set fs. isNativeAtomicRecordFile f \<longrightarrow> (\<exists>n k. n \<in> nativeAtomicNamespaces \<and> f = fileName n k)"
    and "\<forall>n k. n \<in> nativeAtomicNamespaces \<longrightarrow> omap_get fs (fileName n k) \<noteq> None \<longrightarrow> omap_get rows (rowKey n k) = None"
  shows "\<exists>rows'. import_files fs rows = Inr rows' \<and>
    (\<forall>n k. n \<in> nativeAtomicNamespaces \<longrightarrow> omap_get rows' (rowKey n k) =
       (case omap_get fs (fileName n k) of Some v \<Rightarrow> Some v | None \<Rightarrow> omap_get rows (rowKey n k)))"
  using assms
proof (induction fs arbitrary: rows)
  case (Cons x fs)
  obtain f v where x: "x = (f, v)" by (cases x)
  have ok: "omap_ok fs" and new: "omap_get fs f = None"
    using Cons.prems(1) by (auto simp: omap_ok_def x map_of_eq_None_iff)
  have recs: "\<forall>f \<in> fst ` set fs. isNativeAtomicRecordFile f \<longrightarrow> (\<exists>n k. n \<in> nativeAtomicNamespaces \<and> f = fileName n k)"
    using Cons.prems(2) by simp
  show ?case
  proof (cases "isNativeAtomicRecordFile f")
    case True
    then obtain n k where f: "f = fileName n k" "n \<in> nativeAtomicNamespaces" using Cons.prems(2) x by auto
    have free: "omap_get rows (rowKey n k) = None" using Cons.prems(3) x f by simp
    have other: "n' \<in> nativeAtomicNamespaces \<Longrightarrow> fileName n' k' = fileName n k \<longleftrightarrow> n' = n \<and> k' = k" for n' k'
      using fileName_inj native_names f(2) by blast
    have "\<forall>n' k'. n' \<in> nativeAtomicNamespaces \<longrightarrow> omap_get fs (fileName n' k') \<noteq> None \<longrightarrow>
        omap_get (omap_set (rowKey n k) v rows) (rowKey n' k') = None"
      using Cons.prems(3) new other by (auto simp: x f omap_simps rowKey_eq split: if_splits)
    from Cons.IH [OF ok recs this] obtain rows' where
      r: "import_files fs (omap_set (rowKey n k) v rows) = Inr rows'"
      "\<forall>n' k'. n' \<in> nativeAtomicNamespaces \<longrightarrow> omap_get rows' (rowKey n' k') =
        (case omap_get fs (fileName n' k') of Some v \<Rightarrow> Some v | None \<Rightarrow> omap_get (omap_set (rowKey n k) v rows) (rowKey n' k'))"
      by blast
    then have "import_files (x # fs) rows = Inr rows'" using import_takes [OF f(2) free] x f by simp
    moreover have "\<forall>n' k'. n' \<in> nativeAtomicNamespaces \<longrightarrow> omap_get rows' (rowKey n' k') =
        (case omap_get (x # fs) (fileName n' k') of Some v \<Rightarrow> Some v | None \<Rightarrow> omap_get rows (rowKey n' k'))"
      using r(2) new other f(2) by (auto simp: x f omap_simps rowKey_eq split: option.split)
    ultimately show ?thesis by blast
  next
    case False
    then have skip: "import_files (x # fs) rows = import_files fs rows" unfolding x by (rule import_skips)
    have other: "n \<in> nativeAtomicNamespaces \<Longrightarrow> fileName n k \<noteq> f" for n k using False fileName_is_record by blast
    have "\<forall>n k. n \<in> nativeAtomicNamespaces \<longrightarrow> omap_get fs (fileName n k) \<noteq> None \<longrightarrow> omap_get rows (rowKey n k) = None"
      using Cons.prems(3) other by (simp add: x)
    from Cons.IH [OF ok recs this] show ?thesis unfolding skip using other by (simp add: x)
  qed
qed simp

lemma import_all:
  assumes "omap_ok d" and "\<forall>f \<in> fst ` set d. isNativeAtomicRecordFile f \<longrightarrow> (\<exists>n k. n \<in> nativeAtomicNamespaces \<and> f = fileName n k)"
  shows "\<exists>rows. importRows d = Inr rows \<and>
    (\<forall>n k. n \<in> nativeAtomicNamespaces \<longrightarrow> omap_get rows (rowKey n k) = omap_get d (fileName n k))"
proof -
  have "(case x of Some v \<Rightarrow> Some v | None \<Rightarrow> omap_get [] y) = x" for x :: "bytes option" and y :: js_string
    by (cases x) simp_all
  then show ?thesis using import_result [OF assms, of "[]"] by (simp add: importRows_def)
qed

subsection \<open>The offline export and its proof\<close>

definition invalid_name_char :: "js_string \<Rightarrow> bool" where
  "invalid_name_char s \<longleftrightarrow> list_ex (\<lambda>c. of_char c = (92 :: nat) \<or> c = CHR ''/'' \<or> of_char c = (0 :: nat)) s"

definition split_raw :: "js_string \<Rightarrow> js_string \<times> js_string" where
  "split_raw raw = (case json_parse raw of Some (JArr [JStr n, JStr k]) \<Rightarrow> (n, k) | _ \<Rightarrow> ([], []))"

text \<open>The files an export writes; \<open>recordFile\<close> may leave a row out.\<close>

fun exported_files ::
    "(js_string \<Rightarrow> js_string \<Rightarrow> js_string option) \<Rightarrow> (js_string \<Rightarrow> bool) \<Rightarrow> rows \<Rightarrow> folder \<Rightarrow> folder option" where
  "exported_files recordFile isRecordFile [] out = Some out"
| "exported_files recordFile isRecordFile ((raw, v) # rows) out =
     (case (case split_raw raw of (n, k) \<Rightarrow> recordFile n k) of
        None \<Rightarrow> exported_files recordFile isRecordFile rows out
      | Some name \<Rightarrow>
          if invalid_name_char name \<or> \<not> isRecordFile name \<or> omap_get out name \<noteq> None then None
          else exported_files recordFile isRecordFile rows (omap_set name v out))"

definition proof_json :: "js_string \<Rightarrow> js_string \<Rightarrow> json" where
  "proof_json archive digest = JObj [(''version'', JNum (show_int 1)), (''archive'', JStr archive), (''sha256'', JStr digest)]"

definition export_actions ::
    "(bytes \<Rightarrow> js_string) \<Rightarrow> js_string \<Rightarrow> js_string \<Rightarrow> (js_string \<Rightarrow> bool) \<Rightarrow> folder \<Rightarrow> bytes \<Rightarrow> folder \<Rightarrow> fs_action list" where
  "export_actions sha256 snapshotName archive isRecordFile out snapshot d =
     map (\<lambda>(name, v). PutFile name v) out @
     map RemoveFile (filter (\<lambda>name. isRecordFile name \<and> omap_get out name = None) (map fst d)) @
     [SyncDir,
      PutFile (rollbackProofName snapshotName) (utf8Encode (stringify (proof_json archive (sha256 snapshot)))),
      SyncDir, MoveFile snapshotName archive, SyncDir]"

definition is_lower_hex :: "char \<Rightarrow> bool" where
  "is_lower_hex c \<longleftrightarrow> is_digit c \<or> (97 \<le> (of_char c :: nat) \<and> (of_char c :: nat) \<le> 102)"

text \<open>
  \<open>verifyRollbackProof\<close>, as the truth of not throwing. The version is compared with the number 1
  in the form the exporter prints.
\<close>

definition verifyRollbackProof :: "(bytes \<Rightarrow> js_string) \<Rightarrow> js_string \<Rightarrow> folder \<Rightarrow> bool" where
  "verifyRollbackProof sha256 snapshotName d =
     (case omap_get d (rollbackProofName snapshotName) of None \<Rightarrow> False | Some file \<Rightarrow>
      (case decode_json file of Inl e \<Rightarrow> False | Inr pf \<Rightarrow>
       (case (jget pf ''version'', jget pf ''archive'', jget pf ''sha256'') of
          (Some (JNum ver), Some (JStr archive), Some (JStr digest)) \<Rightarrow>
            ver = ''1'' \<and> \<not> invalid_name_char archive \<and> starts_with archive (snapshotName @ ''.rollback-'') \<and>
            length digest = 64 \<and> list_all is_lower_hex digest \<and>
            (case omap_get d archive of None \<Rightarrow> False | Some file \<Rightarrow> sha256 file = digest)
        | _ \<Rightarrow> False)))"

definition archiveName :: "js_string \<Rightarrow> js_string \<Rightarrow> js_string" where
  "archiveName snapshotName uuid = snapshotName @ ''.rollback-'' @ uuid"

text \<open>\<open>exportAuthSnapshot\<close>, stopping after \<open>stop_at\<close> actions.\<close>

definition exportAuthSnapshot ::
    "(bytes \<Rightarrow> js_string) \<Rightarrow> js_string \<Rightarrow> js_string set \<Rightarrow> (js_string \<Rightarrow> js_string \<Rightarrow> js_string option) \<Rightarrow> (js_string \<Rightarrow> bool)
      \<Rightarrow> js_string \<Rightarrow> nat \<Rightarrow> folder \<Rightarrow> bool \<times> folder" where
  "exportAuthSnapshot sha256 snapshotName ns recordFile isRecordFile uuid stop_at d =
     (case omap_get d snapshotName of
        None \<Rightarrow> (verifyRollbackProof sha256 snapshotName d, d)
      | Some snapshot \<Rightarrow>
          (case parse_snapshot ns snapshot of
             Inl e \<Rightarrow> (False, d)
           | Inr rows \<Rightarrow>
               (case exported_files recordFile isRecordFile rows [] of
                  None \<Rightarrow> (False, d)
                | Some out \<Rightarrow>
                    (let acts = export_actions sha256 snapshotName (archiveName snapshotName uuid) isRecordFile out snapshot d
                     in (length acts \<le> stop_at, run_actions (take stop_at acts) d)))))"

definition BRIDGE_SNAPSHOT :: js_string where
  "BRIDGE_SNAPSHOT = ''bridge-atomic-v1.json''"

definition prepareNativeAuthRollback :: "(bytes \<Rightarrow> js_string) \<Rightarrow> bool \<Rightarrow> js_string \<Rightarrow> nat \<Rightarrow> folder \<Rightarrow> bool \<times> folder" where
  "prepareNativeAuthRollback sha256 offline uuid stop_at d =
     (if \<not> offline then (False, d)
      else exportAuthSnapshot sha256 BRIDGE_SNAPSHOT nativeAtomicNamespaces (\<lambda>n k. Some (fileName n k))
             isNativeAtomicRecordFile uuid stop_at d)"

subsection \<open>Transactions are atomic\<close>

definition tmpName :: "js_string \<Rightarrow> js_string \<Rightarrow> js_string" where
  "tmpName snapshotName uuid = snapshotName @ CHR ''.'' # uuid @ ''.tmp''"

lemma file_store_bridge: "file_store (BRIDGE_SNAPSHOT @ x) = ''bridge''"
  by (simp add: file_store_def BRIDGE_SNAPSHOT_def js_indexOf_def)

lemma file_store_hidden: "file_store (rollbackProofName BRIDGE_SNAPSHOT) = ''.bridge''"
  by (simp add: file_store_def BRIDGE_SNAPSHOT_def rollbackProofName_def js_indexOf_def)

lemma not_records [simp]:
  "\<not> isNativeAtomicRecordFile BRIDGE_SNAPSHOT" "\<not> isNativeAtomicRecordFile (tmpName BRIDGE_SNAPSHOT uuid)"
  "\<not> isNativeAtomicRecordFile (archiveName BRIDGE_SNAPSHOT uuid)"
  "\<not> isNativeAtomicRecordFile (rollbackProofName BRIDGE_SNAPSHOT)"
  using file_store_bridge [of "[]"] file_store_bridge file_store_hidden
  by (simp_all add: isNativeAtomicRecordFile_def tmpName_def archiveName_def nativeAtomicNamespaces_def)

lemma tmp_differs:
  "tmpName BRIDGE_SNAPSHOT uuid \<noteq> BRIDGE_SNAPSHOT" "tmpName BRIDGE_SNAPSHOT uuid \<noteq> rollbackProofName BRIDGE_SNAPSHOT"
  by (simp_all add: tmpName_def rollbackProofName_def BRIDGE_SNAPSHOT_def)

lemma filter_set_other: "\<not> P k \<Longrightarrow> filter (\<lambda>x. P (fst x)) (omap_set k v m) = filter (\<lambda>x. P (fst x)) m"
  by (induction m) auto

lemma filter_del_other: "\<not> P k \<Longrightarrow> filter (\<lambda>x. P (fst x)) (omap_del k m) = filter (\<lambda>x. P (fst x)) m"
  by (induction m) auto

lemma import_filter: "import_files fs rows = import_files (filter (\<lambda>x. isNativeAtomicRecordFile (fst x)) fs) rows"
proof (induction fs arbitrary: rows)
  case (Cons x fs)
  obtain f v where x: "x = (f, v)" by (cases x)
  show ?case
  proof (cases "isNativeAtomicRecordFile f")
    case True
    then show ?thesis using Cons.IH by (simp add: x Let_def split: option.split)
  next
    case False
    then show ?thesis using Cons.IH import_skips [OF False] by (simp add: x del: import_files.simps)
  qed
qed simp

text \<open>Actions on files that are no records do not change what an import reads.\<close>

fun action_names :: "fs_action \<Rightarrow> js_string set" where
  "action_names (PutFile name v) = {name}"
| "action_names (RemoveFile name) = {name}"
| "action_names (MoveFile a b) = {a, b}"
| "action_names SyncDir = {}"

lemma actions_keep_filter:
  assumes "\<forall>a \<in> set acts. \<forall>n \<in> action_names a. \<not> P n"
  shows "filter (\<lambda>x. P (fst x)) (run_actions acts d) = filter (\<lambda>x. P (fst x)) d"
  using assms
proof (induction acts arbitrary: d)
  case (Cons a acts)
  have "filter (\<lambda>x. P (fst x)) (apply_action a d) = filter (\<lambda>x. P (fst x)) d"
    using Cons.prems by (cases a) (auto simp: filter_set_other filter_del_other split: option.split)
  with Cons show ?case by simp
qed simp

lemma actions_keep_file:
  "\<forall>a \<in> set acts. x \<notin> action_names a \<Longrightarrow> omap_get (run_actions acts d) x = omap_get d x"
proof (induction acts arbitrary: d)
  case (Cons a acts)
  have "omap_get (apply_action a d) x = omap_get d x"
    using Cons.prems by (cases a) (auto simp: omap_simps split: option.split)
  with Cons show ?case by simp
qed simp

lemma actions_ok: "omap_ok d \<Longrightarrow> omap_ok (run_actions acts d)"
proof (induction acts arbitrary: d)
  case (Cons a acts)
  have "omap_ok (apply_action a d)" using Cons.prems by (cases a) (auto split: option.split)
  with Cons show ?case by simp
qed simp

lemma persist_keeps_import:
  assumes "persist BRIDGE_SNAPSHOT (tmpName BRIDGE_SNAPSHOT uuid) j crash rows d = (fin, d1)"
  shows "importRows d1 = importRows d"
proof -
  let ?acts = "persist_actions BRIDGE_SNAPSHOT (tmpName BRIDGE_SNAPSHOT uuid) rows d"
  have "\<forall>a \<in> set (take j ?acts). \<forall>n \<in> action_names a. \<not> isNativeAtomicRecordFile n"
    by (auto simp: persist_actions_def clearRollbackProof_def dest!: in_set_takeD split: if_splits)
  then have "filter (\<lambda>x. isNativeAtomicRecordFile (fst x)) d1 = filter (\<lambda>x. isNativeAtomicRecordFile (fst x)) d"
    using assms actions_keep_filter by (auto simp: persist_def Let_def filter_del_other)
  then show ?thesis unfolding importRows_def by (metis import_filter)
qed

text \<open>
  C19: a transaction on the bridge snapshot, stopped by an error or a crash after any of its file
  actions, leaves a folder that reads as the rows before or the rows after it, and reads as the rows
  after it when it resolved. Whenever the snapshot file changed, the completion proof of an older
  rollback is gone.
\<close>

theorem snapshot_transaction_atomic:
  assumes "snapshot_transaction nativeAtomicNamespaces BRIDGE_SNAPSHOT importRows change (tmpName BRIDGE_SNAPSHOT uuid) j crash d = (err, d1)"
    and "readRows nativeAtomicNamespaces BRIDGE_SNAPSHOT importRows d = Inr rows"
    and "\<forall>rows'. change rows = Inr rows' \<longrightarrow> rows_ok nativeAtomicNamespaces rows'"
  shows "(case change rows of
      Inl e \<Rightarrow> err = Some (RowError e) \<and> d1 = d
    | Inr rows' \<Rightarrow>
        readRows nativeAtomicNamespaces BRIDGE_SNAPSHOT importRows d1 \<in> {Inr rows, Inr rows'} \<and>
        (err = None \<longrightarrow> readRows nativeAtomicNamespaces BRIDGE_SNAPSHOT importRows d1 = Inr rows')) \<and>
    (omap_get d1 BRIDGE_SNAPSHOT \<noteq> omap_get d BRIDGE_SNAPSHOT \<longrightarrow> omap_get d1 (rollbackProofName BRIDGE_SNAPSHOT) = None)"
proof (cases "change rows")
  case (Inl e)
  then show ?thesis using assms(1,2) by (simp add: snapshot_transaction_def)
next
  case (Inr rows')
  obtain fin d2 where p: "persist BRIDGE_SNAPSHOT (tmpName BRIDGE_SNAPSHOT uuid) j crash rows' d = (fin, d2)"
    by fastforce
  then have d1: "d1 = d2" "err = (if fin then None else Some IoFailure)"
    using assms(1,2) Inr by (simp_all add: snapshot_transaction_def)
  note prefix = persist_prefix(1,2) [OF p tmp_differs]
  have "rows_ok nativeAtomicNamespaces rows'" using assms(3) Inr by blast
  then have new: "parse_snapshot nativeAtomicNamespaces (snapshot_bytes rows') = Inr rows'" by (rule parse_print_snapshot)
  have same: "readRows nativeAtomicNamespaces BRIDGE_SNAPSHOT importRows d1 = Inr rows"
    if "omap_get d1 BRIDGE_SNAPSHOT = omap_get d BRIDGE_SNAPSHOT"
    using assms(2) that persist_keeps_import [OF p] d1(1) by (simp add: readRows_def split: option.splits)
  show ?thesis
    using prefix same new d1 by (auto simp: Inr readRows_def)
qed

theorem snapshot_transaction_atomic_witness:
  "readRows nativeAtomicNamespaces BRIDGE_SNAPSHOT importRows
     (snd (snapshot_transaction nativeAtomicNamespaces BRIDGE_SNAPSHOT importRows (\<lambda>rows. Inr (omap_set (rowKey ''meta'' ''k'') [1] rows))
        (tmpName BRIDGE_SNAPSHOT ''u'') 1 True [])) \<in> {Inr [], Inr [(rowKey ''meta'' ''k'', [1])]}"
proof -
  let ?change = "\<lambda>rows. Inr (omap_set (rowKey ''meta'' ''k'') [1] rows) :: store_error + rows"
  let ?t = "snapshot_transaction nativeAtomicNamespaces BRIDGE_SNAPSHOT importRows ?change (tmpName BRIDGE_SNAPSHOT ''u'') 1 True []"
  have "?t = (fst ?t, snd ?t)" by simp
  moreover have "readRows nativeAtomicNamespaces BRIDGE_SNAPSHOT importRows [] = Inr []"
    by (simp add: readRows_def importRows_def)
  moreover have "\<forall>rows'. ?change [] = Inr rows' \<longrightarrow> rows_ok nativeAtomicNamespaces rows'"
    by (auto simp: rows_ok_def omap_ok_def nativeAtomicNamespaces_def)
  ultimately show ?thesis using snapshot_transaction_atomic by fastforce
qed

subsection \<open>The export is complete or the snapshot still rules\<close>

definition safe_char :: "char \<Rightarrow> bool" where
  "safe_char c \<longleftrightarrow> of_char c \<noteq> (92 :: nat) \<and> c \<noteq> CHR ''/'' \<and> of_char c \<noteq> (0 :: nat)"

lemma invalid_iff: "invalid_name_char s \<longleftrightarrow> (\<exists>c \<in> set s. \<not> safe_char c)"
  by (auto simp: invalid_name_char_def list_ex_iff safe_char_def)

lemma safe_upper_hex: "i < 16 \<Longrightarrow> safe_char (upper_hex i)"
  by (rule below_all [of "\<lambda>i. safe_char (upper_hex i)" 16]) (code_simp, simp)

lemma safe_percent: "c \<in> set (percent b) \<Longrightarrow> safe_char c"
proof -
  have "unat b div 16 < 16 \<and> unat b mod 16 < 16"
    using unsigned_less [of b, where ?'a = nat] by (simp add: less_mult_imp_div_less)
  then have "safe_char (upper_hex (unat b div 16))" "safe_char (upper_hex (unat b mod 16))"
    by (simp_all add: safe_upper_hex)
  moreover have "safe_char (CHR ''%'')" by (simp add: safe_char_def)
  moreover assume "c \<in> set (percent b)"
  ultimately show ?thesis by (auto simp: percent_def)
qed

lemma safe_uri: "c \<in> set (encodeURIComponent k) \<Longrightarrow> safe_char c"
proof -
  have "uri_unreserved d \<Longrightarrow> safe_char d" for d by (auto simp: uri_unreserved_def safe_char_def Let_def)
  moreover assume "c \<in> set (encodeURIComponent k)"
  ultimately show ?thesis by (auto simp: encodeURIComponent_def uri_char_def dest: safe_percent split: if_splits)
qed

lemma fileName_valid: "n \<in> nativeAtomicNamespaces \<Longrightarrow> \<not> invalid_name_char (fileName n k)"
proof -
  assume "n \<in> nativeAtomicNamespaces"
  then have "list_all safe_char n" by (auto simp: nativeAtomicNamespaces_def safe_char_def)
  moreover have "list_all safe_char ''-.bin''" by (simp add: safe_char_def)
  ultimately show ?thesis by (auto simp: invalid_iff fileName_def list_all_iff dest: safe_uri)
qed

lemma split_raw_key: "split_raw (rowKey n k) = (n, k)"
  by (simp add: split_raw_def rowKey_parse)

definition native_file :: "js_string \<Rightarrow> bool" where
  "native_file f \<longleftrightarrow> (\<exists>n k. n \<in> nativeAtomicNamespaces \<and> f = fileName n k)"

lemma exported_result:
  assumes "rows_ok nativeAtomicNamespaces rows" and "omap_ok out" and "\<forall>f \<in> fst ` set out. native_file f"
    and "\<forall>n k. n \<in> nativeAtomicNamespaces \<longrightarrow> omap_get rows (rowKey n k) \<noteq> None \<longrightarrow> omap_get out (fileName n k) = None"
  shows "\<exists>out'. exported_files (\<lambda>n k. Some (fileName n k)) isNativeAtomicRecordFile rows out = Some out' \<and> omap_ok out' \<and>
    (\<forall>f \<in> fst ` set out'. native_file f) \<and>
    (\<forall>n k. n \<in> nativeAtomicNamespaces \<longrightarrow> omap_get out' (fileName n k) =
       (case omap_get rows (rowKey n k) of Some v \<Rightarrow> Some v | None \<Rightarrow> omap_get out (fileName n k)))"
  using assms
proof (induction rows arbitrary: out)
  case (Cons x rows)
  obtain raw v where x: "x = (raw, v)" by (cases x)
  obtain n k where raw: "raw = rowKey n k" "n \<in> nativeAtomicNamespaces"
    using Cons.prems(1) x by (auto simp: rows_ok_def)
  have fresh: "omap_get out (fileName n k) = None" using Cons.prems(4) raw x by simp
  have absent: "omap_get rows (rowKey n k) = None"
    using Cons.prems(1) x raw by (auto simp: rows_ok_def omap_ok_def map_of_eq_None_iff)
  have other: "n' \<in> nativeAtomicNamespaces \<Longrightarrow> fileName n' k' = fileName n k \<longleftrightarrow> n' = n \<and> k' = k" for n' k'
    using fileName_inj native_names raw(2) by blast
  let ?out = "omap_set (fileName n k) v out"
  have step: "exported_files (\<lambda>n k. Some (fileName n k)) isNativeAtomicRecordFile (x # rows) out =
      exported_files (\<lambda>n k. Some (fileName n k)) isNativeAtomicRecordFile rows ?out"
    using fresh fileName_valid [OF raw(2)] fileName_is_record [OF raw(2)] by (simp add: x raw split_raw_key)
  have p1: "rows_ok nativeAtomicNamespaces rows" using Cons.prems(1) by (auto simp: rows_ok_def omap_ok_def)
  have p2: "omap_ok ?out" using Cons.prems(2) by simp
  have p3: "\<forall>f \<in> fst ` set ?out. native_file f"
    using Cons.prems(3) raw(2) by (auto simp: set_absent_append [OF fresh] native_file_def)
  have p4: "omap_get ?out (fileName n' k') = None"
    if "n' \<in> nativeAtomicNamespaces" "omap_get rows (rowKey n' k') \<noteq> None" for n' k'
  proof -
    have "\<not> (n' = n \<and> k' = k)" using that(2) absent by auto
    moreover have "omap_get (x # rows) (rowKey n' k') \<noteq> None" using that(2) by (simp add: x)
    ultimately show ?thesis using Cons.prems(4) other [OF that(1), of k'] that(1) by (simp add: omap_get_set)
  qed
  obtain out' where o: "exported_files (\<lambda>n k. Some (fileName n k)) isNativeAtomicRecordFile rows ?out = Some out'"
    "omap_ok out'" "\<forall>f \<in> fst ` set out'. native_file f"
    "\<forall>n' k'. n' \<in> nativeAtomicNamespaces \<longrightarrow> omap_get out' (fileName n' k') =
      (case omap_get rows (rowKey n' k') of Some v \<Rightarrow> Some v | None \<Rightarrow> omap_get ?out (fileName n' k'))"
    using Cons.IH [OF p1 p2 p3] p4 by blast
  have "omap_get out' (fileName n' k') =
      (case omap_get (x # rows) (rowKey n' k') of Some v \<Rightarrow> Some v | None \<Rightarrow> omap_get out (fileName n' k'))"
    if "n' \<in> nativeAtomicNamespaces" for n' k'
  proof (cases "n' = n \<and> k' = k")
    case True
    then show ?thesis using o(4) raw(2) absent by (simp add: omap_get_set x raw(1))
  next
    case False
    then have "omap_get ?out (fileName n' k') = omap_get out (fileName n' k')"
      and "omap_get (x # rows) (rowKey n' k') = omap_get rows (rowKey n' k')"
      using other [OF that, of k'] by (auto simp: omap_get_set x raw(1) rowKey_eq)
    then show ?thesis using o(4) that by (simp split: option.split)
  qed
  with step o(1-3) show ?case by auto
qed simp

lemma run_puts: "omap_ok out \<Longrightarrow>
  omap_get (run_actions (map (\<lambda>(name, v). PutFile name v) out) d) x =
    (case omap_get out x of Some v \<Rightarrow> Some v | None \<Rightarrow> omap_get d x)"
proof (induction out arbitrary: d)
  case (Cons p out)
  obtain name v where p: "p = (name, v)" by (cases p)
  have "omap_get out name = None" using Cons.prems p by (auto simp: omap_ok_def map_of_eq_None_iff)
  then show ?case using Cons by (auto simp: p omap_simps omap_ok_def split: option.split)
qed simp

lemma run_removes:
  "omap_get (run_actions (map RemoveFile names) d) x = (if x \<in> set names then None else omap_get d x)"
  by (induction names arbitrary: d) (auto simp: omap_simps)

definition good_digest :: "(bytes \<Rightarrow> js_string) \<Rightarrow> bool" where
  "good_digest sha256 \<longleftrightarrow> (\<forall>b. length (sha256 b) = 64 \<and> list_all is_lower_hex (sha256 b))"

text \<open>A folder in which the export finished.\<close>

definition exported :: "(bytes \<Rightarrow> js_string) \<Rightarrow> rows \<Rightarrow> folder \<Rightarrow> bool" where
  "exported sha256 rows d \<longleftrightarrow>
     omap_get d BRIDGE_SNAPSHOT = None \<and> verifyRollbackProof sha256 BRIDGE_SNAPSHOT d \<and>
     (\<forall>n k. n \<in> nativeAtomicNamespaces \<longrightarrow> omap_get d (fileName n k) = omap_get rows (rowKey n k)) \<and>
     (\<exists>rows'. readRows nativeAtomicNamespaces BRIDGE_SNAPSHOT importRows d = Inr rows' \<and>
       (\<forall>n k. n \<in> nativeAtomicNamespaces \<longrightarrow> omap_get rows' (rowKey n k) = omap_get rows (rowKey n k)))"

lemma proof_accepted:
  assumes "good_digest sha256" and "\<not> invalid_name_char uuid"
    and "omap_get d (rollbackProofName BRIDGE_SNAPSHOT) =
      Some (utf8Encode (stringify (proof_json (archiveName BRIDGE_SNAPSHOT uuid) (sha256 snapshot))))"
    and "omap_get d (archiveName BRIDGE_SNAPSHOT uuid) = Some snapshot"
  shows "verifyRollbackProof sha256 BRIDGE_SNAPSHOT d"
proof -
  let ?pf = "proof_json (archiveName BRIDGE_SNAPSHOT uuid) (sha256 snapshot)"
  have "json_wf ?pf" by (simp add: proof_json_def)
  then have "decode_json (utf8Encode (stringify ?pf)) = Inr ?pf"
    using decode_encode_json [of ?pf] by (simp add: encode_json_def)
  moreover have "jget ?pf ''version'' = Some (JNum (show_int 1))" "jget ?pf ''sha256'' = Some (JStr (sha256 snapshot))"
    "jget ?pf ''archive'' = Some (JStr (archiveName BRIDGE_SNAPSHOT uuid))"
    by (simp_all add: proof_json_def)
  moreover have "show_int 1 = ''1''" by (simp add: show_int_def show_nat.simps [of "Suc 0"] char_of_eq_iff)
  moreover have "\<not> invalid_name_char (archiveName BRIDGE_SNAPSHOT uuid)"
    using assms(2) by (simp add: invalid_name_char_def archiveName_def BRIDGE_SNAPSHOT_def)
  moreover have "starts_with (archiveName BRIDGE_SNAPSHOT uuid) (BRIDGE_SNAPSHOT @ ''.rollback-'')"
    by (simp add: starts_with_iff archiveName_def)
  ultimately show ?thesis
    using assms(1,3,4) by (simp add: verifyRollbackProof_def good_digest_def)
qed

lemma export_effect:
  fixes d :: folder and out :: folder and snapshot :: bytes and sha256 :: "bytes \<Rightarrow> js_string" and uuid :: js_string
  defines "acts \<equiv> export_actions sha256 BRIDGE_SNAPSHOT (archiveName BRIDGE_SNAPSHOT uuid) isNativeAtomicRecordFile out snapshot d"
  assumes "omap_ok out" and "\<forall>f \<in> fst ` set out. native_file f" and "omap_get d BRIDGE_SNAPSHOT = Some snapshot"
  shows "j + 2 \<le> length acts \<Longrightarrow> omap_get (run_actions (take j acts) d) BRIDGE_SNAPSHOT = Some snapshot"
    and "length acts < j + 2 \<Longrightarrow>
      omap_get (run_actions (take j acts) d) BRIDGE_SNAPSHOT = None \<and>
      omap_get (run_actions (take j acts) d) (archiveName BRIDGE_SNAPSHOT uuid) = Some snapshot \<and>
      omap_get (run_actions (take j acts) d) (rollbackProofName BRIDGE_SNAPSHOT) =
        Some (utf8Encode (stringify (proof_json (archiveName BRIDGE_SNAPSHOT uuid) (sha256 snapshot)))) \<and>
      (\<forall>f. isNativeAtomicRecordFile f \<longrightarrow> omap_get (run_actions (take j acts) d) f = omap_get out f)"
proof -
  let ?archive = "archiveName BRIDGE_SNAPSHOT uuid" and ?proof = "rollbackProofName BRIDGE_SNAPSHOT"
  let ?pf = "utf8Encode (stringify (proof_json ?archive (sha256 snapshot)))"
  define puts where "puts = map (\<lambda>(name, v). PutFile name v) out"
  define gone where "gone = filter (\<lambda>name. isNativeAtomicRecordFile name \<and> omap_get out name = None) (map fst d)"
  define first where "first = puts @ map RemoveFile gone @ [SyncDir, PutFile ?proof ?pf, SyncDir]"
  have acts: "acts = first @ [MoveFile BRIDGE_SNAPSHOT ?archive, SyncDir]"
    by (simp add: acts_def export_actions_def first_def puts_def gone_def)
  have rec: "isNativeAtomicRecordFile f" if "f \<in> fst ` set out" for f
    using assms(3) that fileName_is_record by (auto simp: native_file_def)
  have names: "?proof \<noteq> BRIDGE_SNAPSHOT" "?archive \<noteq> BRIDGE_SNAPSHOT" "?archive \<noteq> ?proof"
    by (simp_all add: archiveName_def rollbackProofName_def BRIDGE_SNAPSHOT_def)
  have untouched: "\<forall>a \<in> set first. BRIDGE_SNAPSHOT \<notin> action_names a"
  proof -
    have "BRIDGE_SNAPSHOT \<notin> fst ` set out" using rec not_records(1) by blast
    then show ?thesis using names(1) not_records(1) by (force simp: first_def puts_def gone_def)
  qed
  show "omap_get (run_actions (take j acts) d) BRIDGE_SNAPSHOT = Some snapshot" if "j + 2 \<le> length acts"
  proof -
    have "take j acts = take j first" using that by (simp add: acts)
    moreover have "\<forall>a \<in> set (take j first). BRIDGE_SNAPSHOT \<notin> action_names a"
      using untouched by (auto dest: in_set_takeD)
    ultimately show ?thesis using actions_keep_file assms(4) by metis
  qed
  define e where "e = run_actions first d"
  have e_snap: "omap_get e BRIDGE_SNAPSHOT = Some snapshot"
    unfolding e_def using actions_keep_file [OF untouched] assms(4) by metis
  have e_proof: "omap_get e ?proof = Some ?pf" by (simp add: e_def first_def omap_simps)
  have e_rec: "omap_get e f = omap_get out f" if "isNativeAtomicRecordFile f" for f
  proof -
    have "f \<noteq> ?proof" using that not_records(4) by blast
    then have "omap_get e f = omap_get (run_actions (map RemoveFile gone) (run_actions puts d)) f"
      by (simp add: e_def first_def omap_simps)
    also have "... = (if f \<in> set gone then None else (case omap_get out f of Some v \<Rightarrow> Some v | None \<Rightarrow> omap_get d f))"
      unfolding run_removes puts_def run_puts [OF assms(2)] ..
    finally show ?thesis using that map_of_eq_None_iff [of d f] by (auto simp: gone_def split: option.splits)
  qed
  define m where "m = apply_action (MoveFile BRIDGE_SNAPSHOT ?archive) e"
  have m: "omap_get m x = (if x = ?archive then Some snapshot else if x = BRIDGE_SNAPSHOT then None else omap_get e x)" for x
    using e_snap names by (auto simp: m_def omap_simps)
  show "omap_get (run_actions (take j acts) d) BRIDGE_SNAPSHOT = None \<and>
      omap_get (run_actions (take j acts) d) ?archive = Some snapshot \<and>
      omap_get (run_actions (take j acts) d) ?proof = Some ?pf \<and>
      (\<forall>f. isNativeAtomicRecordFile f \<longrightarrow> omap_get (run_actions (take j acts) d) f = omap_get out f)"
    if "length acts < j + 2"
  proof -
    have "j \<ge> length first + 1" using that by (simp add: acts)
    then have "j - length first = 1 \<or> j - length first \<ge> 2" and "take j first = first" by (auto simp: Suc_le_eq)
    then have "run_actions (take j acts) d = m"
      by (auto simp: acts e_def [symmetric] m_def take_Cons')
    moreover have "f \<noteq> ?archive \<and> f \<noteq> BRIDGE_SNAPSHOT" if "isNativeAtomicRecordFile f" for f
      using that not_records(1,3) by blast
    ultimately show ?thesis using m e_proof e_rec names by auto
  qed
qed



subsection \<open>The routing of the transactional file store\<close>

text \<open>
  \<open>transactional-file-store.ts\<close>: the atomic namespaces live in the snapshot rows, everything else in
  the ordinary file store. Without faults the whole is again a key-value store.
\<close>

record file_store_state =
  atomic_part :: rows
  ordinary :: bridge

definition fs_get :: "file_store_state \<Rightarrow> js_string \<Rightarrow> js_string \<Rightarrow> bytes option" where
  "fs_get s n k =
     (if n \<in> nativeAtomicNamespaces then omap_get (atomic_part s) (rowKey n k) else content (ordinary s) n k)"

definition fs_set :: "js_string \<Rightarrow> js_string \<Rightarrow> bytes \<Rightarrow> file_store_state \<Rightarrow> file_store_state" where
  "fs_set n k v s =
     (if n \<in> nativeAtomicNamespaces then s\<lparr>atomic_part := omap_set (rowKey n k) v (atomic_part s)\<rparr>
      else s\<lparr>ordinary := bridge_put n k v (ordinary s)\<rparr>)"

definition fs_delete :: "js_string \<Rightarrow> js_string \<Rightarrow> file_store_state \<Rightarrow> file_store_state" where
  "fs_delete n k s =
     (if n \<in> nativeAtomicNamespaces then s\<lparr>atomic_part := omap_del (rowKey n k) (atomic_part s)\<rparr>
      else s\<lparr>ordinary := bridge_remove n k (ordinary s)\<rparr>)"

definition rows_setMany :: "js_string \<Rightarrow> (js_string \<times> bytes) list \<Rightarrow> rows \<Rightarrow> rows" where
  "rows_setMany n entries rows = fold (\<lambda>(k, v). omap_set (rowKey n k) v) entries rows"

definition rows_deleteMany :: "js_string \<Rightarrow> js_string list \<Rightarrow> rows \<Rightarrow> rows" where
  "rows_deleteMany n keys rows = fold (\<lambda>k. omap_del (rowKey n k)) keys rows"

definition rows_getMany :: "js_string \<Rightarrow> js_string list \<Rightarrow> rows \<Rightarrow> (js_string \<times> bytes) list" where
  "rows_getMany n keys rows =
     concat (map (\<lambda>k. case omap_get rows (rowKey n k) of Some v \<Rightarrow> [(k, v)] | None \<Rightarrow> []) keys)"

definition rows_list :: "js_string \<Rightarrow> js_string \<Rightarrow> rows \<Rightarrow> (js_string \<times> bytes) list" where
  "rows_list n prefix rows =
     concat (map (\<lambda>(raw, v). case split_raw raw of (m, k) \<Rightarrow> if m = n \<and> starts_with k prefix then [(k, v)] else []) rows)"

definition rows_deletePrefix :: "js_string \<Rightarrow> js_string \<Rightarrow> rows \<Rightarrow> nat \<times> rows" where
  "rows_deletePrefix n prefix rows =
     (let entries = rows_list n prefix rows in (length entries, fold (\<lambda>(k, v). omap_del (rowKey n k)) entries rows))"

definition file_store_ok :: "file_store_state \<Rightarrow> bool" where
  "file_store_ok s \<longleftrightarrow> rows_ok nativeAtomicNamespaces (atomic_part s) \<and> bridge_ok (ordinary s)"

lemma keys_set: "fst ` set (omap_set k v m) = insert k (fst ` set m)"
  by (induction m) auto

lemma rows_ok_set: "rows_ok ns rows \<Longrightarrow> n \<in> ns \<Longrightarrow> rows_ok ns (omap_set (rowKey n k) v rows)"
  unfolding rows_ok_def keys_set by auto

lemma rows_ok_del: "rows_ok ns rows \<Longrightarrow> rows_ok ns (omap_del raw rows)"
  unfolding rows_ok_def keys_del by auto

interpretation filestore: kv_store fs_get fs_set fs_delete file_store_ok store_name
proof
  fix s n k v n' k'
  assume s: "file_store_ok s" and n: "store_name n"
  have b: "bridge_ok (ordinary s)" and r: "rows_ok nativeAtomicNamespaces (atomic_part s)"
    using s by (simp_all add: file_store_ok_def)
  show "file_store_ok (fs_set n k v s)"
    using rows_ok_set [OF r] bridge.put_ok [OF b n] b r by (simp add: file_store_ok_def fs_set_def)
  show "file_store_ok (fs_delete n k s)"
    using rows_ok_del [OF r] bridge.remove_ok [OF b n] b r by (simp add: file_store_ok_def fs_delete_def)
  assume n': "store_name n'"
  show "fs_get (fs_set n k v s) n' k' = (if n' = n \<and> k' = k then Some v else fs_get s n' k')"
    using bridge.lookup_put [OF b n n', of k v k'] by (auto simp: fs_get_def fs_set_def omap_simps rowKey_eq)
  show "fs_get (fs_delete n k s) n' k' = (if n' = n \<and> k' = k then None else fs_get s n' k')"
    using bridge.lookup_remove [OF b n n', of k k'] by (auto simp: fs_get_def fs_delete_def omap_simps rowKey_eq)
qed

lemma rows_list_result:
  assumes "rows_ok ns rows"
  shows "distinct (map fst (rows_list n prefix rows))"
    and "(k, v) \<in> set (rows_list n prefix rows) \<longleftrightarrow> omap_get rows (rowKey n k) = Some v \<and> starts_with k prefix"
proof -
  have "distinct (map fst (rows_list n prefix rows)) \<and>
    (\<forall>k v. (k, v) \<in> set (rows_list n prefix rows) \<longleftrightarrow> omap_get rows (rowKey n k) = Some v \<and> starts_with k prefix)"
    using assms
  proof (induction rows)
    case (Cons x rows)
    obtain raw w where x: "x = (raw, w)" by (cases x)
    obtain m j where raw: "raw = rowKey m j" using Cons.prems x by (auto simp: rows_ok_def)
    have absent: "omap_get rows (rowKey m j) = None"
      using Cons.prems x raw by (auto simp: rows_ok_def omap_ok_def map_of_eq_None_iff)
    have "rows_ok ns rows" using Cons.prems by (auto simp: rows_ok_def omap_ok_def)
    then have IH: "distinct (map fst (rows_list n prefix rows))"
      "(k, v) \<in> set (rows_list n prefix rows) \<longleftrightarrow> omap_get rows (rowKey n k) = Some v \<and> starts_with k prefix" for k v
      using Cons.IH by auto
    have step: "rows_list n prefix (x # rows) = (if m = n \<and> starts_with j prefix then [(j, w)] else []) @ rows_list n prefix rows"
      by (simp add: rows_list_def x raw split_raw_key)
    show ?case
      unfolding step using IH absent by (auto simp: x raw rowKey_eq split: if_splits)
  qed (simp add: rows_list_def)
  then show "distinct (map fst (rows_list n prefix rows))"
    "(k, v) \<in> set (rows_list n prefix rows) \<longleftrightarrow> omap_get rows (rowKey n k) = Some v \<and> starts_with k prefix" by blast+
qed

lemma fold_del_rows:
  "omap_get (fold (\<lambda>(k, v). omap_del (rowKey n k)) es rows) (rowKey m j) =
     (if m = n \<and> j \<in> fst ` set es then None else omap_get rows (rowKey m j))"
  by (induction es arbitrary: rows) (auto simp: omap_simps rowKey_eq)

lemma atomic_fold_set:
  "n \<in> nativeAtomicNamespaces \<Longrightarrow> atomic_part (fold (\<lambda>(k, v). fs_set n k v) kvs s) = rows_setMany n kvs (atomic_part s)"
  by (induction kvs arbitrary: s) (auto simp: rows_setMany_def fs_set_def)

lemma atomic_fold_delete:
  "n \<in> nativeAtomicNamespaces \<Longrightarrow> atomic_part (fold (fs_delete n) ks s) = rows_deleteMany n ks (atomic_part s)"
  by (induction ks arbitrary: s) (auto simp: rows_deleteMany_def fs_delete_def)



end
