(* ===== verification/ClientOwner.thy ===== *)
theory ClientOwner
  imports Prelude "HOL-Library.Multiset"
begin

text \<open>
  \<open>src/src/Socket/bridge-client-owner.ts\<close>: the lifetime of the bridge client. A client is a number;
  the calls of the interface and the continuations the runtime schedules (the microtask that starts
  the teardown, the settling of the teardown and of each release) are the steps. The state records
  the union of the source, how far the close has come, the releases in flight and, for the
  statements, the clients ever handed in and the calls made to \<open>teardown\<close> and \<open>release\<close>.
\<close>

type_synonym client = nat

datatype owner_phase = Starting | Running client | Closing "client option" | Closed

text \<open>How far \<open>runClose\<close> has come; the promise \<open>done\<close> has settled in \<open>CloseSettled\<close>.\<close>

datatype close_progress = NoClose | Deferred | TearingDown | Releasing client | Draining | CloseSettled

record owner =
  phase :: owner_phase
  progress :: close_progress
  captured :: "client option"
  teardown_failed :: bool
  pendingReleases :: "client list"
  handed_in :: "client list"
  release_calls :: "client list"
  teardown_calls :: "client option list"

definition new_owner :: owner where
  "new_owner = \<lparr>phase = Starting, progress = NoClose, captured = None, teardown_failed = False,
     pendingReleases = [], handed_in = [], release_calls = [], teardown_calls = []\<rparr>"

subsection \<open>The calls\<close>

definition peek :: "owner \<Rightarrow> client option" where
  "peek s = (case phase s of Running c \<Rightarrow> Some c | Closing c \<Rightarrow> c | _ \<Rightarrow> None)"

definition isClosing :: "owner \<Rightarrow> bool" where
  "isClosing s = (case phase s of Closing _ \<Rightarrow> True | Closed \<Rightarrow> True | _ \<Rightarrow> False)"

definition trackRelease :: "client \<Rightarrow> owner \<Rightarrow> owner" where
  "trackRelease c s = s\<lparr>pendingReleases := pendingReleases s @ [c], release_calls := release_calls s @ [c]\<rparr>"

definition adopt :: "client \<Rightarrow> owner \<Rightarrow> bool \<times> owner" where
  "adopt c s =
     (let s1 = s\<lparr>handed_in := handed_in s @ [c]\<rparr>
      in if phase s \<noteq> Starting then (False, trackRelease c s1)
         else (True, s1\<lparr>phase := Running c\<rparr>))"

text \<open>\<open>close()\<close>; a later call only joins the promise of the first.\<close>

definition close_owner :: "owner \<Rightarrow> owner" where
  "close_owner s =
     (case phase s of
        Closing _ \<Rightarrow> s
      | Closed \<Rightarrow> s
      | Starting \<Rightarrow> s\<lparr>phase := Closing None, captured := None, progress := Deferred\<rparr>
      | Running c \<Rightarrow> s\<lparr>phase := Closing (Some c), captured := Some c, progress := Deferred\<rparr>)"

definition discard :: "owner \<Rightarrow> owner" where
  "discard s =
     (case phase s of Running c \<Rightarrow> trackRelease c (s\<lparr>phase := Starting\<rparr>) | _ \<Rightarrow> s)"

subsection \<open>The continuations\<close>

text \<open>The microtask: \<open>runClose\<close> up to its first \<open>await\<close>, which calls the teardown.\<close>

definition run_close :: "owner \<Rightarrow> owner" where
  "run_close s = s\<lparr>progress := TearingDown, teardown_calls := teardown_calls s @ [captured s]\<rparr>"

text \<open>The \<open>finally\<close> block, entered when the teardown settles either way.\<close>

definition teardown_settles :: "bool \<Rightarrow> owner \<Rightarrow> owner" where
  "teardown_settles failed s =
     (let s1 = s\<lparr>phase := Closed, teardown_failed := failed\<rparr>
      in case captured s of
           Some c \<Rightarrow> s1\<lparr>progress := Releasing c, release_calls := release_calls s @ [c]\<rparr>
         | None \<Rightarrow> s1\<lparr>progress := Draining\<rparr>)"

definition own_release_settles :: "owner \<Rightarrow> owner" where
  "own_release_settles s = s\<lparr>progress := Draining\<rparr>"

definition tracked_release_settles :: "client \<Rightarrow> owner \<Rightarrow> owner" where
  "tracked_release_settles c s = s\<lparr>pendingReleases := remove1 c (pendingReleases s)\<rparr>"

definition drained :: "owner \<Rightarrow> owner" where
  "drained s = s\<lparr>progress := CloseSettled\<rparr>"

text \<open>Every client handed to \<open>adopt\<close> is a new one; a release may settle with an error, which is logged.\<close>

inductive owner_step :: "owner \<Rightarrow> owner \<Rightarrow> bool" where
  adopt: "c \<notin> set (handed_in s) \<Longrightarrow> owner_step s (snd (adopt c s))"
| close: "owner_step s (close_owner s)"
| discard: "owner_step s (discard s)"
| microtask: "progress s = Deferred \<Longrightarrow> owner_step s (run_close s)"
| teardown: "progress s = TearingDown \<Longrightarrow> owner_step s (teardown_settles failed s)"
| own_release: "progress s = Releasing c \<Longrightarrow> owner_step s (own_release_settles s)"
| tracked_release: "c \<in> set (pendingReleases s) \<Longrightarrow> owner_step s (tracked_release_settles c s)"
| drain: "progress s = Draining \<Longrightarrow> pendingReleases s = [] \<Longrightarrow> owner_step s (drained s)"

inductive_cases owner_stepE: "owner_step s t"

subsection \<open>The invariant\<close>

text \<open>The clients no release was started for yet.\<close>

definition held :: "owner \<Rightarrow> client list" where
  "held s =
     (case phase s of
        Running c \<Rightarrow> [c]
      | Closing c \<Rightarrow> (case c of Some x \<Rightarrow> [x] | None \<Rightarrow> [])
      | _ \<Rightarrow> [])"

fun owner_shape :: "owner_phase \<Rightarrow> close_progress \<Rightarrow> bool" where
  "owner_shape Starting p = (p = NoClose)"
| "owner_shape (Running c) p = (p = NoClose)"
| "owner_shape (Closing c) p = (p = Deferred \<or> p = TearingDown)"
| "owner_shape Closed p = (p = Draining \<or> p = CloseSettled \<or> (\<exists>c. p = Releasing c))"

definition owner_inv :: "owner \<Rightarrow> bool" where
  "owner_inv s \<longleftrightarrow>
     owner_shape (phase s) (progress s) \<and>
     distinct (handed_in s) \<and>
     mset (handed_in s) = mset (held s) + mset (release_calls s) \<and>
     (\<forall>c. phase s = Closing c \<longrightarrow> captured s = c) \<and>
     teardown_calls s = (if progress s = NoClose \<or> progress s = Deferred then [] else [captured s])"

lemma owner_inv_new: "owner_inv new_owner"
  by (simp add: owner_inv_def new_owner_def held_def)

lemma track_inv:
  assumes "owner_shape (phase s) (progress s)" and "distinct (handed_in s)"
    and "mset (handed_in s) = mset (held s) + mset (release_calls s) + {#c#}"
    and "\<forall>c. phase s = Closing c \<longrightarrow> captured s = c"
    and "teardown_calls s = (if progress s = NoClose \<or> progress s = Deferred then [] else [captured s])"
  shows "owner_inv (trackRelease c s)"
  using assms by (simp add: owner_inv_def trackRelease_def held_def)

lemma owner_step_inv: "owner_inv s \<Longrightarrow> owner_step s t \<Longrightarrow> owner_inv t"
proof -
  assume s: "owner_inv s" and st: "owner_step s t"
  have shape: "owner_shape (phase s) (progress s)" and dist: "distinct (handed_in s)"
    and bal: "mset (handed_in s) = mset (held s) + mset (release_calls s)"
    and cap: "\<And>c. phase s = Closing c \<Longrightarrow> captured s = c"
    and calls: "teardown_calls s = (if progress s = NoClose \<or> progress s = Deferred then [] else [captured s])"
    using s by (auto simp: owner_inv_def)
  from st show "owner_inv t"
  proof cases
    case (adopt c)
    show ?thesis
    proof (cases "phase s = Starting")
      case True
      then have "t = s\<lparr>handed_in := handed_in s @ [c], phase := Running c\<rparr>" using adopt(1) by (simp add: adopt_def Let_def)
      then show ?thesis using adopt(2) True shape dist bal calls by (simp add: owner_inv_def held_def)
    next
      case False
      then have "t = trackRelease c (s\<lparr>handed_in := handed_in s @ [c]\<rparr>)" using adopt(1) by (simp add: adopt_def Let_def)
      then show ?thesis using adopt(2) shape dist bal cap calls by (simp add: track_inv held_def)
    qed
  next
    case close
    then show ?thesis using s shape dist bal calls
      by (cases "phase s") (auto simp: close_owner_def owner_inv_def held_def)
  next
    case discard
    show ?thesis
    proof (cases "phase s")
      case (Running c)
      then have "t = trackRelease c (s\<lparr>phase := Starting\<rparr>)" using discard by (simp add: discard_def)
      then show ?thesis using Running shape dist bal calls by (simp add: track_inv held_def)
    qed (use discard s in \<open>simp_all add: discard_def\<close>)
  next
    case microtask
    then show ?thesis using shape dist bal cap calls
      by (cases "phase s") (auto simp: run_close_def owner_inv_def held_def)
  next
    case (teardown failed)
    then obtain c where c: "phase s = Closing c" "captured s = c" using shape cap by (cases "phase s") auto
    show ?thesis
    proof (cases c)
      case None
      then show ?thesis using teardown c dist bal calls
        by (simp add: teardown_settles_def owner_inv_def held_def Let_def)
    next
      case (Some x)
      then show ?thesis using teardown c dist bal calls
        by (simp add: teardown_settles_def owner_inv_def held_def Let_def)
    qed
  next
    case (own_release c)
    then show ?thesis using shape dist bal cap calls
      by (cases "phase s") (auto simp: own_release_settles_def owner_inv_def held_def)
  next
    case (tracked_release c)
    then show ?thesis using s by (simp add: tracked_release_settles_def owner_inv_def held_def)
  next
    case drain
    then show ?thesis using shape dist bal cap calls
      by (cases "phase s") (auto simp: drained_def owner_inv_def held_def)
  qed
qed

interpretation owner: transition_system "\<lambda>s. s = new_owner" owner_step owner_inv
  by unfold_locales (auto simp: owner_inv_new intro: owner_step_inv)

lemma client_released_exactly_once_parts:
  assumes "owner_step\<^sup>*\<^sup>* new_owner s"
  shows "distinct (release_calls s)"
    and "\<forall>c \<in> set (handed_in s). (c \<in> set (held s)) \<noteq> (c \<in> set (release_calls s))"
    and "length (teardown_calls s) \<le> 1"
    and "progress s = CloseSettled \<Longrightarrow>
      set (release_calls s) = set (handed_in s) \<and> teardown_calls s = [captured s] \<and> peek s = None"
proof -
  have inv: "owner_inv s" using assms by (rule owner.reach_holds [OF refl])
  then have bal: "mset (handed_in s) = mset (held s @ release_calls s)" and d: "distinct (handed_in s)"
    by (auto simp: owner_inv_def)
  have dd: "distinct (held s @ release_calls s)" using mset_eq_imp_distinct_iff [OF bal] d by simp
  have sets: "set (handed_in s) = set (held s) \<union> set (release_calls s)"
    using mset_eq_setD [OF bal] by simp
  show "distinct (release_calls s)" using dd by simp
  show "\<forall>c \<in> set (handed_in s). (c \<in> set (held s)) \<noteq> (c \<in> set (release_calls s))"
    using dd sets by auto
  show "length (teardown_calls s) \<le> 1" using inv by (auto simp: owner_inv_def)
  show "set (release_calls s) = set (handed_in s) \<and> teardown_calls s = [captured s] \<and> peek s = None"
    if "progress s = CloseSettled"
  proof -
    have "phase s = Closed" using inv that by (cases "phase s") (auto simp: owner_inv_def)
    then show ?thesis using inv that sets by (simp add: owner_inv_def held_def peek_def)
  qed
qed

text \<open>
  C22: Ownership of the bridge client. In every reachable state no client is released twice and no
  client is lost: each one handed in is either still held or has had exactly one call to release.
  The teardown is called at most once, with the client that was running when the close began, and
  when the close has settled nothing is held, so every client that was ever handed in, during start-up,
  while running or after the close, has been released.
\<close>

theorem client_released_exactly_once:
  assumes "owner_step\<^sup>*\<^sup>* new_owner s"
  shows "(distinct (release_calls s)) \<and>
   (\<forall>c \<in> set (handed_in s). (c \<in> set (held s)) \<noteq> (c \<in> set (release_calls s))) \<and>
   (length (teardown_calls s) \<le> 1) \<and>
   (progress s = CloseSettled \<longrightarrow> (set (release_calls s) = set (handed_in s) \<and> teardown_calls s = [captured s] \<and> peek s = None))"
proof -
  have p1: "distinct (release_calls s)"
    by (rule client_released_exactly_once_parts(1) [OF assms])
  have p2: "\<forall>c \<in> set (handed_in s). (c \<in> set (held s)) \<noteq> (c \<in> set (release_calls s))"
    by (rule client_released_exactly_once_parts(2) [OF assms])
  have p3: "length (teardown_calls s) \<le> 1"
    by (rule client_released_exactly_once_parts(3) [OF assms])
  have p4: "progress s = CloseSettled \<longrightarrow> (set (release_calls s) = set (handed_in s) \<and> teardown_calls s = [captured s] \<and> peek s = None)"
    by (rule impI, rule client_released_exactly_once_parts(4) [OF assms], (assumption)+)
  show ?thesis by (rule conjI [OF p1 conjI [OF p2 conjI [OF p3 p4]]])
qed

text \<open>One complete life: a client adopted, one refused during the close, both released.\<close>

definition owner_example :: owner where
  "owner_example = drained (tracked_release_settles 8 (own_release_settles (teardown_settles True
     (snd (adopt 8 (run_close (close_owner (snd (adopt 7 new_owner)))))))))"

lemmas owner_ops = adopt_def close_owner_def run_close_def teardown_settles_def own_release_settles_def
  tracked_release_settles_def trackRelease_def drained_def new_owner_def Let_def

lemma owner_example_reachable: "owner_step\<^sup>*\<^sup>* new_owner owner_example"
proof -
  define s1 where "s1 = snd (adopt 7 new_owner)"
  define s2 where "s2 = run_close (close_owner s1)"
  define s3 where "s3 = snd (adopt 8 s2)"
  define s4 where "s4 = own_release_settles (teardown_settles True s3)"
  have "owner_step new_owner s1" unfolding s1_def by (rule owner_step.adopt) (simp add: new_owner_def)
  moreover have "owner_step s1 (close_owner s1)" by (rule owner_step.close)
  moreover have "owner_step (close_owner s1) s2" unfolding s2_def
    by (rule owner_step.microtask) (simp add: s1_def owner_ops)
  moreover have "owner_step s2 s3" unfolding s3_def
    by (rule owner_step.adopt) (simp add: s2_def s1_def owner_ops)
  moreover have "owner_step s3 (teardown_settles True s3)"
    by (rule owner_step.teardown) (simp add: s3_def s2_def s1_def owner_ops)
  moreover have "owner_step (teardown_settles True s3) s4" unfolding s4_def
    by (rule owner_step.own_release [where c = 7]) (simp add: s3_def s2_def s1_def owner_ops)
  moreover have "owner_step s4 (tracked_release_settles 8 s4)"
    by (rule owner_step.tracked_release) (simp add: s4_def s3_def s2_def s1_def owner_ops)
  moreover have "owner_step (tracked_release_settles 8 s4) owner_example"
  proof -
    have "owner_example = drained (tracked_release_settles 8 s4)"
      by (simp add: owner_example_def s4_def s3_def s2_def s1_def)
    then show ?thesis
      using owner_step.drain [of "tracked_release_settles 8 s4"]
      by (simp add: s4_def s3_def s2_def s1_def owner_ops)
  qed
  ultimately show ?thesis by (meson rtranclp.rtrancl_into_rtrancl rtranclp.rtrancl_refl)
qed

lemma owner_example_state:
  "progress owner_example = CloseSettled \<and> release_calls owner_example = [8, 7] \<and>
   handed_in owner_example = [7, 8] \<and> captured owner_example = Some 7 \<and> held owner_example = []"
  by (simp add: owner_example_def owner_ops held_def)

theorem client_released_exactly_once_witness:
  "set (release_calls owner_example) = {7, 8} \<and> teardown_calls owner_example = [Some 7] \<and>
   peek owner_example = None"
  using client_released_exactly_once [THEN conjunct2, THEN conjunct2, THEN conjunct2, rule_format, OF owner_example_reachable] owner_example_state by auto

subsection \<open>The close settles\<close>

text \<open>A scheduler that lets each pending continuation run.\<close>

definition continuation :: "owner \<Rightarrow> owner" where
  "continuation s =
     (case progress s of
        Deferred \<Rightarrow> run_close s
      | TearingDown \<Rightarrow> teardown_settles False s
      | Releasing c \<Rightarrow> own_release_settles s
      | Draining \<Rightarrow> (case pendingReleases s of [] \<Rightarrow> drained s | c # _ \<Rightarrow> tracked_release_settles c s)
      | _ \<Rightarrow> s)"

fun close_distance :: "close_progress \<Rightarrow> nat" where
  "close_distance CloseSettled = 0"
| "close_distance Draining = 1"
| "close_distance (Releasing c) = 2"
| "close_distance TearingDown = 3"
| "close_distance Deferred = 4"
| "close_distance NoClose = 5"

lemma continuation_steps:
  assumes "progress s \<noteq> NoClose" and "progress s \<noteq> CloseSettled"
  shows "owner_step s (continuation s)"
    and "close_distance (progress (continuation s)) + length (pendingReleases (continuation s))
      < close_distance (progress s) + length (pendingReleases s)"
    and "progress (continuation s) \<noteq> NoClose"
    and "release_calls s = take (length (release_calls s)) (release_calls (continuation s))"
proof -
  show "owner_step s (continuation s)"
  proof (cases "progress s")
    case Draining
    then show ?thesis by (cases "pendingReleases s") (auto simp: continuation_def intro: owner_step.intros)
  qed (use assms in \<open>auto simp: continuation_def intro: owner_step.intros\<close>)
  show "close_distance (progress (continuation s)) + length (pendingReleases (continuation s))
      < close_distance (progress s) + length (pendingReleases s)"
    using assms by (auto simp: continuation_def owner_ops split: close_progress.splits list.splits option.splits)
  show "progress (continuation s) \<noteq> NoClose"
    using assms by (auto simp: continuation_def owner_ops split: close_progress.splits list.splits option.splits)
  show "release_calls s = take (length (release_calls s)) (release_calls (continuation s))"
    using assms by (auto simp: continuation_def owner_ops split: close_progress.splits list.splits option.splits)
qed

lemma close_progress_reaches:
  "progress s \<noteq> NoClose \<Longrightarrow> \<exists>t. owner_step\<^sup>*\<^sup>* s t \<and> progress t = CloseSettled"
proof (induction "close_distance (progress s) + length (pendingReleases s)" arbitrary: s rule: less_induct)
  case less
  show ?case
  proof (cases "progress s = CloseSettled")
    case False
    note step = continuation_steps [OF less.prems False]
    from less.hyps [OF step(2) step(3)] obtain t
      where "owner_step\<^sup>*\<^sup>* (continuation s) t" "progress t = CloseSettled" by blast
    with step(1) show ?thesis by (meson converse_rtranclp_into_rtranclp)
  qed blast
qed

lemma close_settles_and_is_final_parts:
  shows "owner_step\<^sup>*\<^sup>* new_owner s \<Longrightarrow> \<exists>t. owner_step\<^sup>*\<^sup>* (close_owner s) t \<and> progress t = CloseSettled"
    and "isClosing (close_owner s)"
    and "isClosing s \<Longrightarrow> owner_step s t \<Longrightarrow> isClosing t"
    and "isClosing s \<Longrightarrow> fst (adopt c s) = False \<and> c \<in> set (release_calls (snd (adopt c s)))"
    and "isClosing s \<Longrightarrow> close_owner s = s"
proof -
  show "\<exists>t. owner_step\<^sup>*\<^sup>* (close_owner s) t \<and> progress t = CloseSettled" if "owner_step\<^sup>*\<^sup>* new_owner s"
  proof -
    have "owner_inv s" using that by (rule owner.reach_holds [OF refl])
    then have "progress (close_owner s) \<noteq> NoClose"
      by (cases "phase s") (auto simp: owner_inv_def close_owner_def)
    then show ?thesis by (rule close_progress_reaches)
  qed
  show "isClosing (close_owner s)"
    by (cases "phase s") (simp_all add: isClosing_def close_owner_def)
  show "isClosing t" if "isClosing s" "owner_step s t"
    using that(2,1)
    by cases (auto simp: isClosing_def owner_ops discard_def split: owner_phase.splits option.splits)
  show "fst (adopt c s) = False \<and> c \<in> set (release_calls (snd (adopt c s)))" if "isClosing s"
    using that by (auto simp: isClosing_def owner_ops split: owner_phase.splits)
  show "close_owner s = s" if "isClosing s"
    using that by (auto simp: isClosing_def close_owner_def split: owner_phase.splits)
qed

text \<open>
  C23: A close always can settle, and is final. From every reachable state, letting \<open>close\<close> run and the
  continuations complete, whether the teardown and the releases succeed or fail, leads to a settled
  close; and once a close has begun no step takes it back: the phase stays closing or closed, \<open>adopt\<close>
  refuses and releases the client it is given, and a further \<open>close\<close> changes nothing.
\<close>

theorem close_settles_and_is_final:
  shows "(owner_step\<^sup>*\<^sup>* new_owner s \<longrightarrow> (\<exists>t. owner_step\<^sup>*\<^sup>* (close_owner s) t \<and> progress t = CloseSettled)) \<and>
   (isClosing (close_owner s)) \<and>
   (isClosing s \<longrightarrow> owner_step s t \<longrightarrow> isClosing t) \<and>
   (isClosing s \<longrightarrow> (fst (adopt c s) = False \<and> c \<in> set (release_calls (snd (adopt c s))))) \<and>
   (isClosing s \<longrightarrow> close_owner s = s)"
proof -
  have p1: "owner_step\<^sup>*\<^sup>* new_owner s \<longrightarrow> (\<exists>t. owner_step\<^sup>*\<^sup>* (close_owner s) t \<and> progress t = CloseSettled)"
    by (rule impI, rule close_settles_and_is_final_parts(1), (assumption)+)
  have p2: "isClosing (close_owner s)"
    by (rule close_settles_and_is_final_parts(2))
  have p3: "isClosing s \<longrightarrow> owner_step s t \<longrightarrow> isClosing t"
    by (rule impI, rule impI, rule close_settles_and_is_final_parts(3), (assumption)+)
  have p4: "isClosing s \<longrightarrow> (fst (adopt c s) = False \<and> c \<in> set (release_calls (snd (adopt c s))))"
    by (rule impI, rule close_settles_and_is_final_parts(4), (assumption)+)
  have p5: "isClosing s \<longrightarrow> close_owner s = s"
    by (rule impI, rule close_settles_and_is_final_parts(5), (assumption)+)
  show ?thesis by (rule conjI [OF p1 conjI [OF p2 conjI [OF p3 conjI [OF p4 p5]]]])
qed

theorem close_settles_and_is_final_witness:
  "(\<exists>t. owner_step\<^sup>*\<^sup>* (close_owner new_owner) t \<and> progress t = CloseSettled) \<and>
   isClosing (close_owner (snd (adopt 7 new_owner))) \<and>
   isClosing (snd (adopt 9 (close_owner (snd (adopt 7 new_owner))))) \<and>
   9 \<in> set (release_calls (snd (adopt 9 (close_owner (snd (adopt 7 new_owner))))))"
proof -
  define s where "s = close_owner (snd (adopt 7 new_owner))"
  have closing: "isClosing s" unfolding s_def by (rule close_settles_and_is_final [THEN conjunct2, THEN conjunct1, rule_format])
  have "owner_step s (snd (adopt 9 s))"
    by (rule owner_step.adopt) (simp add: s_def owner_ops)
  with closing have "isClosing (snd (adopt 9 s))" by (rule close_settles_and_is_final [THEN conjunct2, THEN conjunct2, THEN conjunct1, rule_format])
  moreover have "9 \<in> set (release_calls (snd (adopt 9 s)))"
    using close_settles_and_is_final [THEN conjunct2, THEN conjunct2, THEN conjunct2, THEN conjunct1, rule_format, OF closing] by blast
  moreover have "\<exists>t. owner_step\<^sup>*\<^sup>* (close_owner new_owner) t \<and> progress t = CloseSettled"
    by (rule close_settles_and_is_final [THEN conjunct1, rule_format]) simp
  ultimately show ?thesis using closing unfolding s_def by blast
qed

end
