(* ===== verification/TerminalClose.thy ===== *)
theory TerminalClose
  imports Prelude
begin

text \<open>
  \<open>src/src/Socket/terminal-close-reporter.ts\<close> and \<open>terminal-close.ts\<close>: the reporter of the one
  terminal close of a socket, as a function of the inputs it reacts to: the two calls, the settling
  of the teardown promise and the watchdog timer. A report is named by a number; whether its
  listener throws is part of the call. The publish calls and the error lines are recorded.
\<close>

subsection \<open>Connect failures\<close>

definition dr_connectionClosed :: nat where "dr_connectionClosed = 428"
definition dr_timedOut :: nat where "dr_timedOut = 408"
definition dr_loggedOut :: nat where "dr_loggedOut = 401"
definition dr_restartRequired :: nat where "dr_restartRequired = 515"
definition dr_multideviceMismatch :: nat where "dr_multideviceMismatch = 411"
definition dr_forbidden :: nat where "dr_forbidden = 403"
definition dr_unavailableService :: nat where "dr_unavailableService = 503"

definition RECONNECTABLE_CONNECT_FAILURE_REASONS :: "nat list" where
  "RECONNECTABLE_CONNECT_FAILURE_REASONS = [500, 503]"

definition isReconnectableConnectFailure :: "nat option \<Rightarrow> bool" where
  "isReconnectableConnectFailure reason =
     (case reason of None \<Rightarrow> False | Some r \<Rightarrow> r \<in> set RECONNECTABLE_CONNECT_FAILURE_REASONS)"

definition mapConnectFailureToDisconnect :: "nat option \<Rightarrow> nat" where
  "mapConnectFailureToDisconnect reason =
     (case reason of
        None \<Rightarrow> dr_connectionClosed
      | Some r \<Rightarrow>
          if r = 401 \<or> r = 403 \<or> r = 406 then dr_loggedOut
          else if r = 402 then dr_forbidden
          else if r = 405 then 405
          else if r = 411 then dr_multideviceMismatch
          else if r = 503 \<or> r = 501 then dr_unavailableService
          else if r = 408 then dr_timedOut
          else if r = 515 then dr_restartRequired
          else dr_connectionClosed)"

subsection \<open>The reporter\<close>

text \<open>What a promise or a synchronous call ended with; the flag says whether the error is truthy.\<close>

datatype settlement = Fulfilled | Rejected bool

text \<open>What calling \<open>teardown()\<close> does: it returns a promise, or it throws before returning one.\<close>

datatype teardown_call = ReturnsPromise | ThrowsSync bool

datatype close_log = ListenerThrew | TeardownFailed | StillRunning

text \<open>The closure \<open>makeOnce\<close> builds: the report it publishes, whether its listener throws, \<open>done\<close>.\<close>

record once =
  report :: nat
  listener_throws :: bool
  done_flag :: bool

text \<open>\<open>publishedPromise\<close> is \<open>None\<close> when undefined, else whether it has settled.\<close>

record reporter =
  claimed :: nat
  publishedPromise :: "bool option"
  publishOnce :: "once option"
  watchdog :: bool
  teardown_running :: bool
  publishes :: "nat list"
  error_log :: "close_log list"

definition makeTerminalCloseReporter :: reporter where
  "makeTerminalCloseReporter = \<lparr>claimed = 0, publishedPromise = None, publishOnce = None, watchdog = False,
     teardown_running = False, publishes = [], error_log = []\<rparr>"

definition claim :: "reporter \<Rightarrow> bool \<times> reporter" where
  "claim s = (if claimed s > 0 then (False, s) else (True, s\<lparr>claimed := claimed s + 1\<rparr>))"

text \<open>Calling the closure: publish once, contain the listener's error, settle the promise.\<close>

definition call_once :: "reporter \<Rightarrow> reporter" where
  "call_once s =
     (case publishOnce s of
        None \<Rightarrow> s
      | Some o1 \<Rightarrow>
          if done_flag o1 then s
          else s\<lparr>publishOnce := Some (o1\<lparr>done_flag := True\<rparr>),
                 publishes := publishes s @ [report o1],
                 error_log := error_log s @ (if listener_throws o1 then [ListenerThrew] else []),
                 publishedPromise := Some True\<rparr>)"

definition finish :: "settlement \<Rightarrow> reporter \<Rightarrow> reporter" where
  "finish r s =
     call_once (s\<lparr>watchdog := False,
       error_log := error_log s @ (if r = Rejected True then [TeardownFailed] else [])\<rparr>)"

definition makeOnce :: "nat \<Rightarrow> bool \<Rightarrow> once" where
  "makeOnce r throws = \<lparr>report = r, listener_throws = throws, done_flag = False\<rparr>"

definition reportAfter :: "teardown_call \<Rightarrow> nat \<Rightarrow> bool \<Rightarrow> reporter \<Rightarrow> reporter" where
  "reportAfter td r throws s =
     (case claim s of
        (False, s1) \<Rightarrow> s1
      | (True, s1) \<Rightarrow>
          let s2 = s1\<lparr>publishedPromise := Some False, publishOnce := Some (makeOnce r throws), watchdog := True\<rparr>
          in case td of
               ReturnsPromise \<Rightarrow> s2\<lparr>teardown_running := True\<rparr>
             | ThrowsSync truthy \<Rightarrow> finish (Rejected truthy) s2)"

definition reportNow :: "nat \<Rightarrow> bool \<Rightarrow> reporter \<Rightarrow> reporter" where
  "reportNow r throws s =
     (case claim s of
        (False, s1) \<Rightarrow> s1
      | (True, s1) \<Rightarrow> call_once (s1\<lparr>publishedPromise := Some False, publishOnce := Some (makeOnce r throws)\<rparr>))"

definition hasReported :: "reporter \<Rightarrow> bool" where
  "hasReported s \<longleftrightarrow> claimed s > 0"

text \<open>Whether the promise \<open>published()\<close> returns has settled.\<close>

definition published_settled :: "reporter \<Rightarrow> bool" where
  "published_settled s = (case publishedPromise s of None \<Rightarrow> True | Some b \<Rightarrow> b)"

definition watchdog_fires :: "reporter \<Rightarrow> reporter" where
  "watchdog_fires s =
     (if watchdog s
      then call_once (s\<lparr>watchdog := False, error_log := error_log s @ [StillRunning]\<rparr>) else s)"

definition teardown_promise_settles :: "settlement \<Rightarrow> reporter \<Rightarrow> reporter" where
  "teardown_promise_settles r s =
     (if teardown_running s then finish r (s\<lparr>teardown_running := False\<rparr>) else s)"

datatype close_input =
    ReportAfter teardown_call nat bool
  | ReportNow nat bool
  | TeardownSettles settlement
  | WatchdogFires

fun reporter_react :: "close_input \<Rightarrow> reporter \<Rightarrow> reporter" where
  "reporter_react (ReportAfter td r throws) s = reportAfter td r throws s"
| "reporter_react (ReportNow r throws) s = reportNow r throws s"
| "reporter_react (TeardownSettles x) s = teardown_promise_settles x s"
| "reporter_react WatchdogFires s = watchdog_fires s"

subsection \<open>Exactly one report\<close>

text \<open>
  Unclaimed, nothing has happened. Claimed, the one closure exists; it has either published its
  report and settled the promise, or both the watchdog and the teardown can still make it do so.
\<close>

definition reporter_inv :: "reporter \<Rightarrow> bool" where
  "reporter_inv s \<longleftrightarrow>
     (case publishOnce s of
        None \<Rightarrow> claimed s = 0 \<and> publishedPromise s = None \<and> publishes s = [] \<and> error_log s = [] \<and>
                \<not> watchdog s \<and> \<not> teardown_running s
      | Some o1 \<Rightarrow>
          claimed s = 1 \<and> publishedPromise s = Some (done_flag o1) \<and>
          publishes s = (if done_flag o1 then [report o1] else []) \<and>
          (\<not> done_flag o1 \<longrightarrow> watchdog s \<and> teardown_running s) \<and>
          (ListenerThrew \<in> set (error_log s) \<longrightarrow> listener_throws o1))"

lemmas reporter_ops = reportAfter_def reportNow_def claim_def finish_def call_once_def makeOnce_def
  watchdog_fires_def teardown_promise_settles_def Let_def

lemma reporter_inv_start: "reporter_inv makeTerminalCloseReporter"
  by (simp add: reporter_inv_def makeTerminalCloseReporter_def)

lemma reporter_inv_react:
  assumes "reporter_inv s"
  shows "reporter_inv (reporter_react e s)"
proof (cases "publishOnce s")
  case None
  then show ?thesis
    using assms
    by (cases e) (auto simp: reporter_inv_def reporter_ops split: teardown_call.splits)
next
  case (Some o1)
  then show ?thesis
    using assms
    by (cases e) (auto simp: reporter_inv_def reporter_ops)
qed

interpretation reporter: reactive makeTerminalCloseReporter reporter_react reporter_inv
  by unfold_locales (auto simp: reporter_inv_start intro: reporter_inv_react)

text \<open>The report that won the claim stays the one the reporter publishes.\<close>

lemma winner_kept:
  assumes "reporter_inv s" and "publishOnce s = Some o1"
  shows "\<exists>o2. publishOnce (fold reporter_react es s) = Some o2 \<and> report o2 = report o1
    \<and> (done_flag o1 \<longrightarrow> done_flag o2)"
  using assms
proof (induction es arbitrary: s o1)
  case (Cons e es)
  have "\<exists>o2. publishOnce (reporter_react e s) = Some o2 \<and> report o2 = report o1 \<and> (done_flag o1 \<longrightarrow> done_flag o2)"
    using Cons.prems by (cases e) (auto simp: reporter_inv_def reporter_ops)
  then obtain o2 where "publishOnce (reporter_react e s) = Some o2" "report o2 = report o1"
    "done_flag o1 \<longrightarrow> done_flag o2" by blast
  with Cons.IH [OF reporter_inv_react [OF Cons.prems(1)]] show ?case by fastforce
qed auto

fun is_report_of :: "nat \<Rightarrow> close_input \<Rightarrow> bool" where
  "is_report_of r (ReportAfter td r' throws) = (r' = r)"
| "is_report_of r (ReportNow r' throws) = (r' = r)"
| "is_report_of r _ = False"

fun releases :: "close_input \<Rightarrow> bool" where
  "releases (TeardownSettles x) = True"
| "releases WatchdogFires = True"
| "releases _ = False"

lemma report_claims:
  "is_report_of r e \<Longrightarrow> \<exists>o1. publishOnce (reporter_react e makeTerminalCloseReporter) = Some o1 \<and> report o1 = r"
  by (cases e) (auto simp: makeTerminalCloseReporter_def reporter_ops split: teardown_call.splits)

lemma release_publishes:
  "reporter_inv s \<Longrightarrow> publishOnce s = Some o1 \<Longrightarrow> releases e
    \<Longrightarrow> \<exists>o2. publishOnce (reporter_react e s) = Some o2 \<and> report o2 = report o1 \<and> done_flag o2"
  by (cases e) (auto simp: reporter_inv_def reporter_ops)

lemma no_report_idle:
  "list_all (\<lambda>e. \<forall>r. \<not> is_report_of r e) es
    \<Longrightarrow> fold reporter_react es makeTerminalCloseReporter = makeTerminalCloseReporter"
proof (induction es)
  case (Cons e es)
  then show ?case by (cases e) (auto simp: makeTerminalCloseReporter_def reporter_ops)
qed simp

lemma terminal_close_reported_exactly_once_parts:
  defines "run \<equiv> \<lambda>es. fold reporter_react es makeTerminalCloseReporter"
  shows "length (publishes (run es)) \<le> 1"
    and "published_settled (run es) \<longleftrightarrow> (\<not> hasReported (run es) \<or> publishes (run es) \<noteq> [])"
    and "list_all (\<lambda>e. \<forall>r. \<not> is_report_of r e) es \<Longrightarrow> \<not> hasReported (run es) \<and> publishes (run es) = []"
    and "list_all (\<lambda>e. \<forall>r. \<not> is_report_of r e) es \<Longrightarrow> is_report_of r e \<Longrightarrow>
      hasReported (run (es @ e # es')) \<and> set (publishes (run (es @ e # es'))) \<subseteq> {r}"
    and "list_all (\<lambda>e. \<forall>r. \<not> is_report_of r e) es \<Longrightarrow> is_report_of r e \<Longrightarrow> releases x \<Longrightarrow>
      publishes (run (es @ e # es' @ x # es'')) = [r] \<and> published_settled (run (es @ e # es' @ x # es''))"
proof -
  have inv: "reporter_inv (run es)" for es unfolding run_def by (rule reporter.run_inv)
  show "length (publishes (run es)) \<le> 1"
    using inv [of es] by (auto simp: reporter_inv_def split: option.splits)
  show "published_settled (run es) \<longleftrightarrow> (\<not> hasReported (run es) \<or> publishes (run es) \<noteq> [])"
    using inv [of es] by (auto simp: reporter_inv_def published_settled_def hasReported_def split: option.splits)
  show "\<not> hasReported (run es) \<and> publishes (run es) = []" if "list_all (\<lambda>e. \<forall>r. \<not> is_report_of r e) es"
    using no_report_idle [OF that] by (simp add: run_def hasReported_def makeTerminalCloseReporter_def)
  have won: "\<exists>o2. publishOnce (run (es @ e # es')) = Some o2 \<and> report o2 = r"
    if "list_all (\<lambda>e. \<forall>r. \<not> is_report_of r e) es" "is_report_of r e" for es'
    using no_report_idle [OF that(1)] report_claims [OF that(2)]
      winner_kept [OF reporter_inv_react [OF reporter_inv_start], of e _ es']
    by (fastforce simp: run_def)
  show "hasReported (run (es @ e # es')) \<and> set (publishes (run (es @ e # es'))) \<subseteq> {r}"
    if "list_all (\<lambda>e. \<forall>r. \<not> is_report_of r e) es" "is_report_of r e"
    using won [OF that, of es'] inv [of "es @ e # es'"] by (auto simp: reporter_inv_def hasReported_def)
  show "publishes (run (es @ e # es' @ x # es'')) = [r] \<and> published_settled (run (es @ e # es' @ x # es''))"
    if prems: "list_all (\<lambda>e. \<forall>r. \<not> is_report_of r e) es" "is_report_of r e" "releases x"
  proof -
    obtain o2 where o2: "publishOnce (run (es @ e # es')) = Some o2" "report o2 = r"
      using won [OF prems(1,2)] by blast
    have split: "run (es @ e # es' @ x # es'') = fold reporter_react es'' (reporter_react x (run (es @ e # es')))"
      by (simp add: run_def)
    obtain o3 where o3: "publishOnce (reporter_react x (run (es @ e # es'))) = Some o3" "report o3 = r" "done_flag o3"
      using release_publishes [OF inv o2(1) prems(3)] o2(2) by auto
    obtain o4 where "publishOnce (run (es @ e # es' @ x # es'')) = Some o4" "report o4 = r" "done_flag o4"
      using winner_kept [OF reporter_inv_react [OF inv] o3(1), of es''] o3 unfolding split by auto
    then show ?thesis using inv [of "es @ e # es' @ x # es''"]
      by (auto simp: reporter_inv_def published_settled_def)
  qed
qed

text \<open>
  C24: The terminal close is reported exactly once and never silently not at all. In every run at most
  one report is published; without a report call none is and waiters resolve at once. The first report
  call wins: it alone is ever published, whatever later calls, throwing listeners, failing or hanging
  teardowns and watchdog firings follow; the promise settles exactly with the publish; and as soon
  as the teardown settles or the watchdog fires after the call, the close has been published.
\<close>

theorem terminal_close_reported_exactly_once:
  defines "run \<equiv> \<lambda>es. fold reporter_react es makeTerminalCloseReporter"
  shows "(length (publishes (run es)) \<le> 1) \<and>
   (published_settled (run es) \<longleftrightarrow> (\<not> hasReported (run es) \<or> publishes (run es) \<noteq> [])) \<and>
   ((list_all (\<lambda>e. \<forall>r. \<not> is_report_of r e) es) \<longrightarrow> (\<not> hasReported (run es) \<and> publishes (run es) = [])) \<and>
   ((list_all (\<lambda>e. \<forall>r. \<not> is_report_of r e) es) \<longrightarrow> is_report_of r e \<longrightarrow> (hasReported (run (es @ e # es')) \<and> set (publishes (run (es @ e # es'))) \<subseteq> {r})) \<and>
   ((list_all (\<lambda>e. \<forall>r. \<not> is_report_of r e) es) \<longrightarrow> is_report_of r e \<longrightarrow> releases x \<longrightarrow> (publishes (run (es @ e # es' @ x # es'')) = [r] \<and> published_settled (run (es @ e # es' @ x # es''))))"
proof -
  have p1: "length (publishes (run es)) \<le> 1"
    unfolding run_def by (rule terminal_close_reported_exactly_once_parts(1))
  have p2: "published_settled (run es) \<longleftrightarrow> (\<not> hasReported (run es) \<or> publishes (run es) \<noteq> [])"
    unfolding run_def by (rule terminal_close_reported_exactly_once_parts(2))
  have p3: "(list_all (\<lambda>e. \<forall>r. \<not> is_report_of r e) es) \<longrightarrow> (\<not> hasReported (run es) \<and> publishes (run es) = [])"
    unfolding run_def by (rule impI, rule terminal_close_reported_exactly_once_parts(3), (assumption)+)
  have p4: "(list_all (\<lambda>e. \<forall>r. \<not> is_report_of r e) es) \<longrightarrow> is_report_of r e \<longrightarrow> (hasReported (run (es @ e # es')) \<and> set (publishes (run (es @ e # es'))) \<subseteq> {r})"
    unfolding run_def by (rule impI, rule impI, rule terminal_close_reported_exactly_once_parts(4), (assumption)+)
  have p5: "(list_all (\<lambda>e. \<forall>r. \<not> is_report_of r e) es) \<longrightarrow> is_report_of r e \<longrightarrow> releases x \<longrightarrow> (publishes (run (es @ e # es' @ x # es'')) = [r] \<and> published_settled (run (es @ e # es' @ x # es'')))"
    unfolding run_def by (rule impI, rule impI, rule impI, rule terminal_close_reported_exactly_once_parts(5), (assumption)+)
  show ?thesis by (rule conjI [OF p1 conjI [OF p2 conjI [OF p3 conjI [OF p4 p5]]]])
qed

theorem terminal_close_reported_exactly_once_witness:
  "publishes (fold reporter_react [WatchdogFires, ReportAfter ReturnsPromise 1 True, ReportNow 2 False,
      WatchdogFires, TeardownSettles (Rejected True)] makeTerminalCloseReporter) = [1] \<and>
   hasReported (fold reporter_react [ReportNow 2 False, ReportNow 3 False] makeTerminalCloseReporter) \<and>
   \<not> hasReported (fold reporter_react [WatchdogFires] makeTerminalCloseReporter)"
  using terminal_close_reported_exactly_once [THEN conjunct2, THEN conjunct2, THEN conjunct2, THEN conjunct2, rule_format, of "[WatchdogFires]" 1 "ReportAfter ReturnsPromise 1 True" WatchdogFires "[ReportNow 2 False]" "[TeardownSettles (Rejected True)]"]
    terminal_close_reported_exactly_once [THEN conjunct2, THEN conjunct2, THEN conjunct2, THEN conjunct1, rule_format, of "[]" 2 "ReportNow 2 False" "[ReportNow 3 False]"]
    terminal_close_reported_exactly_once [THEN conjunct2, THEN conjunct2, THEN conjunct1, rule_format, of "[WatchdogFires]"]
  by simp

text \<open>The engine retries nothing the table reports as a log-out, and every code the table knows keeps its class.\<close>

lemma retried_never_logged_out:
  "isReconnectableConnectFailure reason \<Longrightarrow>
    mapConnectFailureToDisconnect reason \<in> {dr_unavailableService, dr_connectionClosed}"
  by (auto simp: isReconnectableConnectFailure_def RECONNECTABLE_CONNECT_FAILURE_REASONS_def
      mapConnectFailureToDisconnect_def split: option.splits)

end
