(* ===== verification/Transport.thy ===== *)
theory Transport
  imports Prelude
begin

text \<open>
  \<open>src/src/Socket/transport.ts\<close>: the web socket transport handed to the engine. Sockets are
  numbered in the order they are created; the state records the closure's three variables, each
  socket with its abort signal and the promise of its \<open>connect\<close>, and the calls made to the engine's
  handles. The events of a socket may come at any time, in any order.
\<close>

type_synonym data = "nat list"

datatype ready_state = CONNECTING | OPEN | CLOSING | CLOSED

datatype promise = Pending | Resolved | Failed js_string

record wsocket =
  ready :: ready_state
  aborted :: bool
  settled :: bool
  promise :: promise

datatype callback = OnConnected | OnData data | OnDisconnected

record transport =
  ws :: "nat option"
  handle :: "nat option"
  disconnectTarget :: "nat option"
  sockets :: "wsocket list"
  engine_calls :: "(nat \<times> callback) list"
  wire :: "(nat \<times> data) list"

definition makeTransport :: transport where
  "makeTransport = \<lparr>ws = None, handle = None, disconnectTarget = None, sockets = [], engine_calls = [], wire = []\<rparr>"

text \<open>\<open>handle?.callback()\<close>\<close>

definition call_handle :: "callback \<Rightarrow> transport \<Rightarrow> transport" where
  "call_handle cb s =
     (case handle s of None \<Rightarrow> s | Some h \<Rightarrow> s\<lparr>engine_calls := engine_calls s @ [(h, cb)]\<rparr>)"

text \<open>A promise settles once; later calls of its functions do nothing.\<close>

definition settle_promise :: "promise \<Rightarrow> wsocket \<Rightarrow> wsocket" where
  "settle_promise p k = (if promise k = Pending then k\<lparr>promise := p\<rparr> else k)"

definition reject_unsettled :: "js_string \<Rightarrow> wsocket \<Rightarrow> wsocket" where
  "reject_unsettled msg k = (if settled k then k else settle_promise (Failed msg) (k\<lparr>settled := True\<rparr>))"

definition upd_socket :: "nat \<Rightarrow> (wsocket \<Rightarrow> wsocket) \<Rightarrow> transport \<Rightarrow> transport" where
  "upd_socket i f s = s\<lparr>sockets := (sockets s)[i := f (sockets s ! i)]\<rparr>"

definition connect :: "nat \<Rightarrow> transport \<Rightarrow> transport" where
  "connect h s =
     s\<lparr>handle := Some h, disconnectTarget := ws s, ws := Some (length (sockets s)),
       sockets := sockets s @ [\<lparr>ready = CONNECTING, aborted = False, settled = False, promise = Pending\<rparr>]\<rparr>"

text \<open>The listeners: removed by the abort, and ignored by a socket that is no longer the current one.\<close>

definition heard :: "nat \<Rightarrow> transport \<Rightarrow> bool" where
  "heard i s \<longleftrightarrow> i < length (sockets s) \<and> \<not> aborted (sockets s ! i) \<and> ws s = Some i"

definition on_open :: "nat \<Rightarrow> transport \<Rightarrow> transport" where
  "on_open i s =
     (if heard i s
      then upd_socket i (settle_promise Resolved) (call_handle OnConnected (upd_socket i (settled_update (\<lambda>_. True)) s))
      else s)"

definition on_message :: "nat \<Rightarrow> data \<Rightarrow> transport \<Rightarrow> transport" where
  "on_message i d s = (if heard i s then call_handle (OnData d) s else s)"

definition on_close :: "nat \<Rightarrow> transport \<Rightarrow> transport" where
  "on_close i s =
     (if heard i s
      then upd_socket i (reject_unsettled ''WebSocket closed before open'') (call_handle OnDisconnected s)
      else s)"

definition on_error :: "nat \<Rightarrow> transport \<Rightarrow> transport" where
  "on_error i s =
     (if heard i s then upd_socket i (reject_unsettled ''WebSocket connection failed'') s else s)"

text \<open>\<open>AbortController.abort()\<close>: its own listener runs the first time only.\<close>

definition abort_socket :: "nat \<Rightarrow> transport \<Rightarrow> transport" where
  "abort_socket i s =
     (if aborted (sockets s ! i) then s
      else upd_socket i (\<lambda>k. reject_unsettled ''WebSocket aborted before open'' (k\<lparr>aborted := True\<rparr>)) s)"

text \<open>\<open>send\<close> and \<open>sendBorrowed\<close>\<close>

definition transport_send :: "data \<Rightarrow> transport \<Rightarrow> transport" where
  "transport_send d s =
     (case ws s of
        None \<Rightarrow> s
      | Some i \<Rightarrow> if ready (sockets s ! i) = OPEN then s\<lparr>wire := wire s @ [(i, d)]\<rparr> else s)"

text \<open>
  \<open>disconnect\<close> up to its wait for the close event, which the result says it waits for; the wait
  ends with that event or after 500 milliseconds and changes nothing.
\<close>

definition disconnect :: "transport \<Rightarrow> nat option \<times> transport" where
  "disconnect s =
     (let toClose = (case disconnectTarget s of Some i \<Rightarrow> Some i | None \<Rightarrow> ws s);
          s1 = (if toClose = ws s then s\<lparr>ws := None\<rparr> else s);
          s2 = s1\<lparr>disconnectTarget := None\<rparr>
      in case toClose of
           None \<Rightarrow> (None, s2)
         | Some i \<Rightarrow>
             let s3 = abort_socket i (call_handle OnDisconnected s2)
             in if ready (sockets s3 ! i) = CLOSED then (None, s3)
                else (Some i, upd_socket i (ready_update (\<lambda>_. CLOSING)) s3))"

text \<open>The inputs; a socket's own state changes with its events whether or not it is listened to.\<close>

datatype wire_input =
    Connect nat
  | Opened nat
  | Message nat data
  | SocketClosed nat
  | SocketError nat
  | Send data
  | Disconnect

definition set_ready :: "ready_state \<Rightarrow> nat \<Rightarrow> transport \<Rightarrow> transport" where
  "set_ready r i s = (if i < length (sockets s) then upd_socket i (ready_update (\<lambda>_. r)) s else s)"

fun transport_react :: "wire_input \<Rightarrow> transport \<Rightarrow> transport" where
  "transport_react (Connect h) s = connect h s"
| "transport_react (Opened i) s = on_open i (set_ready OPEN i s)"
| "transport_react (Message i d) s = on_message i d s"
| "transport_react (SocketClosed i) s = on_close i (set_ready CLOSED i s)"
| "transport_react (SocketError i) s = on_error i s"
| "transport_react (Send d) s = transport_send d s"
| "transport_react Disconnect s = snd (disconnect s)"

subsection \<open>The invariant\<close>

definition socket_ok :: "wsocket \<Rightarrow> bool" where
  "socket_ok k \<longleftrightarrow> (settled k \<longleftrightarrow> promise k \<noteq> Pending) \<and> (aborted k \<longrightarrow> settled k)"

definition transport_inv :: "transport \<Rightarrow> bool" where
  "transport_inv s \<longleftrightarrow>
     list_all socket_ok (sockets s) \<and>
     (\<forall>i. ws s = Some i \<longrightarrow> i < length (sockets s) \<and> \<not> aborted (sockets s ! i)) \<and>
     (\<forall>i. disconnectTarget s = Some i \<longrightarrow> i < length (sockets s) \<and> ws s \<noteq> Some i \<and> \<not> aborted (sockets s ! i)) \<and>
     (ws s = None \<longrightarrow> disconnectTarget s = None)"

lemmas socket_ops = settle_promise_def reject_unsettled_def socket_ok_def

lemma call_handle_simps [simp]:
  "ws (call_handle cb s) = ws s" "disconnectTarget (call_handle cb s) = disconnectTarget s"
  "sockets (call_handle cb s) = sockets s" "handle (call_handle cb s) = handle s" "wire (call_handle cb s) = wire s"
  by (auto simp: call_handle_def split: option.splits)

lemma upd_socket_simps [simp]:
  "ws (upd_socket i f s) = ws s" "disconnectTarget (upd_socket i f s) = disconnectTarget s"
  "handle (upd_socket i f s) = handle s" "engine_calls (upd_socket i f s) = engine_calls s"
  "sockets (upd_socket i f s) = (sockets s)[i := f (sockets s ! i)]" "wire (upd_socket i f s) = wire s"
  by (simp_all add: upd_socket_def)

lemma transport_inv_start: "transport_inv makeTransport"
  by (simp add: transport_inv_def makeTransport_def)

text \<open>Updating one socket so that it stays well formed, without aborting it.\<close>

lemma upd_inv:
  assumes "transport_inv s" and "\<And>k. socket_ok k \<Longrightarrow> socket_ok (f k)" and "\<And>k. aborted (f k) = aborted k"
  shows "transport_inv (upd_socket i f s)"
proof (cases "i < length (sockets s)")
  case True
  then have "list_all socket_ok ((sockets s)[i := f (sockets s ! i)])"
    using assms by (auto simp: transport_inv_def list_all_length nth_list_update)
  moreover have "aborted ((sockets s)[i := f (sockets s ! i)] ! j) = aborted (sockets s ! j)" for j
    using True assms(3) by (cases "j = i") simp_all
  ultimately show ?thesis using assms(1) by (simp add: transport_inv_def)
next
  case False
  then show ?thesis using assms by (simp add: transport_inv_def list_update_beyond)
qed

lemma call_handle_inv: "transport_inv s \<Longrightarrow> transport_inv (call_handle cb s)"
  by (simp add: transport_inv_def)

lemma open_upd:
  "upd_socket i (settle_promise Resolved) (call_handle cb (upd_socket i (settled_update (\<lambda>_. True)) s)) =
   call_handle cb (upd_socket i (\<lambda>k. settle_promise Resolved (k\<lparr>settled := True\<rparr>)) s)"
proof (cases "i < length (sockets s)")
  case True
  then show ?thesis by (cases "handle s") (simp_all add: upd_socket_def call_handle_def)
next
  case False
  then show ?thesis by (cases "handle s") (simp_all add: upd_socket_def call_handle_def list_update_beyond)
qed

lemma connect_inv: "transport_inv s \<Longrightarrow> transport_inv (connect h s)"
  by (auto simp: transport_inv_def connect_def socket_ok_def nth_append)

lemma set_ready_inv: "transport_inv s \<Longrightarrow> transport_inv (set_ready r i s)"
  unfolding set_ready_def by (auto intro!: upd_inv simp: socket_ok_def)

lemma events_inv:
  assumes "transport_inv s"
  shows "transport_inv (on_open i s)" "transport_inv (on_message i d s)"
    "transport_inv (on_close i s)" "transport_inv (on_error i s)" "transport_inv (transport_send d s)"
proof -
  show "transport_inv (on_open i s)" unfolding on_open_def open_upd
    using assms by (auto intro!: upd_inv call_handle_inv simp: socket_ops split: if_splits)
  show "transport_inv (on_message i d s)" unfolding on_message_def
    using assms by (auto intro!: call_handle_inv)
  show "transport_inv (on_close i s)" unfolding on_close_def
    using assms by (auto intro!: upd_inv call_handle_inv simp: socket_ops split: if_splits)
  show "transport_inv (on_error i s)" unfolding on_error_def
    using assms by (auto intro!: upd_inv simp: socket_ops split: if_splits)
  show "transport_inv (transport_send d s)"
    using assms by (auto simp: transport_send_def transport_inv_def split: option.splits)
qed

text \<open>The socket \<open>disconnect\<close> closes, and what it leaves.\<close>

definition closing_socket :: "transport \<Rightarrow> nat option" where
  "closing_socket s = (case disconnectTarget s of Some i \<Rightarrow> Some i | None \<Rightarrow> ws s)"

lemma disconnect_idle: "closing_socket s = None \<Longrightarrow> transport_inv s \<Longrightarrow> snd (disconnect s) = s \<and> fst (disconnect s) = None"
  by (auto simp: closing_socket_def disconnect_def Let_def transport_inv_def split: option.splits)

lemma disconnect_socket:
  assumes inv: "transport_inv s" and i: "closing_socket s = Some i"
  shows "sockets (snd (disconnect s)) = (sockets s)[i := (\<lambda>k. (reject_unsettled ''WebSocket aborted before open''
        (k\<lparr>aborted := True\<rparr>))\<lparr>ready := (if ready k = CLOSED then CLOSED else CLOSING)\<rparr>) (sockets s ! i)]"
    and "ws (snd (disconnect s)) = (if ws s = Some i then None else ws s)"
    and "disconnectTarget (snd (disconnect s)) = None"
    and "engine_calls (snd (disconnect s)) = engine_calls (call_handle OnDisconnected s)"
    and "i < length (sockets s)" and "\<not> aborted (sockets s ! i)"
proof -
  show len: "i < length (sockets s)" and na: "\<not> aborted (sockets s ! i)"
    using inv i by (auto simp: transport_inv_def closing_socket_def split: option.splits)
  define s2 where "s2 = (if ws s = Some i then s\<lparr>ws := None\<rparr> else s)\<lparr>disconnectTarget := None\<rparr>"
  define s3 where "s3 = abort_socket i (call_handle OnDisconnected s2)"
  have d: "snd (disconnect s) = (if ready (sockets s3 ! i) = CLOSED then s3
      else upd_socket i (ready_update (\<lambda>_. CLOSING)) s3)"
    using i by (auto simp: disconnect_def closing_socket_def s2_def s3_def Let_def split: option.splits)
  have s2: "sockets s2 = sockets s" "handle s2 = handle s" "engine_calls s2 = engine_calls s"
    "ws s2 = (if ws s = Some i then None else ws s)" "disconnectTarget s2 = None"
    by (simp_all add: s2_def)
  have s3: "s3 = upd_socket i (\<lambda>k. reject_unsettled ''WebSocket aborted before open'' (k\<lparr>aborted := True\<rparr>))
      (call_handle OnDisconnected s2)"
    using na by (simp add: s3_def abort_socket_def s2)
  have r: "ready (reject_unsettled m k) = ready k" for m k by (simp add: socket_ops)
  have same: "k = k\<lparr>ready := CLOSED\<rparr>" if "ready k = CLOSED" for k :: wsocket using that by simp
  show "sockets (snd (disconnect s)) = (sockets s)[i := (\<lambda>k. (reject_unsettled ''WebSocket aborted before open''
        (k\<lparr>aborted := True\<rparr>))\<lparr>ready := (if ready k = CLOSED then CLOSED else CLOSING)\<rparr>) (sockets s ! i)]"
  proof (cases "ready (sockets s ! i) = CLOSED")
    case True
    then have eq: "(reject_unsettled ''WebSocket aborted before open'' ((sockets s ! i)\<lparr>aborted := True\<rparr>))\<lparr>ready := CLOSED\<rparr> =
        reject_unsettled ''WebSocket aborted before open'' ((sockets s ! i)\<lparr>aborted := True\<rparr>)"
      by (intro same [symmetric]) (simp add: r)
    show ?thesis using len True by (simp add: d s3 s2 r) (subst eq, rule refl)
  next
    case False
    then show ?thesis using len by (simp add: d s3 s2 r)
  qed
  show "ws (snd (disconnect s)) = (if ws s = Some i then None else ws s)"
    "disconnectTarget (snd (disconnect s)) = None" by (simp_all add: d s3 s2)
  show "engine_calls (snd (disconnect s)) = engine_calls (call_handle OnDisconnected s)"
    by (simp add: d s3 call_handle_def s2 split: option.splits)
qed

lemma disconnect_inv: "transport_inv s \<Longrightarrow> transport_inv (snd (disconnect s))"
proof (cases "closing_socket s")
  case None
  assume "transport_inv s"
  with None show ?thesis by (simp add: disconnect_idle)
next
  case (Some i)
  assume inv: "transport_inv s"
  note ds = disconnect_socket [OF inv Some]
  have "list_all socket_ok (sockets (snd (disconnect s)))"
    using inv ds(5) by (auto simp: ds(1) transport_inv_def list_all_length nth_list_update socket_ops)
  moreover have "ws s = Some j \<Longrightarrow> j \<noteq> i \<Longrightarrow> \<not> aborted (sockets (snd (disconnect s)) ! j)" for j
    using inv by (auto simp: ds(1) transport_inv_def)
  ultimately show ?thesis using inv ds(2,3) ds(1) by (auto simp: transport_inv_def)
qed

lemma transport_inv_react: "transport_inv s \<Longrightarrow> transport_inv (transport_react e s)"
  by (cases e) (simp_all add: connect_inv set_ready_inv events_inv disconnect_inv)

interpretation wire: reactive makeTransport transport_react transport_inv
  by unfold_locales (auto simp: transport_inv_start intro: transport_inv_react)

subsection \<open>What the engine sees\<close>

text \<open>How one socket may change: its promise settles at most once and an abort is final.\<close>

definition socket_later :: "wsocket \<Rightarrow> wsocket \<Rightarrow> bool" where
  "socket_later k k' \<longleftrightarrow> (aborted k \<longrightarrow> aborted k') \<and> (promise k \<noteq> Pending \<longrightarrow> promise k' = promise k)"

lemma socket_later_refl: "socket_later k k"
  by (simp add: socket_later_def)

lemma upd_later:
  "(\<And>k. socket_later k (f k)) \<Longrightarrow> i < length (sockets s) \<Longrightarrow>
    i < length (sockets (upd_socket j f s)) \<and> socket_later (sockets s ! i) (sockets (upd_socket j f s) ! i)"
  by (cases "i = j") (simp_all add: socket_later_refl)

lemma later_trans: "socket_later a b \<Longrightarrow> socket_later b c \<Longrightarrow> socket_later a c"
  by (auto simp: socket_later_def)

lemma set_ready_later:
  "i < length (sockets s) \<Longrightarrow> i < length (sockets (set_ready r j s)) \<and> socket_later (sockets s ! i) (sockets (set_ready r j s) ! i)"
  by (auto simp: set_ready_def socket_later_refl socket_later_def nth_list_update)

lemma reject_later: "socket_later k (reject_unsettled m k)"
  by (simp add: socket_later_def socket_ops)

lemma heard_later:
  assumes "i < length (sockets s)"
  shows "i < length (sockets (on_open j s)) \<and> socket_later (sockets s ! i) (sockets (on_open j s) ! i)"
    and "i < length (sockets (on_close j s)) \<and> socket_later (sockets s ! i) (sockets (on_close j s) ! i)"
    and "i < length (sockets (on_error j s)) \<and> socket_later (sockets s ! i) (sockets (on_error j s) ! i)"
proof -
  have "socket_later k (settle_promise Resolved (k\<lparr>settled := True\<rparr>))" for k
    by (simp add: socket_later_def socket_ops)
  from upd_later [OF this assms]
  show "i < length (sockets (on_open j s)) \<and> socket_later (sockets s ! i) (sockets (on_open j s) ! i)"
    using assms unfolding on_open_def open_upd by (simp add: socket_later_refl)
  show "i < length (sockets (on_close j s)) \<and> socket_later (sockets s ! i) (sockets (on_close j s) ! i)"
    using upd_later [where f = "reject_unsettled ''WebSocket closed before open''", OF reject_later, of i "call_handle OnDisconnected s" j] assms
    by (simp add: on_close_def socket_later_refl)
  show "i < length (sockets (on_error j s)) \<and> socket_later (sockets s ! i) (sockets (on_error j s) ! i)"
    using upd_later [where f = "reject_unsettled ''WebSocket connection failed''", OF reject_later assms] by (simp add: on_error_def socket_later_refl assms)
qed

lemma react_later:
  assumes "transport_inv s" and "i < length (sockets s)"
  shows "i < length (sockets (transport_react e s)) \<and> socket_later (sockets s ! i) (sockets (transport_react e s) ! i)"
proof (cases e)
  case (Opened j)
  then show ?thesis
    using set_ready_later [OF assms(2), of OPEN j] heard_later(1) [of i "set_ready OPEN j s" j] later_trans by auto
next
  case (SocketClosed j)
  then show ?thesis
    using set_ready_later [OF assms(2), of CLOSED j] heard_later(2) [of i "set_ready CLOSED j s" j] later_trans by auto
next
  case Disconnect
  show ?thesis
  proof (cases "closing_socket s")
    case None
    then show ?thesis using assms Disconnect by (simp add: disconnect_idle socket_later_refl)
  next
    case (Some j)
    show ?thesis using assms Disconnect
      by (cases "i = j") (simp_all add: disconnect_socket(1) [OF assms(1) Some] socket_later_def socket_ops)
  qed
next
  case (Connect h)
  then show ?thesis using assms by (simp add: connect_def nth_append socket_later_refl)
next
  case (Message j d)
  then show ?thesis using assms by (simp add: on_message_def socket_later_refl)
next
  case (SocketError j)
  then show ?thesis using heard_later(3) [OF assms(2)] by simp
next
  case (Send d)
  then show ?thesis using assms by (auto simp: transport_send_def socket_later_refl split: option.splits)
qed

lemma run_later:
  "transport_inv s \<Longrightarrow> i < length (sockets s) \<Longrightarrow>
    i < length (sockets (fold transport_react es s)) \<and> socket_later (sockets s ! i) (sockets (fold transport_react es s) ! i)"
proof (induction es arbitrary: s)
  case (Cons e es)
  from Cons.IH [OF transport_inv_react [OF Cons.prems(1)], of e] react_later [OF Cons.prems, of e] later_trans
  show ?case by auto
qed (simp add: socket_later_refl)

fun event_of :: "nat \<Rightarrow> wire_input \<Rightarrow> bool" where
  "event_of i (Opened j) = (i = j)"
| "event_of i (Message j d) = (i = j)"
| "event_of i (SocketClosed j) = (i = j)"
| "event_of i (SocketError j) = (i = j)"
| "event_of i _ = False"

lemma deaf_event:
  assumes "event_of i e" and "\<not> heard i s"
  shows "engine_calls (transport_react e s) = engine_calls s"
proof -
  have sr: "\<not> heard i (set_ready r i s)" "engine_calls (set_ready r i s) = engine_calls s" for r
    using assms(2) by (auto simp: heard_def set_ready_def)
  show ?thesis using assms by (cases e) (simp_all add: on_open_def on_close_def on_message_def on_error_def sr)
qed

lemma disconnect_settles_and_silences_parts:
  assumes run: "s = fold transport_react es makeTransport"
  shows "closing_socket s = Some i \<Longrightarrow> handle s = Some h \<Longrightarrow>
      engine_calls (snd (disconnect s)) = engine_calls s @ [(h, OnDisconnected)]"
    and "closing_socket s = Some i \<Longrightarrow>
      promise (sockets (snd (disconnect s)) ! i) \<noteq> Pending \<and>
      (promise (sockets s ! i) = Pending \<longrightarrow>
        promise (sockets (snd (disconnect s)) ! i) = Failed ''WebSocket aborted before open'')"
    and "closing_socket s = Some i \<Longrightarrow> event_of i e \<Longrightarrow> t = fold transport_react es' (snd (disconnect s)) \<Longrightarrow>
      engine_calls (transport_react e t) = engine_calls t \<and>
      promise (sockets t ! i) = promise (sockets (snd (disconnect s)) ! i)"
    and "ws s \<noteq> Some j \<Longrightarrow> event_of j e \<Longrightarrow> engine_calls (transport_react e s) = engine_calls s"
    and "closing_socket s = None \<Longrightarrow> snd (disconnect s) = s"
proof -
  have inv: "transport_inv s" unfolding run by (rule wire.run_inv)
  show "engine_calls (snd (disconnect s)) = engine_calls s @ [(h, OnDisconnected)]"
    if "closing_socket s = Some i" "handle s = Some h"
    using disconnect_socket(4) [OF inv that(1)] that(2) by (simp add: call_handle_def)
  have k: "aborted (sockets (snd (disconnect s)) ! i) \<and> promise (sockets (snd (disconnect s)) ! i) \<noteq> Pending \<and>
      (promise (sockets s ! i) = Pending \<longrightarrow>
        promise (sockets (snd (disconnect s)) ! i) = Failed ''WebSocket aborted before open'')"
    if "closing_socket s = Some i"
  proof -
    have "socket_ok (sockets s ! i)"
      using inv disconnect_socket(5) [OF inv that] by (simp add: transport_inv_def list_all_length)
    then show ?thesis using disconnect_socket(1,5) [OF inv that] by (simp add: socket_ops)
  qed
  then show "promise (sockets (snd (disconnect s)) ! i) \<noteq> Pending \<and>
      (promise (sockets s ! i) = Pending \<longrightarrow>
        promise (sockets (snd (disconnect s)) ! i) = Failed ''WebSocket aborted before open'')"
    if "closing_socket s = Some i" using that by blast
  show "engine_calls (transport_react e t) = engine_calls t \<and>
      promise (sockets t ! i) = promise (sockets (snd (disconnect s)) ! i)"
    if prems: "closing_socket s = Some i" "event_of i e" "t = fold transport_react es' (snd (disconnect s))"
  proof -
    have "i < length (sockets (snd (disconnect s)))"
      using disconnect_socket(1,5) [OF inv prems(1)] by simp
    from run_later [OF disconnect_inv [OF inv] this, of es'] k [OF prems(1)]
    have "aborted (sockets t ! i) \<and> promise (sockets t ! i) = promise (sockets (snd (disconnect s)) ! i)"
      by (auto simp: prems(3) socket_later_def)
    then show ?thesis using deaf_event [OF prems(2)] by (simp add: heard_def)
  qed
  show "engine_calls (transport_react e s) = engine_calls s" if "ws s \<noteq> Some j" "event_of j e"
    using deaf_event [OF that(2)] that(1) by (simp add: heard_def)
  show "snd (disconnect s) = s" if "closing_socket s = None"
    using disconnect_idle [OF that inv] by simp
qed

text \<open>
  C25: The transport never reports a socket twice and never leaves a disconnected attempt hanging. At any
  point of any run, \<open>disconnect\<close> on a socket settles the promise of its \<open>connect\<close> (an attempt still open is
  rejected), tells the engine exactly once that the connection is gone, and from then on no event of
  that socket reaches the engine and its promise keeps the value it settled with; an event of a
  socket that is not the current one never reaches the engine either, and with nothing to close
  \<open>disconnect\<close> changes nothing.
\<close>

theorem disconnect_settles_and_silences:
  assumes run: "s = fold transport_react es makeTransport"
  shows "(closing_socket s = Some i \<longrightarrow> handle s = Some h \<longrightarrow> engine_calls (snd (disconnect s)) = engine_calls s @ [(h, OnDisconnected)]) \<and>
   (closing_socket s = Some i \<longrightarrow> (promise (sockets (snd (disconnect s)) ! i) \<noteq> Pending \<and>
      (promise (sockets s ! i) = Pending \<longrightarrow>
        promise (sockets (snd (disconnect s)) ! i) = Failed ''WebSocket aborted before open''))) \<and>
   (closing_socket s = Some i \<longrightarrow> event_of i e \<longrightarrow> t = fold transport_react es' (snd (disconnect s)) \<longrightarrow> (engine_calls (transport_react e t) = engine_calls t \<and>
      promise (sockets t ! i) = promise (sockets (snd (disconnect s)) ! i))) \<and>
   ((ws s \<noteq> Some j) \<longrightarrow> event_of j e \<longrightarrow> engine_calls (transport_react e s) = engine_calls s) \<and>
   (closing_socket s = None \<longrightarrow> snd (disconnect s) = s)"
proof -
  have p1: "closing_socket s = Some i \<longrightarrow> handle s = Some h \<longrightarrow> engine_calls (snd (disconnect s)) = engine_calls s @ [(h, OnDisconnected)]"
    by (rule impI, rule impI, rule disconnect_settles_and_silences_parts(1) [OF assms], (assumption)+)
  have p2: "closing_socket s = Some i \<longrightarrow> (promise (sockets (snd (disconnect s)) ! i) \<noteq> Pending \<and>
      (promise (sockets s ! i) = Pending \<longrightarrow>
        promise (sockets (snd (disconnect s)) ! i) = Failed ''WebSocket aborted before open''))"
    by (rule impI, rule disconnect_settles_and_silences_parts(2) [OF assms], (assumption)+)
  have p3: "closing_socket s = Some i \<longrightarrow> event_of i e \<longrightarrow> t = fold transport_react es' (snd (disconnect s)) \<longrightarrow> (engine_calls (transport_react e t) = engine_calls t \<and>
      promise (sockets t ! i) = promise (sockets (snd (disconnect s)) ! i))"
    by (rule impI, rule impI, rule impI, rule disconnect_settles_and_silences_parts(3) [OF assms], (assumption)+)
  have p4: "(ws s \<noteq> Some j) \<longrightarrow> event_of j e \<longrightarrow> engine_calls (transport_react e s) = engine_calls s"
    by (rule impI, rule impI, rule disconnect_settles_and_silences_parts(4) [OF assms], (assumption)+)
  have p5: "closing_socket s = None \<longrightarrow> snd (disconnect s) = s"
    by (rule impI, rule disconnect_settles_and_silences_parts(5) [OF assms], (assumption)+)
  show ?thesis by (rule conjI [OF p1 conjI [OF p2 conjI [OF p3 conjI [OF p4 p5]]]])
qed

text \<open>A reconnect while the first attempt is still opening: the first attempt is rejected, the second lives.\<close>

theorem disconnect_settles_and_silences_witness:
  "engine_calls (fold transport_react [Connect 1, Connect 2, Disconnect] makeTransport) = [(2, OnDisconnected)] \<and>
   promise (sockets (fold transport_react [Connect 1, Connect 2, Disconnect] makeTransport) ! 0) =
     Failed ''WebSocket aborted before open'' \<and>
   engine_calls (transport_react (Message 0 [1]) (fold transport_react [Opened 1] (fold transport_react [Connect 1, Connect 2, Disconnect] makeTransport))) =
     [(2, OnDisconnected), (2, OnConnected)]"
proof -
  define s where "s = fold transport_react [Connect 1, Connect 2] makeTransport"
  have s: "fold transport_react [Connect 1, Connect 2, Disconnect] makeTransport = snd (disconnect s)"
    by (simp add: s_def)
  have c: "closing_socket s = Some 0" "handle s = Some 2" "promise (sockets s ! 0) = Pending" "engine_calls s = []"
    by (simp_all add: s_def connect_def makeTransport_def closing_socket_def)
  have o1: "engine_calls (fold transport_react [Opened 1] (snd (disconnect s))) = [(2, OnDisconnected), (2, OnConnected)]"
    by (simp add: s_def connect_def makeTransport_def disconnect_def abort_socket_def call_handle_def upd_socket_def
        on_open_def set_ready_def heard_def socket_ops Let_def)
  show ?thesis unfolding s
    using disconnect_settles_and_silences [THEN conjunct1, rule_format, OF s_def c(1,2)] disconnect_settles_and_silences [THEN conjunct2, THEN conjunct1, rule_format, OF s_def c(1)]
      disconnect_settles_and_silences [THEN conjunct2, THEN conjunct2, THEN conjunct1, rule_format, OF s_def c(1) _ refl, of "Message 0 [1]" "[Opened 1]"] c(3,4) o1
    by simp
qed

end
