(* ===== verification/JsVal.thy ===== *)
theory JsVal
  imports Json
begin

text \<open>
  JavaScript values as the event pipeline handles them: primitives, arrays and plain objects with
  their own properties in insertion order (the property names are JIDs, message keys and field
  names, never array indexes). A property that is absent and one that holds \<open>undefined\<close> are
  different objects that read the same. An object with a \<open>toNumber\<close> method (a \<open>Long\<close>) is
  \<open>VToNumber\<close>, by what the call returns; it prints as that number.
\<close>

text \<open>A number is an integer, or one of the others; a fraction is known by its floor.\<close>

datatype non_integer = NaN | Infinity | NegInfinity | Fraction int

datatype jv =
    VUndef
  | VNull
  | VBool bool
  | VNum int
  | VNonInt non_integer
  | VStr js_string
  | VArr "jv list"
  | VObj "(js_string \<times> jv) list"
  | VToNumber jv

type_synonym obj = "(js_string, jv) omap"

named_theorems jv_defs "definitions of the value operations"

fun truthy :: "jv \<Rightarrow> bool" where
  "truthy VUndef = False"
| "truthy VNull = False"
| "truthy (VBool b) = b"
| "truthy (VNum n) = (n \<noteq> 0)"
| "truthy (VNonInt x) = (x \<noteq> NaN)"
| "truthy (VStr s) = (s \<noteq> [])"
| "truthy _ = True"

definition jv_or :: "jv \<Rightarrow> jv \<Rightarrow> jv" where
  "jv_or a b = (if truthy a then a else b)"

definition nullish :: "jv \<Rightarrow> bool" where
  "nullish v \<longleftrightarrow> v = VUndef \<or> v = VNull"

definition jv_coalesce :: "jv \<Rightarrow> jv \<Rightarrow> jv" where
  "jv_coalesce a b = (if nullish a then b else a)"

text \<open>\<open>object.key\<close>, and \<open>value?.key\<close> on any value.\<close>

definition oget :: "obj \<Rightarrow> js_string \<Rightarrow> jv" where
  "oget m k = (case omap_get m k of None \<Rightarrow> VUndef | Some v \<Rightarrow> v)"

fun jprop :: "jv \<Rightarrow> js_string \<Rightarrow> jv" where
  "jprop (VObj m) k = oget m k"
| "jprop _ k = VUndef"

definition has_own :: "obj \<Rightarrow> js_string \<Rightarrow> bool" where
  "has_own m k \<longleftrightarrow> omap_get m k \<noteq> None"

text \<open>\<open>Object.assign(target, source)\<close>; an \<open>undefined\<close> value is copied like any other.\<close>

definition object_assign :: "obj \<Rightarrow> obj \<Rightarrow> obj" where
  "object_assign t s = foldl (\<lambda>t (k, v). omap_set k v t) t s"

fun fields_of :: "jv \<Rightarrow> obj" where
  "fields_of (VObj m) = m"
| "fields_of _ = []"

fun elems_of :: "jv \<Rightarrow> jv list" where
  "elems_of (VArr xs) = xs"
| "elems_of _ = []"

text \<open>A value the types declare as a string, and its text.\<close>

fun str_of :: "jv \<Rightarrow> js_string" where
  "str_of (VStr s) = s"
| "str_of _ = []"

fun str_opt :: "jv \<Rightarrow> js_string option" where
  "str_opt (VStr s) = Some s"
| "str_opt _ = None"

text \<open>An optional string as a value.\<close>

definition opt_val :: "js_string option \<Rightarrow> jv" where
  "opt_val o1 = (case o1 of None \<Rightarrow> VUndef | Some s \<Rightarrow> VStr s)"

text \<open>A truthy optional string.\<close>

definition nonempty :: "js_string option \<Rightarrow> bool" where
  "nonempty o1 \<longleftrightarrow> (case o1 of None \<Rightarrow> False | Some s \<Rightarrow> s \<noteq> [])"

text \<open>The text a template literal prints; objects and arrays do not occur there.\<close>

fun template :: "jv \<Rightarrow> js_string" where
  "template VUndef = ''undefined''"
| "template VNull = ''null''"
| "template (VBool b) = (if b then ''true'' else ''false'')"
| "template (VNum n) = show_int n"
| "template (VStr s) = s"
| "template (VNonInt NaN) = ''NaN''"
| "template (VNonInt Infinity) = ''Infinity''"
| "template (VNonInt NegInfinity) = ''-Infinity''"
| "template (VToNumber r) = template r"
| "template _ = ''[object Object]''"

definition trimUndefined :: "obj \<Rightarrow> obj" where
  "trimUndefined m = filter (\<lambda>(k, v). v \<noteq> VUndef) m"

text \<open>\<open>haystack.includes(needle)\<close>\<close>

fun str_includes :: "js_string \<Rightarrow> js_string \<Rightarrow> bool" where
  "str_includes [] p = (p = [])"
| "str_includes (c # s) p = (starts_with (c # s) p \<or> str_includes s p)"

definition safe_integer :: "int \<Rightarrow> bool" where
  "safe_integer n \<longleftrightarrow> \<bar>n\<bar> \<le> 2 ^ 53 - 1"

subsection \<open>Reading what was written\<close>

lemma oget_set [omap_simps]: "oget (omap_set k v m) k' = (if k' = k then v else oget m k')"
  by (simp add: oget_def omap_simps)

lemma oget_del [omap_simps]: "oget (omap_del k m) k' = (if k' = k then VUndef else oget m k')"
  by (simp add: oget_def omap_simps)

lemma oget_Nil [simp]: "oget [] k = VUndef"
  by (simp add: oget_def)

lemma object_assign_Nil [simp]: "object_assign t [] = t"
  by (simp add: object_assign_def)

lemma object_assign_snoc: "object_assign t (s @ [(k, v)]) = omap_set k v (object_assign t s)"
  by (simp add: object_assign_def)

lemma omap_get_snoc: "omap_get (m @ [(k, v)]) k' = (case omap_get m k' of None \<Rightarrow> if k' = k then Some v else None | Some x \<Rightarrow> Some x)"
  by (induction m) auto

lemma omap_get_assign [omap_simps]:
  assumes "omap_ok s"
  shows "omap_get (object_assign t s) k = (case omap_get s k of None \<Rightarrow> omap_get t k | Some v \<Rightarrow> Some v)"
  using assms
proof (induction s rule: rev_induct)
  case (snoc p s)
  obtain k0 v0 where p: "p = (k0, v0)" by (cases p)
  have "omap_get s k0 = None" "omap_ok s"
    using snoc.prems by (auto simp: omap_ok_def p map_of_eq_None_iff)
  then show ?case
    using snoc.IH by (auto simp: p object_assign_snoc omap_simps omap_get_snoc split: option.splits)
qed simp

lemma oget_assign [omap_simps]:
  "omap_ok s \<Longrightarrow> oget (object_assign t s) k = (if has_own s k then oget s k else oget t k)"
  by (auto simp: oget_def has_own_def omap_simps split: option.splits)

lemma omap_ok_assign [simp, intro]: "omap_ok t \<Longrightarrow> omap_ok (object_assign t s)"
proof (induction s rule: rev_induct)
  case (snoc p s)
  then show ?case by (cases p) (simp add: object_assign_snoc)
qed simp

lemma omap_ok_trim [simp, intro]: "omap_ok m \<Longrightarrow> omap_ok (trimUndefined m)"
  by (auto simp: omap_ok_def trimUndefined_def intro: distinct_map_filter)

lemma omap_get_trim [omap_simps]:
  "omap_ok m \<Longrightarrow> omap_get (trimUndefined m) k = (if oget m k = VUndef then None else omap_get m k)"
proof (induction m)
  case (Cons p m)
  obtain k0 v0 where p: "p = (k0, v0)" by (cases p)
  have ok: "omap_ok m" and fresh: "omap_get m k0 = None"
    using Cons.prems by (auto simp: omap_ok_def p map_of_eq_None_iff)
  have none: "omap_get (trimUndefined m) k0 = None" using Cons.IH [OF ok] fresh
    by (auto simp: trimUndefined_def map_of_eq_None_iff)
  show ?case
  proof (cases "k = k0")
    case True
    then show ?thesis using none by (simp add: p trimUndefined_def oget_def)
  next
    case False
    then have "oget ((k0, v0) # m) k = oget m k" by (simp add: oget_def)
    then show ?thesis using Cons.IH [OF ok] False by (simp add: p trimUndefined_def)
  qed
qed (simp add: trimUndefined_def)

lemma oget_trim [omap_simps]: "omap_ok m \<Longrightarrow> oget (trimUndefined m) k = oget m k"
  by (auto simp: oget_def omap_simps split: option.splits)

lemma has_own_trim [omap_simps]: "omap_ok m \<Longrightarrow> has_own (trimUndefined m) k \<longleftrightarrow> oget m k \<noteq> VUndef"
  by (auto simp: has_own_def omap_simps oget_def split: option.splits)

end
