(* ===== verification/Primitives.thy ===== *)
theory Primitives
  imports JsVal
begin

text \<open>
  The guards and coercions of \<open>src/src/Bridge/primitives.ts\<close> on JavaScript values: what the adapters
  read a bridge payload with. An \<open>undefined\<close> result is \<open>None\<close>. The RFC 3339 branch of the time stamps is
  not here: it rests on \<open>Date.parse\<close> outside the format the language fixes.
\<close>

fun isObject :: "jv \<Rightarrow> bool" where
  "isObject (VObj m) = True"
| "isObject (VToNumber r) = True"
| "isObject _ = False"

definition asString :: "jv \<Rightarrow> js_string option" where
  "asString x = str_opt x"

text \<open>A finite number.\<close>

fun asNumber :: "jv \<Rightarrow> jv option" where
  "asNumber (VNum n) = Some (VNum n)"
| "asNumber (VNonInt (Fraction f)) = Some (VNonInt (Fraction f))"
| "asNumber _ = None"

fun asBool :: "jv \<Rightarrow> bool option" where
  "asBool (VBool b) = Some b"
| "asBool _ = None"

definition asBoolOr :: "jv \<Rightarrow> bool \<Rightarrow> bool" where
  "asBoolOr x fallback = (case asBool x of None \<Rightarrow> fallback | Some b \<Rightarrow> b)"

subsection \<open>Bridge JIDs\<close>

fun is_string :: "jv \<Rightarrow> bool" where
  "is_string (VStr s) = True"
| "is_string _ = False"

definition isBridgeJid :: "jv \<Rightarrow> bool" where
  "isBridgeJid x \<longleftrightarrow> isObject x \<and> is_string (jprop x ''user'') \<and> is_string (jprop x ''server'')"

definition asBridgeJid :: "jv \<Rightarrow> jv option" where
  "asBridgeJid x = (if isBridgeJid x then Some x else None)"

definition bridgeJidToString :: "jv \<Rightarrow> js_string" where
  "bridgeJidToString j = template (jprop j ''user'') @ ''@'' @ template (jprop j ''server'')"

definition asJidString :: "jv \<Rightarrow> js_string option" where
  "asJidString x = map_option bridgeJidToString (asBridgeJid x)"

fun positive_integer :: "jv \<Rightarrow> bool" where
  "positive_integer (VNum n) = (n > 0)"
| "positive_integer _ = False"

definition bridgeJidToAddressString :: "jv \<Rightarrow> js_string" where
  "bridgeJidToAddressString j =
     (let user = str_of (jprop j ''user''); server = str_of (jprop j ''server'') in
      if user = [] then server
      else
        let rendersAgent = (server \<noteq> ''s.whatsapp.net'' \<and> server \<noteq> ''lid'' \<and> server \<noteq> ''hosted'' \<and> server \<noteq> ''hosted.lid'');
            agent = (if rendersAgent \<and> positive_integer (jprop j ''agent'') then ''.'' @ template (jprop j ''agent'') else []);
            device = (if positive_integer (jprop j ''device'') then '':'' @ template (jprop j ''device'') else [])
        in user @ agent @ device @ ''@'' @ server)"

definition asJidAddressString :: "jv \<Rightarrow> js_string option" where
  "asJidAddressString x = map_option bridgeJidToAddressString (asBridgeJid x)"

subsection \<open>64-bit integers\<close>

text \<open>\<open>low >>> 0\<close>: the number modulo \<open>2 ^ 32\<close>, truncated first; not-a-number and the infinities give 0.\<close>

fun to_uint32 :: "jv \<Rightarrow> int option" where
  "to_uint32 (VNum n) = Some (n mod 2 ^ 32)"
| "to_uint32 (VNonInt (Fraction f)) = Some ((if f < 0 then f + 1 else f) mod 2 ^ 32)"
| "to_uint32 (VNonInt x) = Some 0"
| "to_uint32 _ = None"

text \<open>The high half as a number; a missing half is 0, and a half that is no integer is no 64-bit value.\<close>

fun high_half :: "jv \<Rightarrow> int option" where
  "high_half (VNum n) = Some n"
| "high_half (VNonInt x) = None"
| "high_half _ = Some 0"

definition safe_only :: "int \<Rightarrow> int option" where
  "safe_only n = (if safe_integer n then Some n else None)"

definition long_value :: "jv \<Rightarrow> jv \<Rightarrow> int option" where
  "long_value low high =
     (case to_uint32 low of
        None \<Rightarrow> None
      | Some l \<Rightarrow> (case high_half high of None \<Rightarrow> None | Some h \<Rightarrow> safe_only (h * 2 ^ 32 + l)))"

fun asInt64 :: "jv \<Rightarrow> int option" where
  "asInt64 (VNum n) = safe_only n"
| "asInt64 (VToNumber r) = (case r of VNum n \<Rightarrow> safe_only n | _ \<Rightarrow> None)"
| "asInt64 (VObj m) = long_value (oget m ''low'') (oget m ''high'')"
| "asInt64 _ = None"

fun asDurationSeconds :: "jv \<Rightarrow> jv option" where
  "asDurationSeconds (VObj m) = map_option VNum (asInt64 (oget m ''secs''))"
| "asDurationSeconds x = asNumber x"

definition MAX_DATE_SECONDS :: int where
  "MAX_DATE_SECONDS = 8640000000000"

text \<open>\<open>now\<close> is \<open>Date.now()\<close> in milliseconds; \<open>None\<close> is \<open>undefined\<close> in the argument and the result.\<close>

definition absoluteFromDuration :: "int \<Rightarrow> int option \<Rightarrow> int option" where
  "absoluteFromDuration now seconds =
     (case seconds of
        None \<Rightarrow> None
      | Some s \<Rightarrow>
          let deadline = now div 1000 + s
          in if safe_integer deadline \<and> \<bar>deadline\<bar> \<le> MAX_DATE_SECONDS then Some deadline else None)"

definition asStringArray :: "jv \<Rightarrow> js_string list" where
  "asStringArray x = List.map_filter str_opt (elems_of x)"

subsection \<open>Exactness\<close>

text \<open>The halves a 64-bit integer is carried in: both signed 32-bit.\<close>

definition long_low :: "int \<Rightarrow> int" where
  "long_low v = signed_take_bit 31 v"

definition long_high :: "int \<Rightarrow> int" where
  "long_high v = v div 2 ^ 32"

definition long_obj :: "int \<Rightarrow> jv" where
  "long_obj v = VObj [(''low'', VNum (long_low v)), (''high'', VNum (long_high v))]"

lemma long_low_mod: "long_low v mod 2 ^ 32 = v mod 2 ^ 32"
  using take_bit_signed_take_bit [of 32 31 v] by (simp add: long_low_def take_bit_eq_mod)

lemma safe_only_Some: "safe_only n = Some m \<Longrightarrow> m = n \<and> safe_integer n"
  by (auto simp: safe_only_def split: if_splits)

lemma asInt64_safe: "asInt64 x = Some n \<Longrightarrow> safe_integer n"
  by (cases x) (auto simp: long_value_def dest!: safe_only_Some split: jv.splits option.splits)

lemma int64_exact_or_missing_parts:
  "- (2 ^ 63) \<le> v \<Longrightarrow> v < 2 ^ 63 \<Longrightarrow>
     asInt64 (long_obj v) = (if safe_integer v then Some v else None) \<and>
     - (2 ^ 31) \<le> long_low v \<and> long_low v < 2 ^ 31 \<and> - (2 ^ 31) \<le> long_high v \<and> long_high v < 2 ^ 31"
  "asInt64 x = Some n \<Longrightarrow> \<bar>n\<bar> \<le> 2 ^ 53 - 1"
  "absoluteFromDuration now s = Some d \<Longrightarrow> \<bar>d\<bar> * 1000 \<le> 8640000000000000"
proof -
  show "asInt64 (long_obj v) = (if safe_integer v then Some v else None) \<and>
     - (2 ^ 31) \<le> long_low v \<and> long_low v < 2 ^ 31 \<and> - (2 ^ 31) \<le> long_high v \<and> long_high v < 2 ^ 31"
    if "- (2 ^ 63) \<le> v" "v < 2 ^ 63"
  proof (intro conjI)
    have "long_high v * 2 ^ 32 + long_low v mod 2 ^ 32 = v"
      unfolding long_low_mod long_high_def by simp
    then show "asInt64 (long_obj v) = (if safe_integer v then Some v else None)"
      by (simp add: long_obj_def long_value_def oget_def safe_only_def)
    show "- (2 ^ 31) \<le> long_low v" "long_low v < 2 ^ 31"
      using signed_take_bit_int_greater_eq_minus_exp [of 31 v] signed_take_bit_int_less_exp [of 31 v]
      by (simp_all add: long_low_def)
    show "- (2 ^ 31) \<le> long_high v" "long_high v < 2 ^ 31"
      using that by (simp_all add: long_high_def)
  qed
  show "\<bar>n\<bar> \<le> 2 ^ 53 - 1" if "asInt64 x = Some n"
    using asInt64_safe [OF that] by (simp add: safe_integer_def)
  show "\<bar>d\<bar> * 1000 \<le> 8640000000000000" if "absoluteFromDuration now s = Some d"
    using that by (auto simp: absoluteFromDuration_def MAX_DATE_SECONDS_def Let_def split: option.splits if_splits)
qed

text \<open>
  C26: 64-bit fields are exact or missing, never rounded. A 64-bit integer carried as its two signed
  halves reads back as itself when it is within \<open>2 ^ 53 - 1\<close> in absolute value, negative values included, and is
  refused otherwise; whatever the payload holds, a result is always a safe integer; and a deadline
  computed from a duration is always one a \<open>Date\<close> can hold.
\<close>

theorem int64_exact_or_missing:
  "(- (2 ^ 63) \<le> v \<longrightarrow> v < 2 ^ 63 \<longrightarrow> (asInt64 (long_obj v) = (if safe_integer v then Some v else None) \<and>
     - (2 ^ 31) \<le> long_low v \<and> long_low v < 2 ^ 31 \<and> - (2 ^ 31) \<le> long_high v \<and> long_high v < 2 ^ 31)) \<and>
   (asInt64 x = Some n \<longrightarrow> \<bar>n\<bar> \<le> 2 ^ 53 - 1) \<and>
   (absoluteFromDuration now s = Some d \<longrightarrow> \<bar>d\<bar> * 1000 \<le> 8640000000000000)"
proof -
  have p1: "- (2 ^ 63) \<le> v \<longrightarrow> v < 2 ^ 63 \<longrightarrow> (asInt64 (long_obj v) = (if safe_integer v then Some v else None) \<and>
     - (2 ^ 31) \<le> long_low v \<and> long_low v < 2 ^ 31 \<and> - (2 ^ 31) \<le> long_high v \<and> long_high v < 2 ^ 31)"
    by (rule impI, rule impI, rule int64_exact_or_missing_parts(1), (assumption)+)
  have p2: "asInt64 x = Some n \<longrightarrow> \<bar>n\<bar> \<le> 2 ^ 53 - 1"
    by (rule impI, rule int64_exact_or_missing_parts(2), (assumption)+)
  have p3: "absoluteFromDuration now s = Some d \<longrightarrow> \<bar>d\<bar> * 1000 \<le> 8640000000000000"
    by (rule impI, rule int64_exact_or_missing_parts(3), (assumption)+)
  show ?thesis by (rule conjI [OF p1 conjI [OF p2 p3]])
qed

theorem int64_exact_or_missing_witness:
  "asInt64 (long_obj (- 4294967296)) = Some (- 4294967296) \<and> asInt64 (long_obj (2 ^ 53)) = None \<and>
   \<bar>- 4294967296\<bar> \<le> (2 :: int) ^ 53 - 1 \<and> \<bar>1700003600\<bar> * 1000 \<le> (8640000000000000 :: int)"
proof -
  have a: "asInt64 (long_obj (- 4294967296)) = Some (- 4294967296)"
    using int64_exact_or_missing [THEN conjunct1, rule_format, of "- 4294967296"] by (simp add: safe_integer_def)
  have b: "asInt64 (long_obj (2 ^ 53)) = None"
    using int64_exact_or_missing [THEN conjunct1, rule_format, of "2 ^ 53"] by (simp add: safe_integer_def)
  have "absoluteFromDuration 1700000000000 (Some 3600) = Some 1700003600" by code_simp
  from int64_exact_or_missing [THEN conjunct2, THEN conjunct2, rule_format, OF this] int64_exact_or_missing [THEN conjunct2, THEN conjunct1, rule_format, OF a] a b show ?thesis by blast
qed

end
