(* ===== verification/MessageContent.thy ===== *)
theory MessageContent
  imports JsVal Jid
begin

text \<open>
  \<open>src/src/Media/content.ts\<close> and the message rules of \<open>src/src/Utils/process-message-core.ts\<close>:
  finding the content of an envelope, telling real messages from control messages, and normalising
  the keys of a message. Messages are plain objects.
\<close>

subsection \<open>Content types\<close>

definition isCommonContentKey :: "js_string \<Rightarrow> bool" where
  "isCommonContentKey key \<longleftrightarrow>
     key \<in> set [''conversation'', ''extendedTextMessage'', ''imageMessage'', ''videoMessage'', ''audioMessage'',
       ''stickerMessage'', ''documentMessage'', ''reactionMessage'', ''protocolMessage'', ''pollCreationMessage'']"

fun first_content_key :: "js_string list \<Rightarrow> js_string option" where
  "first_content_key [] = None"
| "first_content_key (key # keys) =
     (if isCommonContentKey key then Some key
      else if str_includes key ''Message'' \<and> key \<noteq> ''senderKeyDistributionMessage'' then Some key
      else first_content_key keys)"

definition getContentType :: "jv \<Rightarrow> js_string option" where
  "getContentType content =
     (if \<not> truthy content then None else first_content_key (map fst (fields_of content)))"

subsection \<open>Unwrapping\<close>

definition future_proof_fields :: "js_string list" where
  "future_proof_fields = [''ephemeralMessage'', ''viewOnceMessage'', ''documentWithCaptionMessage'',
     ''viewOnceMessageV2'', ''viewOnceMessageV2Extension'', ''editedMessage'', ''associatedChildMessage'',
     ''groupStatusMessage'', ''groupStatusMessageV2'']"

definition future_proof_field :: "jv \<Rightarrow> js_string option" where
  "future_proof_field message = List.find (\<lambda>k. truthy (jprop message k)) future_proof_fields"

definition getFutureProofMessage :: "jv \<Rightarrow> jv" where
  "getFutureProofMessage message =
     (case future_proof_field message of
        Some k \<Rightarrow> jprop message k
      | None \<Rightarrow> jprop message ''groupStatusMessageV2'')"

fun unwrap_content :: "nat \<Rightarrow> jv \<Rightarrow> jv" where
  "unwrap_content 0 content = content"
| "unwrap_content (Suc n) content =
     (let inner = getFutureProofMessage content
      in if \<not> truthy inner then content else unwrap_content n (jprop inner ''message''))"

definition normalizeMessageContent :: "jv \<Rightarrow> jv" where
  "normalizeMessageContent content = (if \<not> truthy content then VUndef else unwrap_content 5 content)"

definition extractFromTemplateMessage :: "jv \<Rightarrow> jv" where
  "extractFromTemplateMessage msg =
     (if truthy (jprop msg ''imageMessage'') then VObj [(''imageMessage'', jprop msg ''imageMessage'')]
      else if truthy (jprop msg ''documentMessage'') then VObj [(''documentMessage'', jprop msg ''documentMessage'')]
      else if truthy (jprop msg ''videoMessage'') then VObj [(''videoMessage'', jprop msg ''videoMessage'')]
      else if truthy (jprop msg ''locationMessage'') then VObj [(''locationMessage'', jprop msg ''locationMessage'')]
      else VObj [(''conversation'',
        if has_own (fields_of msg) ''contentText'' then jprop msg ''contentText''
        else if has_own (fields_of msg) ''hydratedContentText'' then jprop msg ''hydratedContentText''
        else VStr [])])"

definition extractMessageContent :: "jv \<Rightarrow> jv" where
  "extractMessageContent content0 =
     (let content = normalizeMessageContent content0;
          buttons = jprop content ''buttonsMessage'';
          template = jprop content ''templateMessage''
      in if truthy buttons then extractFromTemplateMessage buttons
         else if truthy (jprop template ''hydratedFourRowTemplate'') then extractFromTemplateMessage (jprop template ''hydratedFourRowTemplate'')
         else if truthy (jprop template ''hydratedTemplate'') then extractFromTemplateMessage (jprop template ''hydratedTemplate'')
         else if truthy (jprop template ''fourRowTemplate'') then extractFromTemplateMessage (jprop template ''fourRowTemplate'')
         else content)"

subsection \<open>Real messages\<close>

text \<open>The stub types: missed calls, and a participant added.\<close>

definition REAL_MSG_STUB_TYPES :: "int list" where
  "REAL_MSG_STUB_TYPES = [46, 45, 41, 40]"

definition REAL_MSG_REQ_ME_STUB_TYPES :: "int list" where
  "REAL_MSG_REQ_ME_STUB_TYPES = [27]"

definition isRealMessage :: "obj \<Rightarrow> bool" where
  "isRealMessage message =
     (let normalizedContent = normalizeMessageContent (oget message ''message'');
          hasSomeContent = (getContentType normalizedContent \<noteq> None)
      in (truthy normalizedContent \<or>
          oget message ''messageStubType'' \<in> VNum ` set REAL_MSG_STUB_TYPES \<or>
          oget message ''messageStubType'' \<in> VNum ` set REAL_MSG_REQ_ME_STUB_TYPES) \<and>
         hasSomeContent \<and>
         \<not> truthy (jprop normalizedContent ''protocolMessage'') \<and>
         \<not> truthy (jprop normalizedContent ''reactionMessage'') \<and>
         \<not> truthy (jprop normalizedContent ''pollUpdateMessage''))"

definition shouldIncrementChatUnread :: "obj \<Rightarrow> bool" where
  "shouldIncrementChatUnread message \<longleftrightarrow>
     \<not> truthy (jprop (oget message ''key'') ''fromMe'') \<and> \<not> truthy (oget message ''messageStubType'')"

subsection \<open>Normalising the keys of a message\<close>

definition normalizeMessageJid :: "jv \<Rightarrow> jv" where
  "normalizeMessageJid jid =
     (if \<not> truthy jid then VUndef
      else
        let hostedPn = isHostedPnUser (str_opt jid) in
        if \<not> hostedPn \<and> \<not> isHostedLidUser (str_opt jid) then VStr (jidNormalizedUser (str_opt jid))
        else VStr (jidEncode
               (case jidDecode (str_opt jid) of None \<Rightarrow> UserNull | Some d \<Rightarrow> UserStr (user d))
               (if hostedPn then ''s.whatsapp.net'' else ''lid'') None None))"

definition normalise_field :: "js_string \<Rightarrow> obj \<Rightarrow> obj" where
  "normalise_field field key =
     (if \<not> has_own key field then key
      else omap_set field (jv_coalesce (normalizeMessageJid (oget key field)) (VStr [])) key)"

text \<open>\<open>None\<close> is the \<open>TypeError\<close> of a nested key that is missing.\<close>

definition normaliseKey :: "obj \<Rightarrow> js_string \<Rightarrow> js_string \<Rightarrow> jv \<Rightarrow> jv option" where
  "normaliseKey key meId meLid msgKey =
     (if truthy (oget key ''fromMe'') then Some msgKey
      else case msgKey of
        VObj m \<Rightarrow>
          let author = str_opt (jv_or (oget m ''participant'') (oget m ''remoteJid''));
              mine = (if \<not> truthy (oget m ''fromMe'')
                      then areJidsSameUser author (Some meId) \<or> areJidsSameUser author (Some meLid)
                      else False);
              m1 = omap_set ''fromMe'' (VBool mine) m;
              m2 = omap_set ''remoteJid'' (oget key ''remoteJid'') m1
          in Some (VObj (if truthy (oget m2 ''participant'') then m2
                         else omap_set ''participant'' (oget key ''participant'') m2))
      | _ \<Rightarrow> None)"

text \<open>Changing a nested property in place, where the object has it.\<close>

definition replace_field :: "js_string \<Rightarrow> (jv \<Rightarrow> jv option) \<Rightarrow> jv \<Rightarrow> jv option" where
  "replace_field k g v =
     (case v of
        VObj m \<Rightarrow>
          (case omap_get m k of
             None \<Rightarrow> Some v
           | Some x \<Rightarrow> (case g x of None \<Rightarrow> None | Some y \<Rightarrow> Some (VObj (omap_set k y m))))
      | _ \<Rightarrow> Some v)"

text \<open>Following \<open>normalizeMessageContent\<close> to the content and changing it there.\<close>

fun update_content :: "(jv \<Rightarrow> jv option) \<Rightarrow> nat \<Rightarrow> jv \<Rightarrow> jv option" where
  "update_content f 0 content = f content"
| "update_content f (Suc n) content =
     (case future_proof_field content of
        None \<Rightarrow> f content
      | Some k \<Rightarrow> replace_field k (replace_field ''message'' (update_content f n)) content)"

text \<open>\<open>content.field.inner!\<close> given to \<open>normaliseKey\<close> when \<open>content.field\<close> is truthy.\<close>

definition normalise_nested :: "(jv \<Rightarrow> jv option) \<Rightarrow> js_string \<Rightarrow> js_string \<Rightarrow> jv \<Rightarrow> jv option" where
  "normalise_nested nk field inner content =
     (if \<not> truthy (jprop content field) then Some content
      else if has_own (fields_of (jprop content field)) inner
      then replace_field field (replace_field inner nk) content
      else (case nk VUndef of None \<Rightarrow> None | Some _ \<Rightarrow> Some content))"

definition cleanMessage :: "js_string \<Rightarrow> js_string \<Rightarrow> obj \<Rightarrow> obj option" where
  "cleanMessage meId meLid message =
     (let key = normalise_field ''participant'' (normalise_field ''remoteJid'' (fields_of (oget message ''key'')));
          message1 = omap_set ''key'' (VObj key) message;
          nk = normaliseKey key meId meLid;
          body = (\<lambda>content. Option.bind (normalise_nested nk ''reactionMessage'' ''key'' content)
                   (normalise_nested nk ''pollUpdateMessage'' ''pollCreationMessageKey''))
      in if \<not> truthy (oget message1 ''message'') then Some message1
         else (case update_content body 5 (oget message1 ''message'') of
                 None \<Rightarrow> None
               | Some c \<Rightarrow> Some (omap_set ''message'' c message1)))"

text \<open>\<open>getChatId\<close>; \<open>Inl\<close> is the \<open>Boom\<close> it throws.\<close>

definition getChatId :: "obj \<Rightarrow> js_string + jv" where
  "getChatId key =
     (let remoteJid = oget key ''remoteJid''; participant = oget key ''participant'' in
      if \<not> truthy remoteJid then Inl ''Cannot derive chat id: message key is missing remoteJid''
      else if isJidBroadcast (str_opt remoteJid) \<and> \<not> isJidStatusBroadcast (str_of remoteJid) \<and> \<not> truthy (oget key ''fromMe'')
      then if \<not> truthy participant then Inl ''Cannot derive chat id: broadcast message key is missing participant''
           else Inr participant
      else Inr remoteJid)"

subsection \<open>Unwrapping removes the envelopes\<close>

text \<open>An envelope: one wrapper field around a message.\<close>

definition envelope :: "js_string \<Rightarrow> jv \<Rightarrow> jv" where
  "envelope k content = VObj [(k, VObj [(''message'', content)])]"

lemma jprop_envelope: "jprop (envelope k c) k' = (if k' = k then VObj [(''message'', c)] else VUndef)"
  by (simp add: envelope_def oget_def)

lemma envelope_field:
  assumes "k \<in> set future_proof_fields"
  shows "future_proof_field (envelope k c) = Some k"
proof -
  have "find (\<lambda>k'. k' = k) xs = Some k" if "k \<in> set xs" for xs :: "js_string list"
    using that by (induction xs) auto
  moreover have "(\<lambda>k'. truthy (jprop (envelope k c) k')) = (\<lambda>k'. k' = k)"
    by (rule ext) (simp add: jprop_envelope)
  ultimately show ?thesis using assms by (simp add: future_proof_field_def)
qed

lemma future_proof_None:
  assumes "future_proof_field c = None"
  shows "\<not> truthy (getFutureProofMessage c)"
proof -
  have "\<not> truthy (jprop c k)" if "k \<in> set future_proof_fields" for k
    using assms that by (auto simp: future_proof_field_def find_None_iff)
  from this [of "''groupStatusMessageV2''"] show ?thesis
    using assms by (simp add: getFutureProofMessage_def future_proof_fields_def)
qed

lemma unwrap_envelope:
  "k \<in> set future_proof_fields \<Longrightarrow> unwrap_content (Suc n) (envelope k c) = unwrap_content n c"
  by (simp add: getFutureProofMessage_def envelope_field jprop_envelope oget_def)

lemma unwrap_done: "future_proof_field c = None \<Longrightarrow> unwrap_content n c = c"
  using future_proof_None by (cases n) auto

lemma truthy_envelope [simp]: "truthy (envelope k c)"
  by (simp add: envelope_def)

lemma unwrap_envelopes:
  "set ks \<subseteq> set future_proof_fields \<Longrightarrow> unwrap_content n (foldr envelope ks c) =
    (if length ks \<le> n then unwrap_content (n - length ks) c else foldr envelope (drop n ks) c)"
proof (induction ks arbitrary: n)
  case (Cons k ks)
  show ?case
  proof (cases n)
    case (Suc m)
    have "unwrap_content n (foldr envelope (k # ks) c) = unwrap_content m (foldr envelope ks c)"
      using Cons.prems by (simp add: Suc unwrap_envelope del: unwrap_content.simps)
    then show ?thesis using Cons.IH [of m] Cons.prems by (simp add: Suc del: unwrap_content.simps)
  qed simp
qed simp

lemma unwrapping_finds_content_parts:
  "set ks \<subseteq> set future_proof_fields \<Longrightarrow> truthy c \<Longrightarrow> future_proof_field c = None \<Longrightarrow> length ks \<le> 5 \<Longrightarrow>
     normalizeMessageContent (foldr envelope ks c) = c"
  "set ks \<subseteq> set future_proof_fields \<Longrightarrow> 5 < length ks \<Longrightarrow>
     normalizeMessageContent (foldr envelope ks c) = foldr envelope (drop 5 ks) c"
  "first_content_key keys =
     List.find (\<lambda>key. key = ''conversation'' \<or> (str_includes key ''Message'' \<and> key \<noteq> ''senderKeyDistributionMessage'')) keys"
proof -
  have t: "truthy (foldr envelope ks c)" if "truthy c \<or> ks \<noteq> []" using that by (cases ks) auto
  show "normalizeMessageContent (foldr envelope ks c) = c"
    if "set ks \<subseteq> set future_proof_fields" "truthy c" "future_proof_field c = None" "length ks \<le> 5"
    using that t by (simp add: normalizeMessageContent_def unwrap_envelopes unwrap_done)
  show "normalizeMessageContent (foldr envelope ks c) = foldr envelope (drop 5 ks) c"
    if "set ks \<subseteq> set future_proof_fields" "5 < length ks"
    using that t by (cases "ks = []") (simp_all add: normalizeMessageContent_def unwrap_envelopes)
  have common: "isCommonContentKey key \<Longrightarrow> key = ''conversation'' \<or> (str_includes key ''Message'' \<and> key \<noteq> ''senderKeyDistributionMessage'')" for key
    by (auto simp: isCommonContentKey_def starts_with_def)
  have conv: "isCommonContentKey ''conversation''" by (simp add: isCommonContentKey_def)
  show "first_content_key keys =
     List.find (\<lambda>key. key = ''conversation'' \<or> (str_includes key ''Message'' \<and> key \<noteq> ''senderKeyDistributionMessage'')) keys"
  proof (induction keys)
    case (Cons key keys)
    then show ?case using common [of key] conv by (cases "key = ''conversation''") auto
  qed simp
qed

text \<open>
  Unwrapping. A content in up to five envelopes, of any kinds and in any nesting, is found; deeper
  nesting loses exactly the five outer ones; content that is not wrapped is itself; and the common-key
  shortcut of \<open>getContentType\<close> never changes which key names the content.
\<close>

theorem unwrapping_finds_content:
  "(set ks \<subseteq> set future_proof_fields \<longrightarrow> truthy c \<longrightarrow> future_proof_field c = None \<longrightarrow> length ks \<le> 5 \<longrightarrow> normalizeMessageContent (foldr envelope ks c) = c) \<and>
   (set ks \<subseteq> set future_proof_fields \<longrightarrow> 5 < length ks \<longrightarrow> normalizeMessageContent (foldr envelope ks c) = foldr envelope (drop 5 ks) c) \<and>
   (first_content_key keys =
     List.find (\<lambda>key. key = ''conversation'' \<or> (str_includes key ''Message'' \<and> key \<noteq> ''senderKeyDistributionMessage'')) keys)"
proof -
  have p1: "set ks \<subseteq> set future_proof_fields \<longrightarrow> truthy c \<longrightarrow> future_proof_field c = None \<longrightarrow> length ks \<le> 5 \<longrightarrow> normalizeMessageContent (foldr envelope ks c) = c"
    by (rule impI, rule impI, rule impI, rule impI, rule unwrapping_finds_content_parts(1), (assumption)+)
  have p2: "set ks \<subseteq> set future_proof_fields \<longrightarrow> 5 < length ks \<longrightarrow> normalizeMessageContent (foldr envelope ks c) = foldr envelope (drop 5 ks) c"
    by (rule impI, rule impI, rule unwrapping_finds_content_parts(2), (assumption)+)
  have p3: "first_content_key keys =
     List.find (\<lambda>key. key = ''conversation'' \<or> (str_includes key ''Message'' \<and> key \<noteq> ''senderKeyDistributionMessage'')) keys"
    by (rule unwrapping_finds_content_parts(3))
  show ?thesis by (rule conjI [OF p1 conjI [OF p2 p3]])
qed

theorem unwrapping_finds_content_witness:
  "normalizeMessageContent (envelope ''ephemeralMessage'' (envelope ''viewOnceMessageV2'' (VObj [(''conversation'', VStr ''hi'')]))) =
     VObj [(''conversation'', VStr ''hi'')] \<and>
   normalizeMessageContent (foldr envelope (replicate 6 ''editedMessage'') VNull) = envelope ''editedMessage'' VNull"
  using unwrapping_finds_content [THEN conjunct1, rule_format, of "[''ephemeralMessage'', ''viewOnceMessageV2'']" "VObj [(''conversation'', VStr ''hi'')]"]
    unwrapping_finds_content [THEN conjunct2, THEN conjunct1, rule_format, of "replicate 6 ''editedMessage''" VNull]
  by (simp add: future_proof_fields_def future_proof_field_def oget_def)

subsection \<open>Real messages\<close>

lemma no_content_none: "\<not> truthy c \<Longrightarrow> getContentType c = None"
  by (simp add: getContentType_def)

text \<open>
  Real messages. A message is real exactly when its unwrapped content names a content type and is no
  protocol message, reaction or poll vote. In particular the two tables of stub types have no
  influence: a missed call or a participant notice without content is never real, although the
  tables are there to admit it. A real message with no stub type that someone else sent counts as unread.
\<close>

theorem real_message_ignores_stub_tables:
  "isRealMessage message \<longleftrightarrow>
     (let c = normalizeMessageContent (oget message ''message'')
      in getContentType c \<noteq> None \<and> \<not> truthy (jprop c ''protocolMessage'') \<and>
         \<not> truthy (jprop c ''reactionMessage'') \<and> \<not> truthy (jprop c ''pollUpdateMessage''))"
  "isRealMessage (omap_set ''messageStubType'' stub message) = isRealMessage message"
  "\<not> truthy (oget message ''message'') \<Longrightarrow> \<not> isRealMessage message"
proof -
  show spec: "isRealMessage message \<longleftrightarrow>
     (let c = normalizeMessageContent (oget message ''message'')
      in getContentType c \<noteq> None \<and> \<not> truthy (jprop c ''protocolMessage'') \<and>
         \<not> truthy (jprop c ''reactionMessage'') \<and> \<not> truthy (jprop c ''pollUpdateMessage''))" for message
    using no_content_none [of "normalizeMessageContent (oget message ''message'')"]
    by (cases "truthy (normalizeMessageContent (oget message ''message''))") (simp_all add: isRealMessage_def Let_def)
  show "isRealMessage (omap_set ''messageStubType'' stub message) = isRealMessage message"
    unfolding spec by (simp add: omap_simps)
  show "\<not> isRealMessage message" if "\<not> truthy (oget message ''message'')"
    using that unfolding spec by (simp add: normalizeMessageContent_def no_content_none)
qed

theorem real_message_ignores_stub_tables_witness:
  "\<not> isRealMessage [(''key'', VObj []), (''messageStubType'', VNum 40)]"
  by (rule real_message_ignores_stub_tables(3)) (simp add: oget_def)

subsection \<open>Cleaned messages\<close>

lemma normalise_field_effect:
  "omap_get (normalise_field f key) k =
    (if k = f \<and> has_own key f then Some (jv_coalesce (normalizeMessageJid (oget key f)) (VStr [])) else omap_get key k)"
  by (auto simp: normalise_field_def omap_simps has_own_def)

lemma normalizeMessageJid_string: "normalizeMessageJid v = VUndef \<or> (\<exists>s. normalizeMessageJid v = VStr s)"
  by (auto simp: normalizeMessageJid_def Let_def)

lemma normalise_nested_skip: "\<not> truthy (jprop c f) \<Longrightarrow> normalise_nested nk f i c = Some c"
  by (simp add: normalise_nested_def)

lemma body_skip:
  assumes "\<not> truthy (jprop c ''reactionMessage'')" and "\<not> truthy (jprop c ''pollUpdateMessage'')"
  shows "Option.bind (normalise_nested nk ''reactionMessage'' ''key'' c)
    (normalise_nested nk ''pollUpdateMessage'' ''pollCreationMessageKey'') = Some c"
  using assms by (simp add: normalise_nested_skip)

lemma update_self: "omap_get m k = Some v \<Longrightarrow> omap_set k v m = m"
  by (induction m) (auto split: if_splits)

lemma replace_field_id:
  assumes "\<And>x. g x = Some x"
  shows "replace_field k g v = Some v"
  using assms by (cases v) (auto simp: replace_field_def update_self split: option.splits)

lemma normalise_nested_id: "(\<And>x. nk x = Some x) \<Longrightarrow> normalise_nested nk f i c = Some c"
  by (simp add: normalise_nested_def replace_field_id)

lemma update_content_id: "(\<And>x. f x = Some x) \<Longrightarrow> update_content f n c = Some c"
  by (induction n arbitrary: c) (auto simp: replace_field_id split: option.splits)

lemma replace_field_own: "replace_field k g (VObj [(k, x)]) = map_option (\<lambda>y. VObj [(k, y)]) (g x)"
  by (cases "g x") (simp_all add: replace_field_def)

lemma update_content_envelopes:
  assumes "set ks \<subseteq> set future_proof_fields" and "length ks \<le> n" and "future_proof_field c = None"
  shows "update_content f n (foldr envelope ks c) = map_option (foldr envelope ks) (f c)"
  using assms
proof (induction ks arbitrary: n)
  case Nil
  then show ?case by (cases n) (simp_all add: option.map_ident)
next
  case (Cons k ks)
  then obtain m where m: "n = Suc m" by (cases n) auto
  have "update_content f n (foldr envelope (k # ks) c) =
      replace_field k (replace_field ''message'' (update_content f m)) (envelope k (foldr envelope ks c))"
    using Cons.prems by (simp add: m envelope_field)
  also have "\<dots> = map_option (envelope k) (update_content f m (foldr envelope ks c))"
    by (simp add: envelope_def [abs_def] replace_field_own option.map_comp comp_def)
  finally show ?case using Cons.IH [of m] Cons.prems by (simp add: m option.map_comp comp_def)
qed

text \<open>The key the nested key of another's reaction becomes.\<close>

definition reaction_key :: "js_string \<Rightarrow> js_string \<Rightarrow> obj \<Rightarrow> obj \<Rightarrow> obj" where
  "reaction_key meId meLid key m =
     fields_of (case normaliseKey key meId meLid (VObj m) of Some v \<Rightarrow> v | None \<Rightarrow> VNull)"

lemma normaliseKey_obj: "normaliseKey key meId meLid (VObj m) = Some (VObj (reaction_key meId meLid key m))"
  by (simp add: reaction_key_def normaliseKey_def Let_def)

lemma reaction_key_fields:
  assumes "\<not> truthy (oget key ''fromMe'')"
  shows "oget (reaction_key meId meLid key m) ''remoteJid'' = oget key ''remoteJid''"
    and "oget (reaction_key meId meLid key m) ''participant'' = jv_or (oget m ''participant'') (oget key ''participant'')"
    and "oget (reaction_key meId meLid key m) ''fromMe'' =
      VBool (\<not> truthy (oget m ''fromMe'') \<and>
        (areJidsSameUser (str_opt (jv_or (oget m ''participant'') (oget m ''remoteJid''))) (Some meId) \<or>
         areJidsSameUser (str_opt (jv_or (oget m ''participant'') (oget m ''remoteJid''))) (Some meLid)))"
    and "k \<notin> {''remoteJid'', ''participant'', ''fromMe''} \<Longrightarrow> oget (reaction_key meId meLid key m) k = oget m k"
  using assms by (auto simp: reaction_key_def normaliseKey_def Let_def omap_simps jv_or_def)

definition clean_key :: "obj \<Rightarrow> obj" where
  "clean_key message = normalise_field ''participant'' (normalise_field ''remoteJid'' (fields_of (oget message ''key'')))"

lemma normalise_field_has_own: "has_own (normalise_field f key) k = has_own key k"
  by (simp add: has_own_def normalise_field_effect)

lemma normalise_field_other: "k \<noteq> f \<Longrightarrow> oget (normalise_field f key) k = oget key k"
  by (simp add: oget_def normalise_field_effect)

lemma clean_key_get:
  "omap_get (clean_key message) k =
     (let key = fields_of (oget message ''key'') in
      if k \<in> {''remoteJid'', ''participant''} \<and> has_own key k
      then Some (jv_coalesce (normalizeMessageJid (oget key k)) (VStr [])) else omap_get key k)"
  unfolding clean_key_def Let_def
  by (cases "k = ''participant''"; cases "k = ''remoteJid''")
    (simp_all add: normalise_field_effect normalise_field_has_own normalise_field_other)

lemma cleanMessage_shape:
  assumes "cleanMessage meId meLid message = Some m'"
  shows "oget m' ''key'' = VObj (clean_key message)"
    and "k \<noteq> ''key'' \<Longrightarrow> k \<noteq> ''message'' \<Longrightarrow> oget m' k = oget message k"
  using assms by (auto simp: cleanMessage_def Let_def omap_simps clean_key_def split: if_splits option.splits)

lemma reaction_body:
  assumes "omap_get content ''reactionMessage'' = Some (VObj r)" and "omap_get r ''key'' = Some (VObj rk)"
    and "\<not> truthy (oget content ''pollUpdateMessage'')"
  shows "Option.bind (normalise_nested (normaliseKey key meId meLid) ''reactionMessage'' ''key'' (VObj content))
    (normalise_nested (normaliseKey key meId meLid) ''pollUpdateMessage'' ''pollCreationMessageKey'') =
    Some (VObj (omap_set ''reactionMessage'' (VObj (omap_set ''key'' (VObj (reaction_key meId meLid key rk)) r)) content))"
proof -
  have "oget content ''reactionMessage'' = VObj r" "has_own r ''key''"
    using assms by (simp_all add: oget_def has_own_def)
  then show ?thesis
    using assms by (simp add: normalise_nested_def replace_field_def normaliseKey_obj omap_simps)
qed

lemma clean_message_effect_parts:
  "cleanMessage meId meLid message = Some m' \<Longrightarrow>
     omap_get (fields_of (oget m' ''key'')) k =
       (let key = fields_of (oget message ''key'') in
        if k \<in> {''remoteJid'', ''participant''} \<and> has_own key k
        then Some (jv_coalesce (normalizeMessageJid (oget key k)) (VStr [])) else omap_get key k) \<and>
     (f \<noteq> ''key'' \<and> f \<noteq> ''message'' \<longrightarrow> oget m' f = oget message f)"
  "truthy (oget (clean_key message) ''fromMe'') \<Longrightarrow>
     cleanMessage meId meLid message = Some (omap_set ''key'' (VObj (clean_key message)) message)"
  "\<not> truthy (oget (clean_key message) ''fromMe'') \<Longrightarrow>
     oget message ''message'' = foldr envelope ks (VObj content) \<Longrightarrow> set ks \<subseteq> set future_proof_fields \<Longrightarrow> length ks \<le> 5 \<Longrightarrow>
     future_proof_field (VObj content) = None \<Longrightarrow> omap_get content ''reactionMessage'' = Some (VObj r) \<Longrightarrow>
     omap_get r ''key'' = Some (VObj rk) \<Longrightarrow> \<not> truthy (oget content ''pollUpdateMessage'') \<Longrightarrow>
     (\<exists>m' rk'. cleanMessage meId meLid message = Some m' \<and>
       oget m' ''message'' = foldr envelope ks (VObj (omap_set ''reactionMessage'' (VObj (omap_set ''key'' (VObj rk') r)) content)) \<and>
       oget rk' ''remoteJid'' = oget (clean_key message) ''remoteJid'' \<and>
       oget rk' ''participant'' = jv_or (oget rk ''participant'') (oget (clean_key message) ''participant'') \<and>
       oget rk' ''fromMe'' = VBool (\<not> truthy (oget rk ''fromMe'') \<and>
         (\<exists>me \<in> {meId, meLid}. areJidsSameUser (str_opt (jv_or (oget rk ''participant'') (oget rk ''remoteJid''))) (Some me))))"
proof -
  show "omap_get (fields_of (oget m' ''key'')) k =
       (let key = fields_of (oget message ''key'') in
        if k \<in> {''remoteJid'', ''participant''} \<and> has_own key k
        then Some (jv_coalesce (normalizeMessageJid (oget key k)) (VStr [])) else omap_get key k) \<and>
     (f \<noteq> ''key'' \<and> f \<noteq> ''message'' \<longrightarrow> oget m' f = oget message f)"
    if "cleanMessage meId meLid message = Some m'"
    using cleanMessage_shape(1) [OF that] cleanMessage_shape(2) [OF that, of f] clean_key_get [of message k] by auto
  show "cleanMessage meId meLid message = Some (omap_set ''key'' (VObj (clean_key message)) message)"
    if own: "truthy (oget (clean_key message) ''fromMe'')"
  proof -
    have "normaliseKey (clean_key message) meId meLid v = Some v" for v
      using own by (simp add: normaliseKey_def)
    then have body: "update_content (\<lambda>content.
        Option.bind (normalise_nested (normaliseKey (clean_key message) meId meLid) ''reactionMessage'' ''key'' content)
          (normalise_nested (normaliseKey (clean_key message) meId meLid) ''pollUpdateMessage'' ''pollCreationMessageKey'')) n c = Some c"
      for n c by (intro update_content_id) (simp add: normalise_nested_id)
    have same: "omap_set ''message'' (oget message ''message'') (omap_set ''key'' x message) = omap_set ''key'' x message"
      if "truthy (oget message ''message'')" for x
      using that by (intro update_self) (auto simp: omap_simps oget_def split: option.splits)
    show ?thesis
      using body [of 5] same by (simp add: cleanMessage_def Let_def clean_key_def [symmetric] omap_simps)
  qed
  show "\<exists>m' rk'. cleanMessage meId meLid message = Some m' \<and>
       oget m' ''message'' = foldr envelope ks (VObj (omap_set ''reactionMessage'' (VObj (omap_set ''key'' (VObj rk') r)) content)) \<and>
       oget rk' ''remoteJid'' = oget (clean_key message) ''remoteJid'' \<and>
       oget rk' ''participant'' = jv_or (oget rk ''participant'') (oget (clean_key message) ''participant'') \<and>
       oget rk' ''fromMe'' = VBool (\<not> truthy (oget rk ''fromMe'') \<and>
         (\<exists>me \<in> {meId, meLid}. areJidsSameUser (str_opt (jv_or (oget rk ''participant'') (oget rk ''remoteJid''))) (Some me)))"
    if prems: "\<not> truthy (oget (clean_key message) ''fromMe'')"
      "oget message ''message'' = foldr envelope ks (VObj content)" "set ks \<subseteq> set future_proof_fields" "length ks \<le> 5"
      "future_proof_field (VObj content) = None" "omap_get content ''reactionMessage'' = Some (VObj r)"
      "omap_get r ''key'' = Some (VObj rk)" "\<not> truthy (oget content ''pollUpdateMessage'')"
  proof -
    have t: "truthy (foldr envelope ks (VObj content))" by (cases ks) simp_all
    have cm: "cleanMessage meId meLid message = Some (omap_set ''message''
        (foldr envelope ks (VObj (omap_set ''reactionMessage''
           (VObj (omap_set ''key'' (VObj (reaction_key meId meLid (clean_key message) rk)) r)) content)))
        (omap_set ''key'' (VObj (clean_key message)) message))"
      using update_content_envelopes [OF prems(3-5)] reaction_body [OF prems(6-8)] t
      by (simp add: cleanMessage_def Let_def clean_key_def [symmetric] omap_simps prems(2))
    show ?thesis
      by (rule exI, rule exI [where x = "reaction_key meId meLid (clean_key message) rk"], intro conjI, rule cm)
        (simp_all add: omap_simps reaction_key_fields(1-3) [OF prems(1)])
  qed
qed

text \<open>
  Cleaning a message normalises the two JIDs of its key where the key has them, adds no field to the
  key and touches nothing else of the envelope. On one's own message the content is left alone and nothing
  can fail. On another's reaction, in any of the envelopes, the key of the reaction gets the chat of the
  message, keeps its own participant or else takes the sender, and is marked as one's own exactly when
  it was not marked and its author is one of one's two identities.
\<close>

theorem clean_message_effect:
  "(cleanMessage meId meLid message = Some m' \<longrightarrow> (omap_get (fields_of (oget m' ''key'')) k =
       (let key = fields_of (oget message ''key'') in
        if k \<in> {''remoteJid'', ''participant''} \<and> has_own key k
        then Some (jv_coalesce (normalizeMessageJid (oget key k)) (VStr [])) else omap_get key k) \<and>
     (f \<noteq> ''key'' \<and> f \<noteq> ''message'' \<longrightarrow> oget m' f = oget message f))) \<and>
   (truthy (oget (clean_key message) ''fromMe'') \<longrightarrow> cleanMessage meId meLid message = Some (omap_set ''key'' (VObj (clean_key message)) message)) \<and>
   ((\<not> truthy (oget (clean_key message) ''fromMe'')) \<longrightarrow> oget message ''message'' = foldr envelope ks (VObj content) \<longrightarrow> set ks \<subseteq> set future_proof_fields \<longrightarrow> length ks \<le> 5 \<longrightarrow> future_proof_field (VObj content) = None \<longrightarrow> omap_get content ''reactionMessage'' = Some (VObj r) \<longrightarrow> omap_get r ''key'' = Some (VObj rk) \<longrightarrow> (\<not> truthy (oget content ''pollUpdateMessage'')) \<longrightarrow> ((\<exists>m' rk'. cleanMessage meId meLid message = Some m' \<and>
       oget m' ''message'' = foldr envelope ks (VObj (omap_set ''reactionMessage'' (VObj (omap_set ''key'' (VObj rk') r)) content)) \<and>
       oget rk' ''remoteJid'' = oget (clean_key message) ''remoteJid'' \<and>
       oget rk' ''participant'' = jv_or (oget rk ''participant'') (oget (clean_key message) ''participant'') \<and>
       oget rk' ''fromMe'' = VBool (\<not> truthy (oget rk ''fromMe'') \<and>
         (\<exists>me \<in> {meId, meLid}. areJidsSameUser (str_opt (jv_or (oget rk ''participant'') (oget rk ''remoteJid''))) (Some me))))))"
proof -
  have p1: "cleanMessage meId meLid message = Some m' \<longrightarrow> (omap_get (fields_of (oget m' ''key'')) k =
       (let key = fields_of (oget message ''key'') in
        if k \<in> {''remoteJid'', ''participant''} \<and> has_own key k
        then Some (jv_coalesce (normalizeMessageJid (oget key k)) (VStr [])) else omap_get key k) \<and>
     (f \<noteq> ''key'' \<and> f \<noteq> ''message'' \<longrightarrow> oget m' f = oget message f))"
    by (rule impI, rule clean_message_effect_parts(1), (assumption)+)
  have p2: "truthy (oget (clean_key message) ''fromMe'') \<longrightarrow> cleanMessage meId meLid message = Some (omap_set ''key'' (VObj (clean_key message)) message)"
    by (rule impI, rule clean_message_effect_parts(2), (assumption)+)
  have p3: "(\<not> truthy (oget (clean_key message) ''fromMe'')) \<longrightarrow> oget message ''message'' = foldr envelope ks (VObj content) \<longrightarrow> set ks \<subseteq> set future_proof_fields \<longrightarrow> length ks \<le> 5 \<longrightarrow> future_proof_field (VObj content) = None \<longrightarrow> omap_get content ''reactionMessage'' = Some (VObj r) \<longrightarrow> omap_get r ''key'' = Some (VObj rk) \<longrightarrow> (\<not> truthy (oget content ''pollUpdateMessage'')) \<longrightarrow> ((\<exists>m' rk'. cleanMessage meId meLid message = Some m' \<and>
       oget m' ''message'' = foldr envelope ks (VObj (omap_set ''reactionMessage'' (VObj (omap_set ''key'' (VObj rk') r)) content)) \<and>
       oget rk' ''remoteJid'' = oget (clean_key message) ''remoteJid'' \<and>
       oget rk' ''participant'' = jv_or (oget rk ''participant'') (oget (clean_key message) ''participant'') \<and>
       oget rk' ''fromMe'' = VBool (\<not> truthy (oget rk ''fromMe'') \<and>
         (\<exists>me \<in> {meId, meLid}. areJidsSameUser (str_opt (jv_or (oget rk ''participant'') (oget rk ''remoteJid''))) (Some me)))))"
    by (rule impI, rule impI, rule impI, rule impI, rule impI, rule impI, rule impI, rule impI, rule clean_message_effect_parts(3), (assumption)+)
  show ?thesis by (rule conjI [OF p1 conjI [OF p2 p3]])
qed

definition reaction_example :: obj where
  "reaction_example =
     [(''key'', VObj [(''remoteJid'', VStr ''12:3@lid''), (''id'', VStr ''A'')]),
      (''message'', envelope ''ephemeralMessage'' (VObj [(''reactionMessage'', VObj [(''key'', VObj [(''remoteJid'', VStr ''99@lid'')])])]))]"

theorem clean_message_effect_witness:
  "\<exists>m' rk'. cleanMessage ''5@s.whatsapp.net'' ''99:1@lid'' reaction_example = Some m' \<and>
     oget m' ''message'' = envelope ''ephemeralMessage'' (VObj [(''reactionMessage'', VObj [(''key'', VObj rk')])]) \<and>
     oget rk' ''remoteJid'' = oget (clean_key reaction_example) ''remoteJid'' \<and>
     truthy (oget rk' ''fromMe'')"
proof -
  have own: "areJidsSameUser (Some ''99@lid'') (Some ''99:1@lid'')"
    by code_simp
  have msg: "oget reaction_example ''message'' = envelope ''ephemeralMessage''
      (VObj [(''reactionMessage'', VObj [(''key'', VObj [(''remoteJid'', VStr ''99@lid'')])])])"
    by (simp add: reaction_example_def oget_def)
  have k: "\<not> truthy (oget (clean_key reaction_example) ''fromMe'')"
    by code_simp
  show ?thesis
    using clean_message_effect [THEN conjunct2, THEN conjunct2, rule_format, OF k, of "[''ephemeralMessage'']" "[(''reactionMessage'', VObj [(''key'', VObj [(''remoteJid'', VStr ''99@lid'')])])]"
        "[(''key'', VObj [(''remoteJid'', VStr ''99@lid'')])]" "[(''remoteJid'', VStr ''99@lid'')]" "''5@s.whatsapp.net''" "''99:1@lid''"] own
    using msg by (fastforce simp: future_proof_fields_def future_proof_field_def oget_def jv_or_def)
qed

end
