(* ===== verification/HistorySync.thy ===== *)
theory HistorySync
  imports Primitives MessageContent
begin

text \<open>
  \<open>src/src/Utils/process-history-message-core.ts\<close>: the walk over a decoded history sync. The results
  are built in arrays allocated in advance, filled through counters and truncated; they are shown to
  hold exactly the lists a plain walk collects. A slot never written is \<open>None\<close>.
\<close>

subsection \<open>Sparse arrays\<close>

type_synonym 'a sparse = "'a option list"

definition createSparseArray :: "nat \<Rightarrow> 'a sparse" where
  "createSparseArray n = replicate n None"

text \<open>\<open>array[i] = value\<close>, which extends the array when the index is past its end.\<close>

definition array_put :: "nat \<Rightarrow> 'a \<Rightarrow> 'a sparse \<Rightarrow> 'a sparse" where
  "array_put i v a = (if i < length a then a[i := Some v] else a @ replicate (i - length a) None @ [Some v])"

text \<open>\<open>array.length = n\<close>\<close>

definition set_length :: "nat \<Rightarrow> 'a sparse \<Rightarrow> 'a sparse" where
  "set_length n a = take n a @ replicate (n - length a) None"

text \<open>\<open>array[count++] = value\<close> on an array with its counter.\<close>

type_synonym 'a counted = "'a sparse \<times> nat"

definition push :: "'a \<Rightarrow> 'a counted \<Rightarrow> 'a counted" where
  "push v c = (array_put (snd c) v (fst c), Suc (snd c))"

definition cut_to_count :: "'a counted \<Rightarrow> 'a sparse" where
  "cut_to_count c = set_length (snd c) (fst c)"

definition filled :: "'a counted \<Rightarrow> 'a list \<Rightarrow> bool" where
  "filled c xs \<longleftrightarrow> snd c = length xs \<and> length xs \<le> length (fst c) \<and> take (length xs) (fst c) = map Some xs"

lemma take_put: "i \<le> length a \<Longrightarrow> take (Suc i) (array_put i v a) = take i a @ [Some v] \<and> Suc i \<le> length (array_put i v a)"
proof (cases "i < length a")
  case True
  then show ?thesis by (simp add: array_put_def take_Suc_conv_app_nth)
next
  case False
  assume "i \<le> length a"
  with False have "i = length a" by simp
  then show ?thesis by (simp add: array_put_def)
qed

lemma filled_push: "filled c xs \<Longrightarrow> filled (push v c) (xs @ [v])"
  using take_put [of "length xs" "fst c" v] by (simp add: filled_def push_def del: take_Suc)

lemma filled_cut: "filled c xs \<Longrightarrow> cut_to_count c = map Some xs"
  by (simp add: filled_def cut_to_count_def set_length_def)

lemma filled_new: "filled (createSparseArray n, 0) []"
  by (simp add: filled_def)

lemma filled_grow: "filled c xs \<Longrightarrow> filled (set_length (snd c + n) (fst c), snd c) xs"
  by (auto simp: filled_def set_length_def min_def)

subsection \<open>The walk\<close>

definition INITIAL_BOOTSTRAP :: int where "INITIAL_BOOTSTRAP = 0"
definition PUSH_NAME :: int where "PUSH_NAME = 4"
definition STUB_BIZ_PRIVACY_MODE_TO_FB :: int where "STUB_BIZ_PRIVACY_MODE_TO_FB = 128"
definition STUB_BIZ_PRIVACY_MODE_TO_BSP :: int where "STUB_BIZ_PRIVACY_MODE_TO_BSP = 129"

text \<open>\<open>INITIAL_BOOTSTRAP\<close>, \<open>RECENT\<close>, \<open>FULL\<close> and \<open>ON_DEMAND\<close>.\<close>

definition CONVERSATION_HISTORY_SYNC_TYPES :: "int list" where
  "CONVERSATION_HISTORY_SYNC_TYPES = [INITIAL_BOOTSTRAP, 3, 2, 6]"

definition isConversationHistorySync :: "jv \<Rightarrow> bool" where
  "isConversationHistorySync syncType \<longleftrightarrow> syncType \<in> VNum ` set CONVERSATION_HISTORY_SYNC_TYPES"

fun extractPnFromMessages :: "jv list \<Rightarrow> js_string option" where
  "extractPnFromMessages [] = None"
| "extractPnFromMessages (msgItem # rest) =
     (let message = jprop msgItem ''message'';
          receipts = elems_of (jprop message ''userReceipt'')
      in if \<not> truthy (jprop (jprop message ''key'') ''fromMe'') \<or> receipts = [] then extractPnFromMessages rest
         else
           let userJid = jprop (hd receipts) ''userJid'' in
           if truthy userJid \<and> (isPnUser (str_opt userJid) \<or> isHostedPnUser (str_opt userJid)) then str_opt userJid
           else extractPnFromMessages rest)"

definition or_undefined :: "jv \<Rightarrow> jv" where
  "or_undefined v = jv_or v VUndef"

definition lid_mapping :: "jv \<Rightarrow> jv \<Rightarrow> obj" where
  "lid_mapping lid pn = [(''lid'', lid), (''pn'', pn)]"

text \<open>The two counters a message moves, and the chat it changes.\<close>

definition chat_contact :: "obj \<Rightarrow> obj" where
  "chat_contact chat =
     [(''id'', oget chat ''id''),
      (''name'', or_undefined (jv_or (jv_or (oget chat ''displayName'') (oget chat ''name'')) (oget chat ''username''))),
      (''username'', or_undefined (oget chat ''username'')),
      (''lid'', or_undefined (jv_or (oget chat ''lidJid'') (oget chat ''accountLid''))),
      (''phoneNumber'', or_undefined (oget chat ''pnJid''))]"

definition chat_mapping :: "obj \<Rightarrow> obj option" where
  "chat_mapping chat =
     (let chatId = oget chat ''id'';
          isLid = isLidUser (str_opt chatId) \<or> isHostedLidUser (str_opt chatId);
          isPn = isPnUser (str_opt chatId) \<or> isHostedPnUser (str_opt chatId);
          pnJid = oget chat ''pnJid''; lidJid = oget chat ''lidJid''
      in if isLid \<and> truthy pnJid then Some (lid_mapping chatId pnJid)
         else if isPn \<and> truthy lidJid then Some (lid_mapping lidJid chatId)
         else if isLid \<and> \<not> truthy pnJid
         then (case extractPnFromMessages (elems_of (oget chat ''messages'')) of
                 None \<Rightarrow> None
               | Some pn \<Rightarrow> Some (lid_mapping chatId (VStr pn)))
         else None)"

definition keep_preview :: "jv \<Rightarrow> obj \<Rightarrow> obj" where
  "keep_preview message chat =
     (if elems_of (oget chat ''messages'') = []
      then omap_set ''messages'' (VArr [VObj [(''message'', message)]]) chat else chat)"

definition note_received :: "jv \<Rightarrow> obj \<Rightarrow> obj" where
  "note_received message chat =
     (if \<not> truthy (jprop (jprop message ''key'') ''fromMe'') \<and> \<not> truthy (oget chat ''lastMessageRecvTimestamp'')
      then omap_set ''lastMessageRecvTimestamp''
             (VNum (case asInt64 (jprop message ''messageTimestamp'') of None \<Rightarrow> 0 | Some t \<Rightarrow> t)) chat
      else chat)"

definition first_elem :: "jv \<Rightarrow> jv" where
  "first_elem v = (case elems_of v of [] \<Rightarrow> VUndef | x # _ \<Rightarrow> x)"

definition verified_contact :: "jv \<Rightarrow> obj option" where
  "verified_contact message =
     (let stub = jprop message ''messageStubType'';
          param = first_elem (jprop message ''messageStubParameters'');
          key = jprop message ''key''
      in if (stub = VNum STUB_BIZ_PRIVACY_MODE_TO_BSP \<or> stub = VNum STUB_BIZ_PRIVACY_MODE_TO_FB) \<and> truthy param
         then (let verifiedNameId = jv_coalesce (jprop key ''participant'') (jprop key ''remoteJid'')
               in if truthy verifiedNameId then Some [(''id'', verifiedNameId), (''verifiedName'', param)] else None)
         else None)"

text \<open>One message of a conversation.\<close>

type_synonym walk = "obj \<times> jv counted \<times> obj counted"

definition visit_message :: "jv \<Rightarrow> walk \<Rightarrow> walk" where
  "visit_message histMsg w =
     (case w of (chat, messages, contacts) \<Rightarrow>
        let message = jprop histMsg ''message''
        in if \<not> truthy message then w
           else (note_received message (keep_preview message chat),
                 push message messages,
                 case verified_contact message of None \<Rightarrow> contacts | Some v \<Rightarrow> push v contacts))"

record history =
  h_messages :: "jv counted"
  h_contacts :: "obj counted"
  h_chats :: "obj counted"
  h_mappings :: "obj counted"

definition visit_conversation :: "jv \<Rightarrow> history \<Rightarrow> history" where
  "visit_conversation conversation h =
     (let chat = fields_of conversation in
      if \<not> truthy (oget chat ''id'') then h
      else
        let contacts1 = push (chat_contact chat) (h_contacts h);
            mappings1 = (case chat_mapping chat of None \<Rightarrow> h_mappings h | Some m \<Rightarrow> push m (h_mappings h));
            w = fold visit_message (elems_of (oget chat ''messages''))
                  (omap_del ''messages'' chat, h_messages h, contacts1)
        in \<lparr>h_messages = fst (snd w), h_contacts = snd (snd w), h_chats = push (fst w) (h_chats h),
            h_mappings = mappings1\<rparr>)"

definition source_mapping :: "jv \<Rightarrow> obj counted \<Rightarrow> obj counted" where
  "source_mapping m c =
     (if truthy (jprop m ''lidJid'') \<and> truthy (jprop m ''pnJid'')
      then push (lid_mapping (jprop m ''lidJid'') (jprop m ''pnJid'')) c else c)"

definition pushname_contact :: "jv \<Rightarrow> obj counted \<Rightarrow> obj counted" where
  "pushname_contact c a =
     (if truthy (jprop c ''id'')
      then push [(''id'', jprop c ''id''), (''notify'', or_undefined (jprop c ''pushname''))] a else a)"

record processed =
  chats :: "obj sparse"
  contacts :: "obj sparse"
  messages :: "jv sparse"
  lidPnMappings :: "obj sparse"
  syncType :: jv
  progress :: jv
  pastParticipants :: jv

definition processHistoryMessage :: "obj \<Rightarrow> processed" where
  "processHistoryMessage item =
     (let sourceMappings = elems_of (oget item ''phoneNumberToLidMappings'');
          (m0, mcount) = fold source_mapping sourceMappings (createSparseArray (length sourceMappings), 0);
          mappings = set_length mcount m0;
          sync = oget item ''syncType'';
          empty = \<lparr>chats = [], contacts = [], messages = [], lidPnMappings = mappings, syncType = sync,
            progress = oget item ''progress'', pastParticipants = oget item ''pastParticipants''\<rparr>
      in if isConversationHistorySync sync then
           (let conversations = elems_of (oget item ''conversations'');
                expected = sum_list (map (\<lambda>c. length (elems_of (jprop c ''messages''))) conversations);
                h = fold visit_conversation conversations
                      \<lparr>h_messages = (createSparseArray expected, 0),
                       h_contacts = (createSparseArray (length conversations), 0),
                       h_chats = (createSparseArray (length conversations), 0),
                       h_mappings = (set_length (mcount + length conversations) mappings, mcount)\<rparr>
            in empty\<lparr>chats := cut_to_count (h_chats h), contacts := cut_to_count (h_contacts h),
                 messages := cut_to_count (h_messages h), lidPnMappings := cut_to_count (h_mappings h)\<rparr>)
         else if sync = VNum PUSH_NAME then
           (let pushnames = elems_of (oget item ''pushnames'')
            in empty\<lparr>contacts := cut_to_count (fold pushname_contact pushnames (createSparseArray (length pushnames), 0))\<rparr>)
         else empty)"

subsection \<open>The plain walk\<close>

text \<open>The reference: the lists each conversation contributes, concatenated.\<close>

definition conversation_messages :: "jv \<Rightarrow> jv list" where
  "conversation_messages c = filter truthy (map (\<lambda>h. jprop h ''message'') (elems_of (jprop c ''messages'')))"

definition named :: "jv \<Rightarrow> bool" where
  "named c \<longleftrightarrow> truthy (oget (fields_of c) ''id'')"

definition conversation_contacts :: "jv \<Rightarrow> obj list" where
  "conversation_contacts c = chat_contact (fields_of c) # List.map_filter verified_contact (conversation_messages c)"

definition conversation_chat :: "jv \<Rightarrow> obj" where
  "conversation_chat c =
     fold (\<lambda>m chat. note_received m (keep_preview m chat)) (conversation_messages c) (omap_del ''messages'' (fields_of c))"

definition source_mappings :: "obj \<Rightarrow> obj list" where
  "source_mappings item =
     map (\<lambda>m. lid_mapping (jprop m ''lidJid'') (jprop m ''pnJid''))
       (filter (\<lambda>m. truthy (jprop m ''lidJid'') \<and> truthy (jprop m ''pnJid'')) (elems_of (oget item ''phoneNumberToLidMappings'')))"

definition named_conversations :: "obj \<Rightarrow> jv list" where
  "named_conversations item = filter named (elems_of (oget item ''conversations''))"

lemma filled_map_filter:
  "filled c xs \<Longrightarrow> (\<And>x c. step x c = (if P x then push (f x) c else c))
    \<Longrightarrow> filled (fold step ys c) (xs @ map f (filter P ys))"
proof (induction ys arbitrary: c xs)
  case (Cons y ys)
  show ?case
  proof (cases "P y")
    case True
    from Cons.IH [OF filled_push [OF Cons.prems(1), of "f y"] Cons.prems(2)] True show ?thesis
      by (simp add: Cons.prems(2))
  next
    case False
    from Cons.IH [OF Cons.prems] False show ?thesis by (simp add: Cons.prems(2))
  qed
qed simp

lemma fields_jprop: "jprop c k = oget (fields_of c) k"
  by (cases c) simp_all

lemma walk_messages:
  assumes "filled ms xs" and "filled cs ys"
  shows "\<exists>ms' cs'. fold visit_message hs (chat, ms, cs) =
      (fold (\<lambda>m chat. note_received m (keep_preview m chat)) (filter truthy (map (\<lambda>h. jprop h ''message'') hs)) chat, ms', cs') \<and>
    filled ms' (xs @ filter truthy (map (\<lambda>h. jprop h ''message'') hs)) \<and>
    filled cs' (ys @ List.map_filter verified_contact (filter truthy (map (\<lambda>h. jprop h ''message'') hs)))"
  using assms
proof (induction hs arbitrary: chat ms cs xs ys)
  case Nil
  then show ?case by (simp add: map_filter_simps)
next
  case (Cons h hs)
  define m where "m = jprop h ''message''"
  show ?case
  proof (cases "truthy m")
    case False
    then have "visit_message h (chat, ms, cs) = (chat, ms, cs)" by (simp add: visit_message_def m_def [symmetric])
    with Cons.IH [OF Cons.prems] False show ?thesis by (simp add: m_def [symmetric])
  next
    case True
    define cs1 where "cs1 = (case verified_contact m of None \<Rightarrow> cs | Some v \<Rightarrow> push v cs)"
    have step: "visit_message h (chat, ms, cs) = (note_received m (keep_preview m chat), push m ms, cs1)"
      using True by (simp add: visit_message_def m_def [symmetric] cs1_def Let_def)
    have "filled cs1 (ys @ (case verified_contact m of None \<Rightarrow> [] | Some v \<Rightarrow> [v]))"
      using Cons.prems(2) filled_push [OF Cons.prems(2)] by (simp add: cs1_def split: option.split)
    from Cons.IH [OF filled_push [OF Cons.prems(1), of m] this, of "note_received m (keep_preview m chat)"] True
    show ?thesis
      by (cases "verified_contact m") (simp_all add: step m_def [symmetric] map_filter_simps)
  qed
qed

text \<open>The counted arrays hold these lists.\<close>

definition holds :: "history \<Rightarrow> jv list \<Rightarrow> obj list \<Rightarrow> obj list \<Rightarrow> obj list \<Rightarrow> bool" where
  "holds h ms cs chs maps \<longleftrightarrow>
     filled (h_messages h) ms \<and> filled (h_contacts h) cs \<and> filled (h_chats h) chs \<and> filled (h_mappings h) maps"

lemma visit_conversation_holds:
  assumes "holds h ms cs chs maps"
  shows "holds (visit_conversation c h)
    (ms @ (if named c then conversation_messages c else []))
    (cs @ (if named c then conversation_contacts c else []))
    (chs @ (if named c then [conversation_chat c] else []))
    (maps @ (if named c then List.map_filter chat_mapping [fields_of c] else []))"
proof (cases "named c")
  case False
  then show ?thesis using assms by (simp add: visit_conversation_def named_def)
next
  case True
  define chat where "chat = fields_of c"
  have f: "filled (h_messages h) ms" "filled (h_contacts h) cs" "filled (h_chats h) chs" "filled (h_mappings h) maps"
    using assms by (simp_all add: holds_def)
  define w where "w = fold visit_message (elems_of (oget chat ''messages''))
    (omap_del ''messages'' chat, h_messages h, push (chat_contact chat) (h_contacts h))"
  from walk_messages [OF f(1) filled_push [OF f(2)], of "elems_of (oget chat ''messages'')" "omap_del ''messages'' chat" "chat_contact chat"]
  obtain ms' cs' where w: "w = (conversation_chat c, ms', cs')" "filled ms' (ms @ conversation_messages c)"
    "filled cs' (cs @ conversation_contacts c)"
    by (auto simp: w_def conversation_messages_def conversation_contacts_def conversation_chat_def chat_def fields_jprop)
  have m: "filled (case chat_mapping chat of None \<Rightarrow> h_mappings h | Some m \<Rightarrow> push m (h_mappings h))
      (maps @ List.map_filter chat_mapping [chat])"
    using f(4) filled_push [OF f(4)] by (simp add: map_filter_simps split: option.split)
  show ?thesis
    using True w m filled_push [OF f(3)]
    by (simp add: holds_def visit_conversation_def named_def Let_def chat_def [symmetric] w_def [symmetric])
qed

lemma visit_conversations_hold:
  "holds h ms cs chs maps \<Longrightarrow>
   holds (fold visit_conversation xs h)
    (ms @ concat (map conversation_messages (filter named xs)))
    (cs @ concat (map conversation_contacts (filter named xs)))
    (chs @ map conversation_chat (filter named xs))
    (maps @ List.map_filter chat_mapping (map fields_of (filter named xs)))"
proof (induction xs arbitrary: h ms cs chs maps)
  case (Cons c xs)
  from Cons.IH [OF visit_conversation_holds [OF Cons.prems, of c]] show ?case
    by (cases "named c"; cases "chat_mapping (fields_of c)") (simp_all add: map_filter_simps)
qed (simp add: map_filter_simps)

lemma source_mappings_filled:
  "filled (fold source_mapping xs (createSparseArray n, 0))
    (map (\<lambda>m. lid_mapping (jprop m ''lidJid'') (jprop m ''pnJid''))
      (filter (\<lambda>m. truthy (jprop m ''lidJid'') \<and> truthy (jprop m ''pnJid'')) xs))"
  using filled_map_filter [OF filled_new, of source_mapping] by (fastforce simp: source_mapping_def)

lemma note_received_messages: "oget (note_received m chat) ''messages'' = oget chat ''messages''"
  by (simp add: note_received_def omap_simps)

lemma preview_kept:
  "elems_of (oget chat ''messages'') \<noteq> [] \<Longrightarrow>
    oget (fold (\<lambda>m chat. note_received m (keep_preview m chat)) ms chat) ''messages'' = oget chat ''messages''"
  by (induction ms arbitrary: chat) (simp_all add: note_received_messages keep_preview_def)

lemma keep_preview_empty:
  "oget chat ''messages'' = VUndef \<Longrightarrow> keep_preview m chat = omap_set ''messages'' (VArr [VObj [(''message'', m)]]) chat"
  by (simp add: keep_preview_def)

lemma conversation_chat_preview:
  "oget (conversation_chat c) ''messages'' =
    (case conversation_messages c of [] \<Rightarrow> VUndef | m # _ \<Rightarrow> VArr [VObj [(''message'', m)]])"
proof (cases "conversation_messages c")
  case Nil
  then show ?thesis by (simp add: conversation_chat_def omap_simps)
next
  case (Cons m ms)
  then show ?thesis
    by (simp add: conversation_chat_def preview_kept note_received_messages keep_preview_empty omap_simps)
qed

lemma history_walk_equals_plain_walk_parts:
  defines "plain \<equiv> \<lambda>item. map Some (source_mappings item)"
  shows "isConversationHistorySync (oget item ''syncType'') \<Longrightarrow>
      messages (processHistoryMessage item) = map Some (concat (map conversation_messages (named_conversations item))) \<and>
      contacts (processHistoryMessage item) = map Some (concat (map conversation_contacts (named_conversations item))) \<and>
      chats (processHistoryMessage item) = map Some (map conversation_chat (named_conversations item)) \<and>
      lidPnMappings (processHistoryMessage item) =
        plain item @ map Some (List.map_filter chat_mapping (map fields_of (named_conversations item)))"
    and "oget item ''syncType'' = VNum PUSH_NAME \<Longrightarrow>
      contacts (processHistoryMessage item) =
        map Some (map (\<lambda>c. [(''id'', jprop c ''id''), (''notify'', or_undefined (jprop c ''pushname''))])
          (filter (\<lambda>c. truthy (jprop c ''id'')) (elems_of (oget item ''pushnames'')))) \<and>
      lidPnMappings (processHistoryMessage item) = plain item"
    and "\<not> isConversationHistorySync (oget item ''syncType'') \<Longrightarrow>
      chats (processHistoryMessage item) = [] \<and> messages (processHistoryMessage item) = [] \<and>
      lidPnMappings (processHistoryMessage item) = plain item"
    and "oget (conversation_chat c) ''messages'' =
      (case conversation_messages c of [] \<Rightarrow> VUndef | m # _ \<Rightarrow> VArr [VObj [(''message'', m)]])"
proof -
  define srcs where "srcs = elems_of (oget item ''phoneNumberToLidMappings'')"
  define c0 where "c0 = fold source_mapping srcs (createSparseArray (length srcs), 0 :: nat)"
  have c0: "filled c0 (source_mappings item)"
    unfolding c0_def source_mappings_def srcs_def by (rule source_mappings_filled)
  have cut: "set_length (snd c0) (fst c0) = plain item"
    using filled_cut [OF c0] by (simp add: plain_def cut_to_count_def)
  have split: "(case c0 of (m0, mcount) \<Rightarrow> f m0 mcount) = f (fst c0) (snd c0)" for f :: "obj sparse \<Rightarrow> nat \<Rightarrow> processed"
    by (simp add: case_prod_beta)
  have grown: "filled (set_length (snd c0 + n) (plain item), snd c0) (source_mappings item)" for n
  proof -
    have "filled (plain item, snd c0) (source_mappings item)" using c0 by (simp add: filled_def plain_def)
    from filled_grow [OF this, of n] show ?thesis by simp
  qed
  show "messages (processHistoryMessage item) = map Some (concat (map conversation_messages (named_conversations item))) \<and>
      contacts (processHistoryMessage item) = map Some (concat (map conversation_contacts (named_conversations item))) \<and>
      chats (processHistoryMessage item) = map Some (map conversation_chat (named_conversations item)) \<and>
      lidPnMappings (processHistoryMessage item) =
        plain item @ map Some (List.map_filter chat_mapping (map fields_of (named_conversations item)))"
    if sync: "isConversationHistorySync (oget item ''syncType'')"
  proof -
    define convs where "convs = elems_of (oget item ''conversations'')"
    define h0 where "h0 = \<lparr>h_messages = (createSparseArray (sum_list (map (\<lambda>c. length (elems_of (jprop c ''messages''))) convs)), 0),
       h_contacts = (createSparseArray (length convs), 0), h_chats = (createSparseArray (length convs), 0),
       h_mappings = (set_length (snd c0 + length convs) (plain item), snd c0)\<rparr>"
    have "holds h0 [] [] [] (source_mappings item)"
      using grown by (simp add: holds_def h0_def filled_new)
    from visit_conversations_hold [OF this, of convs]
    have "holds (fold visit_conversation convs h0) (concat (map conversation_messages (named_conversations item)))
       (concat (map conversation_contacts (named_conversations item))) (map conversation_chat (named_conversations item))
       (source_mappings item @ List.map_filter chat_mapping (map fields_of (named_conversations item)))"
      by (simp add: named_conversations_def convs_def)
    then have "cut_to_count (h_messages (fold visit_conversation convs h0)) = map Some (concat (map conversation_messages (named_conversations item)))"
      "cut_to_count (h_contacts (fold visit_conversation convs h0)) = map Some (concat (map conversation_contacts (named_conversations item)))"
      "cut_to_count (h_chats (fold visit_conversation convs h0)) = map Some (map conversation_chat (named_conversations item))"
      "cut_to_count (h_mappings (fold visit_conversation convs h0)) =
         map Some (source_mappings item @ List.map_filter chat_mapping (map fields_of (named_conversations item)))"
      by (auto simp only: holds_def intro!: filled_cut)
    moreover have "map Some (source_mappings item @ List.map_filter chat_mapping (map fields_of (named_conversations item))) =
        plain item @ map Some (List.map_filter chat_mapping (map fields_of (named_conversations item)))"
      by (simp add: plain_def)
    ultimately show ?thesis
      using sync
      by (simp add: processHistoryMessage_def Let_def srcs_def [symmetric] c0_def [symmetric] split cut
          convs_def [symmetric] h0_def [symmetric])
  qed
  show "contacts (processHistoryMessage item) =
        map Some (map (\<lambda>c. [(''id'', jprop c ''id''), (''notify'', or_undefined (jprop c ''pushname''))])
          (filter (\<lambda>c. truthy (jprop c ''id'')) (elems_of (oget item ''pushnames'')))) \<and>
      lidPnMappings (processHistoryMessage item) = plain item"
    if push: "oget item ''syncType'' = VNum PUSH_NAME"
  proof -
    have other: "\<not> isConversationHistorySync (VNum PUSH_NAME)" by code_simp
    have "filled (fold pushname_contact xs (createSparseArray n, 0)) ([] @ map (\<lambda>c. [(''id'', jprop c ''id''), (''notify'', or_undefined (jprop c ''pushname''))])
          (filter (\<lambda>c. truthy (jprop c ''id'')) xs))" for xs n
      by (rule filled_map_filter [OF filled_new]) (simp add: pushname_contact_def)
    from filled_cut [OF this] show ?thesis
      using other
      by (simp add: processHistoryMessage_def Let_def srcs_def [symmetric] c0_def [symmetric] split cut push)
  qed
  show "chats (processHistoryMessage item) = [] \<and> messages (processHistoryMessage item) = [] \<and>
      lidPnMappings (processHistoryMessage item) = plain item"
    if "\<not> isConversationHistorySync (oget item ''syncType'')"
    using that by (simp add: processHistoryMessage_def Let_def srcs_def [symmetric] c0_def [symmetric] split cut)
  show "oget (conversation_chat c) ''messages'' =
      (case conversation_messages c of [] \<Rightarrow> VUndef | m # _ \<Rightarrow> VArr [VObj [(''message'', m)]])"
    by (rule conversation_chat_preview)
qed

text \<open>
  C27: The history walk with its preallocated arrays and counters computes exactly the plain walk. For the
  conversation sync types the results have no hole and hold, in order, every message of every
  conversation that has an id, its contact followed by the verified names its messages carry, the
  conversation with its messages replaced by a preview of the first, and the mappings of the payload
  followed by one mapping at most per conversation; a push-name sync gives only contacts, and any other
  type only the payload's mappings.
\<close>

theorem history_walk_equals_plain_walk:
  defines "plain \<equiv> \<lambda>item. map Some (source_mappings item)"
  shows "(isConversationHistorySync (oget item ''syncType'') \<longrightarrow> (messages (processHistoryMessage item) = map Some (concat (map conversation_messages (named_conversations item))) \<and>
      contacts (processHistoryMessage item) = map Some (concat (map conversation_contacts (named_conversations item))) \<and>
      chats (processHistoryMessage item) = map Some (map conversation_chat (named_conversations item)) \<and>
      lidPnMappings (processHistoryMessage item) =
        plain item @ map Some (List.map_filter chat_mapping (map fields_of (named_conversations item))))) \<and>
   (oget item ''syncType'' = VNum PUSH_NAME \<longrightarrow> (contacts (processHistoryMessage item) =
        map Some (map (\<lambda>c. [(''id'', jprop c ''id''), (''notify'', or_undefined (jprop c ''pushname''))])
          (filter (\<lambda>c. truthy (jprop c ''id'')) (elems_of (oget item ''pushnames'')))) \<and>
      lidPnMappings (processHistoryMessage item) = plain item)) \<and>
   ((\<not> isConversationHistorySync (oget item ''syncType'')) \<longrightarrow> (chats (processHistoryMessage item) = [] \<and> messages (processHistoryMessage item) = [] \<and>
      lidPnMappings (processHistoryMessage item) = plain item)) \<and>
   (oget (conversation_chat c) ''messages'' =
      (case conversation_messages c of [] \<Rightarrow> VUndef | m # _ \<Rightarrow> VArr [VObj [(''message'', m)]]))"
proof -
  have p1: "isConversationHistorySync (oget item ''syncType'') \<longrightarrow> (messages (processHistoryMessage item) = map Some (concat (map conversation_messages (named_conversations item))) \<and>
      contacts (processHistoryMessage item) = map Some (concat (map conversation_contacts (named_conversations item))) \<and>
      chats (processHistoryMessage item) = map Some (map conversation_chat (named_conversations item)) \<and>
      lidPnMappings (processHistoryMessage item) =
        plain item @ map Some (List.map_filter chat_mapping (map fields_of (named_conversations item))))"
    unfolding plain_def by (rule impI, rule history_walk_equals_plain_walk_parts(1), (assumption)+)
  have p2: "oget item ''syncType'' = VNum PUSH_NAME \<longrightarrow> (contacts (processHistoryMessage item) =
        map Some (map (\<lambda>c. [(''id'', jprop c ''id''), (''notify'', or_undefined (jprop c ''pushname''))])
          (filter (\<lambda>c. truthy (jprop c ''id'')) (elems_of (oget item ''pushnames'')))) \<and>
      lidPnMappings (processHistoryMessage item) = plain item)"
    unfolding plain_def by (rule impI, rule history_walk_equals_plain_walk_parts(2), (assumption)+)
  have p3: "(\<not> isConversationHistorySync (oget item ''syncType'')) \<longrightarrow> (chats (processHistoryMessage item) = [] \<and> messages (processHistoryMessage item) = [] \<and>
      lidPnMappings (processHistoryMessage item) = plain item)"
    unfolding plain_def by (rule impI, rule history_walk_equals_plain_walk_parts(3), (assumption)+)
  have p4: "oget (conversation_chat c) ''messages'' =
      (case conversation_messages c of [] \<Rightarrow> VUndef | m # _ \<Rightarrow> VArr [VObj [(''message'', m)]])"
    unfolding plain_def by (rule history_walk_equals_plain_walk_parts(4))
  show ?thesis by (rule conjI [OF p1 conjI [OF p2 conjI [OF p3 p4]]])
qed

definition history_example :: obj where
  "history_example =
     [(''syncType'', VNum 0),
      (''conversations'', VArr [VObj [(''id'', VStr [])],
         VObj [(''id'', VStr ''7@lid''),
               (''messages'', VArr [VObj [], VObj [(''message'', VObj [(''messageTimestamp'', VNum 5)])]])]])]"

theorem history_walk_equals_plain_walk_witness:
  "messages (processHistoryMessage history_example) = [Some (VObj [(''messageTimestamp'', VNum 5)])] \<and>
   length (chats (processHistoryMessage history_example)) = 1 \<and>
   contacts (processHistoryMessage [(''syncType'', VNum PUSH_NAME), (''pushnames'', VArr [VObj []])]) = [] \<and>
   chats (processHistoryMessage []) = []"
proof -
  have "isConversationHistorySync (oget history_example ''syncType'')"
    and named: "named_conversations history_example =
        [VObj [(''id'', VStr ''7@lid''), (''messages'', VArr [VObj [], VObj [(''message'', VObj [(''messageTimestamp'', VNum 5)])]])]]"
    by (simp_all add: history_example_def oget_def isConversationHistorySync_def CONVERSATION_HISTORY_SYNC_TYPES_def
        INITIAL_BOOTSTRAP_def named_conversations_def named_def)
  from history_walk_equals_plain_walk [THEN conjunct1, rule_format, OF this(1)]
  have "messages (processHistoryMessage history_example) = [Some (VObj [(''messageTimestamp'', VNum 5)])]"
    "length (chats (processHistoryMessage history_example)) = 1"
    by (simp_all add: named conversation_messages_def oget_def)
  moreover have "contacts (processHistoryMessage [(''syncType'', VNum PUSH_NAME), (''pushnames'', VArr [VObj []])]) = []"
    using history_walk_equals_plain_walk [THEN conjunct2, THEN conjunct1, rule_format, of "[(''syncType'', VNum PUSH_NAME), (''pushnames'', VArr [VObj []])]"]
    by (simp add: oget_def)
  moreover have "chats (processHistoryMessage []) = []"
    using history_walk_equals_plain_walk [THEN conjunct2, THEN conjunct2, THEN conjunct1, rule_format, of "[]"] by (simp add: isConversationHistorySync_def image_iff)
  ultimately show ?thesis by blast
qed

end
