(* ===== verification/EventData.thy ===== *)
theory EventData
  imports MessageContent
begin

text \<open>
  The data of the event buffer, \<open>src/src/Utils/event-buffer.ts\<close> up to \<open>consolidateEvents\<close>, with the
  mutation helpers of \<open>src/src/Media/mutations.ts\<close>. The objects a buffered event carries belong to the
  buffer once appended, so changing one in place is changing the entry that holds it. The predicate
  of a conditional chat update is a number, decided by the parameter \<open>decide\<close> on the buffered data.
\<close>

subsection \<open>Mutations of a message\<close>

definition getKeyAuthor :: "jv \<Rightarrow> js_string \<Rightarrow> jv" where
  "getKeyAuthor key meId =
     jv_or (if truthy (jprop key ''fromMe'') then VStr meId
            else jv_or (jv_or (jv_or (jprop key ''participantAlt'') (jprop key ''remoteJidAlt''))
                   (jprop key ''participant'')) (jprop key ''remoteJid''))
       (VStr [])"

text \<open>Assign to the first receipt of the same user, or append.\<close>

fun upsert_receipt :: "obj \<Rightarrow> jv list \<Rightarrow> jv list" where
  "upsert_receipt receipt [] = [VObj receipt]"
| "upsert_receipt receipt (item # rest) =
     (if jprop item ''userJid'' = oget receipt ''userJid''
      then VObj (object_assign (fields_of item) receipt) # rest
      else item # upsert_receipt receipt rest)"

definition updateMessageWithReceipt :: "obj \<Rightarrow> obj \<Rightarrow> obj" where
  "updateMessageWithReceipt msg receipt =
     omap_set ''userReceipt'' (VArr (upsert_receipt receipt (elems_of (oget msg ''userReceipt'')))) msg"

definition updateMessageWithReaction :: "obj \<Rightarrow> obj \<Rightarrow> obj" where
  "updateMessageWithReaction msg reaction =
     (let author = getKeyAuthor (oget reaction ''key'') ''me'';
          reactions = filter (\<lambda>item. getKeyAuthor (jprop item ''key'') ''me'' \<noteq> author) (elems_of (oget msg ''reactions''));
          reaction1 = omap_set ''text'' (jv_or (oget reaction ''text'') (VStr [])) reaction
      in omap_set ''reactions'' (VArr (reactions @ [VObj reaction1])) msg)"

subsection \<open>The buffered data\<close>

record chat_update =
  cu_fields :: obj
  conditional :: "nat option"

record upsert =
  up_message :: obj
  up_type :: js_string

record history_sets =
  hs_chats :: "(js_string, obj) omap"
  hs_messages :: "(js_string, obj) omap"
  hs_contacts :: "(js_string, obj) omap"
  hs_isLatest :: bool
  hs_empty :: bool
  hs_syncType :: jv
  hs_pastParticipants :: "obj list option"
  hs_progress :: jv
  hs_chunkOrder :: jv
  hs_peerDataRequestSessionId :: jv

record buffered =
  historySets :: history_sets
  chatUpserts :: "(js_string, obj) omap"
  chatUpdates :: "(js_string, chat_update) omap"
  chatDeletes :: "js_string list"
  contactUpserts :: "(js_string, obj) omap"
  contactUpdates :: "(js_string, obj) omap"
  messageUpserts :: "(js_string, upsert) omap"
  messageUpdates :: "(js_string, obj \<times> obj) omap"
  messageDeletes :: "(js_string, obj) omap"
  messageReactions :: "(js_string, obj) omap"
  messageReceipts :: "(js_string, obj) omap"
  groupUpdates :: "(js_string, obj) omap"

definition makeBufferData :: buffered where
  "makeBufferData =
     \<lparr>historySets = \<lparr>hs_chats = [], hs_messages = [], hs_contacts = [], hs_isLatest = False, hs_empty = True,
        hs_syncType = VUndef, hs_pastParticipants = None, hs_progress = VUndef, hs_chunkOrder = VUndef,
        hs_peerDataRequestSessionId = VUndef\<rparr>,
      chatUpserts = [], chatUpdates = [], chatDeletes = [], contactUpserts = [], contactUpdates = [],
      messageUpserts = [], messageUpdates = [], messageDeletes = [], messageReactions = [],
      messageReceipts = [], groupUpdates = []\<rparr>"

definition stringifyMessageKey :: "obj \<Rightarrow> js_string" where
  "stringifyMessageKey key =
     template (oget key ''remoteJid'') @ '','' @ template (oget key ''id'') @ '','' @
     (if truthy (oget key ''fromMe'') then ''1'' else ''0'')"

definition message_key :: "obj \<Rightarrow> obj" where
  "message_key message = fields_of (oget message ''key'')"

fun num_of :: "jv \<Rightarrow> int option" where
  "num_of (VNum n) = Some n"
| "num_of _ = None"

text \<open>The merged chat; the counts are integers.\<close>

definition concatChats :: "obj \<Rightarrow> obj \<Rightarrow> obj" where
  "concatChats left right =
     (let negative = (case num_of (oget left ''unreadCount'') of Some n \<Rightarrow> n < 0 | None \<Rightarrow> False);
          forget = (oget right ''unreadCount'' = VNull \<and> negative);
          left1 = (if forget then omap_set ''unreadCount'' VUndef left else left);
          right1 = (if forget then omap_set ''unreadCount'' VUndef right else right);
          right2 = (case (num_of (oget left1 ''unreadCount''), num_of (oget right1 ''unreadCount'')) of
              (Some l, Some r) \<Rightarrow>
                if r \<ge> 0 then omap_set ''unreadCount'' (VNum (max r 0 + max l 0)) right1 else right1
            | _ \<Rightarrow> right1)
      in object_assign left1 right2)"

subsection \<open>Past participants\<close>

fun jv_json :: "jv \<Rightarrow> json" where
  "jv_json VUndef = JNull"
| "jv_json VNull = JNull"
| "jv_json (VBool b) = JBool b"
| "jv_json (VNum n) = JNum (show_int n)"
| "jv_json (VNonInt x) = JNull"
| "jv_json (VStr s) = JStr s"
| "jv_json (VArr xs) = JArr (map jv_json xs)"
| "jv_json (VObj m) = JObj (map (\<lambda>(k, v). (k, jv_json v)) (filter (\<lambda>(k, v). v \<noteq> VUndef) m))"
| "jv_json (VToNumber r) = jv_json r"

definition past_signature :: "jv \<Rightarrow> js_string" where
  "past_signature participant =
     template (jv_or (jprop participant ''userJid'') (VStr [])) @ '':'' @
     template (jv_or (jprop participant ''leaveTs'') (VStr [])) @ '':'' @
     template (jv_or (jprop participant ''leaveReason'') (VStr []))"

fun add_unseen :: "jv list \<Rightarrow> jv list \<Rightarrow> jv list" where
  "add_unseen have [] = have"
| "add_unseen have (p # ps) =
     add_unseen (if past_signature p \<in> past_signature ` set have then have else have @ [p]) ps"

definition ingest_past :: "obj \<Rightarrow> (js_string, obj) omap \<Rightarrow> (js_string, obj) omap" where
  "ingest_past entry merged =
     (let key = (if nullish (oget entry ''groupJid'') then stringify (jv_json (VObj entry)) else template (oget entry ''groupJid''));
          ps = elems_of (oget entry ''pastParticipants'')
      in case omap_get merged key of
           None \<Rightarrow> omap_set key (omap_set ''pastParticipants'' (VArr ps) entry) merged
         | Some existing \<Rightarrow>
             omap_set key (omap_set ''pastParticipants''
               (VArr (add_unseen (elems_of (oget existing ''pastParticipants'')) ps)) existing) merged)"

definition mergePastParticipants :: "obj list option \<Rightarrow> obj list \<Rightarrow> obj list" where
  "mergePastParticipants existingEntries incomingEntries =
     map snd (fold ingest_past incomingEntries
       (fold ingest_past (case existingEntries of None \<Rightarrow> [] | Some es \<Rightarrow> es) []))"

subsection \<open>Events\<close>

record history_event =
  he_chats :: "obj list"
  he_contacts :: "obj list"
  he_messages :: "obj list"
  he_isLatest :: jv
  he_syncType :: jv
  he_pastParticipants :: "obj list"
  he_progress :: jv
  he_chunkOrder :: jv
  he_peerDataRequestSessionId :: jv

datatype buffer_event =
    HistorySet history_event
  | ChatsUpsert "obj list"
  | ChatsUpdate "chat_update list"
  | ChatsDelete "js_string list"
  | ContactsUpsert "obj list"
  | ContactsUpdate "obj list"
  | MessagesUpsert "obj list" js_string
  | MessagesUpdate "(obj \<times> obj) list"
  | MessagesDelete "obj list option"
  | MessagesReaction "(obj \<times> obj) list"
  | ReceiptUpdate "(obj \<times> obj) list"
  | GroupsUpdate "obj list"
  | OtherEvent js_string jv

definition id_or_empty :: "obj \<Rightarrow> js_string" where
  "id_or_empty m = template (jv_or (oget m ''id'') (VStr []))"

type_synonym decide = "nat \<Rightarrow> buffered \<Rightarrow> bool option"

definition matches :: "decide \<Rightarrow> buffered \<Rightarrow> chat_update \<Rightarrow> bool option" where
  "matches decide d u = (case conditional u of None \<Rightarrow> Some True | Some c \<Rightarrow> decide c d)"

text \<open>The chat and the pending updates after the update waiting for it was considered.\<close>

definition absorbChatUpdate :: "decide \<Rightarrow> obj \<Rightarrow> buffered \<Rightarrow> obj \<times> buffered" where
  "absorbChatUpdate decide existing d =
     (let i = id_or_empty existing in
      case omap_get (chatUpdates d) i of
        None \<Rightarrow> (existing, d)
      | Some update \<Rightarrow>
          (case matches decide d update of
             Some True \<Rightarrow> (object_assign existing (concatChats (cu_fields update) existing),
               d\<lparr>chatUpdates := omap_del i (chatUpdates d)\<rparr>)
           | Some False \<Rightarrow> (existing, d\<lparr>chatUpdates := omap_del i (chatUpdates d)\<rparr>)
           | None \<Rightarrow> (existing, d)))"

abbreviation upd_history :: "(history_sets \<Rightarrow> history_sets) \<Rightarrow> buffered \<Rightarrow> buffered" where
  "upd_history f d \<equiv> d\<lparr>historySets := f (historySets d)\<rparr>"

definition put_history_chat :: "js_string \<Rightarrow> obj \<Rightarrow> buffered \<Rightarrow> buffered" where
  "put_history_chat i c d = upd_history (hs_chats_update (omap_set i c)) d"

type_synonym cache = "js_string list"

definition cache_add :: "js_string \<Rightarrow> cache \<Rightarrow> cache" where
  "cache_add k c = (if k \<in> set c then c else c @ [k])"

definition history_chat :: "decide \<Rightarrow> obj \<Rightarrow> buffered \<times> cache \<Rightarrow> buffered \<times> cache" where
  "history_chat decide chat s =
     (case s of (d, cache) \<Rightarrow>
        let i = id_or_empty chat in
        case omap_get (hs_chats (historySets d)) i of
          Some existing \<Rightarrow>
            (put_history_chat i (omap_set ''endOfHistoryTransferType'' (oget chat ''endOfHistoryTransferType'') existing) d, cache)
        | None \<Rightarrow>
            if i \<in> set cache then (d, cache)
            else
              let (chat1, d1) = absorbChatUpdate decide chat (put_history_chat i chat d)
              in (put_history_chat i chat1 d1, cache_add i cache))"

definition history_contact :: "obj \<Rightarrow> buffered \<times> cache \<Rightarrow> buffered \<times> cache" where
  "history_contact contact s =
     (case s of (d, cache) \<Rightarrow>
        let i = template (oget contact ''id''); cacheId = ''c:'' @ i in
        case omap_get (hs_contacts (historySets d)) i of
          Some existing \<Rightarrow>
            (upd_history (hs_contacts_update (omap_set i (object_assign existing (trimUndefined contact)))) d, cache)
        | None \<Rightarrow>
            if cacheId \<notin> set cache \<or> truthy (oget contact ''notify'') \<or> truthy (oget contact ''name'') \<or> truthy (oget contact ''verifiedName'')
            then (upd_history (hs_contacts_update (omap_set i contact)) d, cache_add cacheId cache)
            else (d, cache))"

definition history_message :: "obj \<Rightarrow> buffered \<times> cache \<Rightarrow> buffered \<times> cache" where
  "history_message message s =
     (case s of (d, cache) \<Rightarrow>
        let key = stringifyMessageKey (message_key message) in
        if omap_get (hs_messages (historySets d)) key = None \<and> key \<notin> set cache
        then (upd_history (hs_messages_update (omap_set key message)) d, cache_add key cache)
        else (d, cache))"

definition history_rest :: "history_event \<Rightarrow> history_sets \<Rightarrow> history_sets" where
  "history_rest h hs =
     hs\<lparr>hs_empty := False,
        hs_syncType := jv_coalesce (he_syncType h) VUndef,
        hs_pastParticipants :=
          (if he_pastParticipants h \<noteq> [] then Some (mergePastParticipants (hs_pastParticipants hs) (he_pastParticipants h))
           else hs_pastParticipants hs),
        hs_progress := he_progress h,
        hs_chunkOrder := he_chunkOrder h,
        hs_peerDataRequestSessionId := jv_coalesce (he_peerDataRequestSessionId h) VUndef,
        hs_isLatest := truthy (he_isLatest h) \<or> hs_isLatest hs\<rparr>"

definition append_history :: "decide \<Rightarrow> history_event \<Rightarrow> buffered \<times> cache \<Rightarrow> buffered \<times> cache" where
  "append_history decide h s =
     (let s1 = fold (history_chat decide) (he_chats h) s;
          s2 = fold history_contact (he_contacts h) s1;
          s3 = fold history_message (he_messages h) s2
      in (upd_history (history_rest h) (fst s3), snd s3))"

subsection \<open>Chats\<close>

definition chat_upsert :: "decide \<Rightarrow> obj \<Rightarrow> buffered \<Rightarrow> buffered" where
  "chat_upsert decide chat d =
     (let i = id_or_empty chat;
          undelete = (\<lambda>d. d\<lparr>chatDeletes := removeAll i (chatDeletes d)\<rparr>)
      in case omap_get (chatUpserts d) i of
           Some existing \<Rightarrow>
             (let merged = concatChats existing chat;
                  (c, d1) = absorbChatUpdate decide merged (d\<lparr>chatUpserts := omap_set i merged (chatUpserts d)\<rparr>)
              in undelete (d1\<lparr>chatUpserts := omap_set i c (chatUpserts d1)\<rparr>))
         | None \<Rightarrow>
             (case (if i = [] then None else omap_get (hs_chats (historySets d)) i) of
                Some existing \<Rightarrow>
                  (let merged = concatChats existing chat;
                       (c, d1) = absorbChatUpdate decide merged (put_history_chat i merged d)
                   in undelete (put_history_chat i c d1))
              | None \<Rightarrow>
                  (let (c, d1) = absorbChatUpdate decide chat (d\<lparr>chatUpserts := omap_set i chat (chatUpserts d)\<rparr>)
                   in undelete (d1\<lparr>chatUpserts := omap_set i c (chatUpserts d1)\<rparr>))))"

definition merge_update :: "js_string \<Rightarrow> obj \<Rightarrow> buffered \<Rightarrow> buffered" where
  "merge_update i changes d =
     (case omap_get (hs_chats (historySets d)) i of
        Some existing \<Rightarrow> put_history_chat i (concatChats existing changes) d
      | None \<Rightarrow>
          (case omap_get (chatUpserts d) i of
             Some existing \<Rightarrow> d\<lparr>chatUpserts := omap_set i (concatChats existing changes) (chatUpserts d)\<rparr>
           | None \<Rightarrow>
               (let u = (case omap_get (chatUpdates d) i of Some u \<Rightarrow> u | None \<Rightarrow> \<lparr>cu_fields = [], conditional = None\<rparr>)
                in d\<lparr>chatUpdates := omap_set i (u\<lparr>cu_fields := concatChats (cu_fields u) changes\<rparr>) (chatUpdates d)\<rparr>)))"

definition chat_update_one :: "decide \<Rightarrow> chat_update \<Rightarrow> buffered \<Rightarrow> buffered" where
  "chat_update_one decide update d =
     (let i = id_or_empty (cu_fields update);
          d1 = (case matches decide d update of
                  Some True \<Rightarrow> merge_update i (cu_fields update) d
                | Some False \<Rightarrow> d
                | None \<Rightarrow> d\<lparr>chatUpdates := omap_set i update (chatUpdates d)\<rparr>)
      in d1\<lparr>chatDeletes := removeAll i (chatDeletes d1)\<rparr>)"

definition chat_delete :: "js_string \<Rightarrow> buffered \<Rightarrow> buffered" where
  "chat_delete i d =
     d\<lparr>chatDeletes := (if i \<in> set (chatDeletes d) then chatDeletes d else chatDeletes d @ [i]),
       chatUpdates := omap_del i (chatUpdates d),
       chatUpserts := omap_del i (chatUpserts d),
       historySets := hs_chats_update (omap_del i) (historySets d)\<rparr>"

subsection \<open>Contacts\<close>

definition fill_gaps :: "obj \<Rightarrow> obj \<Rightarrow> obj" where
  "fill_gaps target source =
     foldl (\<lambda>t (k, v). if oget t k = VUndef then omap_set k v t else t) target source"

definition contact_upsert :: "obj \<Rightarrow> buffered \<Rightarrow> buffered" where
  "contact_upsert contact d0 =
     (let i = template (oget contact ''id'');
          pending = omap_get (contactUpdates d0) i;
          d = d0\<lparr>contactUpdates := omap_del i (contactUpdates d0)\<rparr>;
          fold_in = (\<lambda>existing. object_assign (case pending of None \<Rightarrow> existing | Some p \<Rightarrow> object_assign existing p)
            (trimUndefined contact))
      in case omap_get (contactUpserts d) i of
           Some existing \<Rightarrow> d\<lparr>contactUpserts := omap_set i (fold_in existing) (contactUpserts d)\<rparr>
         | None \<Rightarrow>
             (case omap_get (hs_contacts (historySets d)) i of
                Some existing \<Rightarrow> upd_history (hs_contacts_update (omap_set i (fold_in existing))) d
              | None \<Rightarrow>
                  d\<lparr>contactUpserts := omap_set i
                      (case pending of None \<Rightarrow> contact | Some p \<Rightarrow> fill_gaps contact p) (contactUpserts d)\<rparr>))"

definition contact_update :: "obj \<Rightarrow> buffered \<Rightarrow> buffered" where
  "contact_update update d =
     (let i = id_or_empty update in
      case omap_get (hs_contacts (historySets d)) i of
        Some existing \<Rightarrow> upd_history (hs_contacts_update (omap_set i (object_assign existing update))) d
      | None \<Rightarrow>
          (case omap_get (contactUpserts d) i of
             Some existing \<Rightarrow> d\<lparr>contactUpserts := omap_set i (object_assign existing update) (contactUpserts d)\<rparr>
           | None \<Rightarrow>
               d\<lparr>contactUpdates := omap_set i
                   (object_assign (case omap_get (contactUpdates d) i of None \<Rightarrow> [] | Some p \<Rightarrow> p) update)
                   (contactUpdates d)\<rparr>))"

subsection \<open>Messages\<close>

text \<open>The message an upsert stores, and the type it is stored with.\<close>

definition upserted_message :: "obj \<Rightarrow> buffered \<Rightarrow> obj" where
  "upserted_message message d =
     (let key = stringifyMessageKey (message_key message);
          existing = (case omap_get (messageUpserts d) key of Some u \<Rightarrow> Some (up_message u)
                      | None \<Rightarrow> omap_get (hs_messages (historySets d)) key);
          message1 = (case existing of None \<Rightarrow> message
                      | Some e \<Rightarrow> omap_set ''messageTimestamp'' (oget e ''messageTimestamp'') message)
      in case omap_get (messageUpdates d) key of None \<Rightarrow> message1 | Some p \<Rightarrow> object_assign message1 (snd p))"

definition upserted_type :: "js_string \<Rightarrow> upsert option \<Rightarrow> js_string" where
  "upserted_type type old =
     (if type = ''notify'' \<or> (case old of Some u \<Rightarrow> up_type u = ''notify'' | None \<Rightarrow> False) then ''notify'' else type)"

definition message_upsert :: "js_string \<Rightarrow> obj \<Rightarrow> buffered \<Rightarrow> buffered" where
  "message_upsert type message d =
     (let key = stringifyMessageKey (message_key message);
          d1 = d\<lparr>messageUpdates := omap_del key (messageUpdates d)\<rparr>
      in if omap_get (hs_messages (historySets d)) key \<noteq> None
         then upd_history (hs_messages_update (omap_set key (upserted_message message d))) d1
         else d1\<lparr>messageUpserts := omap_set key
                \<lparr>up_message = upserted_message message d,
                 up_type = upserted_type type (omap_get (messageUpserts d) key)\<rparr> (messageUpserts d1)\<rparr>)"

definition READ :: int where "READ = 4"

definition count_down :: "obj \<Rightarrow> obj" where
  "count_down chat =
     (case num_of (oget chat ''unreadCount'') of
        Some n \<Rightarrow> if n > 0 then (if n = 1 then omap_del ''unreadCount'' chat else omap_set ''unreadCount'' (VNum (n - 1)) chat)
                  else chat
      | None \<Rightarrow> chat)"

definition mark_read :: "obj \<Rightarrow> buffered \<Rightarrow> buffered" where
  "mark_read existing d =
     (let chatId = template (jv_or (oget (message_key existing) ''remoteJid'') (VStr [])) in
      if \<not> isRealMessage existing \<or> \<not> shouldIncrementChatUnread existing then d
      else case omap_get (chatUpdates d) chatId of
        Some u \<Rightarrow> d\<lparr>chatUpdates := omap_set chatId (u\<lparr>cu_fields := count_down (cu_fields u)\<rparr>) (chatUpdates d)\<rparr>
      | None \<Rightarrow>
          (case omap_get (chatUpserts d) chatId of
             Some c \<Rightarrow> d\<lparr>chatUpserts := omap_set chatId (count_down c) (chatUpserts d)\<rparr>
           | None \<Rightarrow> d))"

definition read_by_me :: "obj \<times> obj \<Rightarrow> bool" where
  "read_by_me p \<longleftrightarrow> oget (snd p) ''status'' = VNum READ \<and> \<not> truthy (oget (fst p) ''fromMe'')"

definition message_update :: "obj \<times> obj \<Rightarrow> buffered \<Rightarrow> buffered" where
  "message_update p d =
     (let key = stringifyMessageKey (fst p) in
      case omap_get (hs_messages (historySets d)) key of
        Some m \<Rightarrow>
          (let m1 = object_assign m (snd p);
               d1 = upd_history (hs_messages_update (omap_set key m1)) d
           in if read_by_me p then mark_read m1 d1 else d1)
      | None \<Rightarrow>
          (case omap_get (messageUpserts d) key of
             Some u \<Rightarrow>
               (let m1 = object_assign (up_message u) (snd p);
                    d1 = d\<lparr>messageUpserts := omap_set key (u\<lparr>up_message := m1\<rparr>) (messageUpserts d)\<rparr>
                in if read_by_me p then mark_read m1 d1 else d1)
           | None \<Rightarrow>
               (let pending = (case omap_get (messageUpdates d) key of Some q \<Rightarrow> q | None \<Rightarrow> (fst p, []))
                in d\<lparr>messageUpdates := omap_set key (fst pending, object_assign (snd pending) (snd p)) (messageUpdates d)\<rparr>)))"

definition message_delete :: "obj \<Rightarrow> buffered \<Rightarrow> buffered" where
  "message_delete key d =
     (let v = stringifyMessageKey key in
      d\<lparr>messageDeletes := (if omap_get (messageDeletes d) v = None then omap_set v key (messageDeletes d) else messageDeletes d),
        messageUpserts := omap_del v (messageUpserts d),
        messageUpdates := omap_del v (messageUpdates d)\<rparr>)"

definition message_reaction :: "obj \<times> obj \<Rightarrow> buffered \<Rightarrow> buffered" where
  "message_reaction p d =
     (let v = stringifyMessageKey (fst p) in
      case omap_get (messageUpserts d) v of
        Some u \<Rightarrow> d\<lparr>messageUpserts := omap_set v (u\<lparr>up_message := updateMessageWithReaction (up_message u) (snd p)\<rparr>) (messageUpserts d)\<rparr>
      | None \<Rightarrow>
          (let e = (case omap_get (messageReactions d) v of Some e \<Rightarrow> e
                    | None \<Rightarrow> [(''key'', VObj (fst p)), (''reactions'', VArr [])])
           in d\<lparr>messageReactions := omap_set v (updateMessageWithReaction e (snd p)) (messageReactions d)\<rparr>))"

definition message_receipt :: "obj \<times> obj \<Rightarrow> buffered \<Rightarrow> buffered" where
  "message_receipt p d =
     (let v = stringifyMessageKey (fst p) in
      case omap_get (messageUpserts d) v of
        Some u \<Rightarrow> d\<lparr>messageUpserts := omap_set v (u\<lparr>up_message := updateMessageWithReceipt (up_message u) (snd p)\<rparr>) (messageUpserts d)\<rparr>
      | None \<Rightarrow>
          (let e = (case omap_get (messageReceipts d) v of Some e \<Rightarrow> e
                    | None \<Rightarrow> [(''key'', VObj (fst p)), (''userReceipt'', VArr [])])
           in d\<lparr>messageReceipts := omap_set v (updateMessageWithReceipt e (snd p)) (messageReceipts d)\<rparr>))"

definition group_update :: "obj \<Rightarrow> buffered \<Rightarrow> buffered" where
  "group_update update d =
     (let i = id_or_empty update
      in d\<lparr>groupUpdates := omap_set i
             (object_assign (case omap_get (groupUpdates d) i of None \<Rightarrow> [] | Some g \<Rightarrow> g) update) (groupUpdates d)\<rparr>)"

fun append :: "decide \<Rightarrow> buffer_event \<Rightarrow> buffered \<times> cache \<Rightarrow> buffered \<times> cache" where
  "append decide (HistorySet h) s = append_history decide h s"
| "append decide (ChatsUpsert cs) s = (fold (chat_upsert decide) cs (fst s), snd s)"
| "append decide (ChatsUpdate us) s = (fold (chat_update_one decide) us (fst s), snd s)"
| "append decide (ChatsDelete is) s = (fold chat_delete is (fst s), snd s)"
| "append decide (ContactsUpsert cs) s = (fold contact_upsert cs (fst s), snd s)"
| "append decide (ContactsUpdate us) s = (fold contact_update us (fst s), snd s)"
| "append decide (MessagesUpsert ms type) s = (fold (message_upsert type) ms (fst s), snd s)"
| "append decide (MessagesUpdate us) s = (fold message_update us (fst s), snd s)"
| "append decide (MessagesDelete keys) s =
     ((case keys of None \<Rightarrow> fst s | Some ks \<Rightarrow> fold message_delete ks (fst s)), snd s)"
| "append decide (MessagesReaction rs) s = (fold message_reaction rs (fst s), snd s)"
| "append decide (ReceiptUpdate rs) s = (fold message_receipt rs (fst s), snd s)"
| "append decide (GroupsUpdate gs) s = (fold group_update gs (fst s), snd s)"
| "append decide (OtherEvent name payload) s = s"

subsection \<open>The released events\<close>

datatype payload =
    PHistory "obj list" "obj list" "obj list" history_sets
  | PObjects "obj list"
  | PChatUpdates "chat_update list"
  | PIds "js_string list"
  | PUpserts "obj list" js_string
  | PPairs "(obj \<times> obj) list"
  | PDeleted "obj list option"
  | PKeyed "(jv \<times> jv) list"
  | PRawHistory history_event
  | POther jv

type_synonym event_map = "(js_string \<times> payload) list"

definition when_some :: "js_string \<Rightarrow> ('a list \<Rightarrow> payload) \<Rightarrow> 'a list \<Rightarrow> event_map" where
  "when_some name p xs = (if xs = [] then [] else [(name, p xs)])"

definition keyed :: "js_string \<Rightarrow> obj list \<Rightarrow> (jv \<times> jv) list" where
  "keyed field es = concat (map (\<lambda>e. map (\<lambda>v. (oget e ''key'', v)) (elems_of (oget e field))) es)"

definition consolidateEvents :: "buffered \<Rightarrow> event_map" where
  "consolidateEvents d =
     (let hs = historySets d; upserts = map snd (messageUpserts d) in
      (if hs_empty hs then [] else
         [(''messaging-history.set'',
           PHistory (map snd (hs_chats hs)) (map snd (hs_messages hs)) (map snd (hs_contacts hs)) hs)]) @
      when_some ''chats.upsert'' PObjects (map snd (chatUpserts d)) @
      when_some ''chats.update'' PChatUpdates (map snd (chatUpdates d)) @
      when_some ''chats.delete'' PIds (chatDeletes d) @
      when_some ''messages.upsert'' (\<lambda>us. PUpserts (map up_message us) (up_type (hd us))) upserts @
      when_some ''messages.update'' PPairs (map snd (messageUpdates d)) @
      when_some ''messages.delete'' (\<lambda>ks. PDeleted (Some ks)) (map snd (messageDeletes d)) @
      when_some ''messages.reaction'' PKeyed (keyed ''reactions'' (map snd (messageReactions d))) @
      when_some ''message-receipt.update'' PKeyed (keyed ''userReceipt'' (map snd (messageReceipts d))) @
      when_some ''contacts.upsert'' PObjects (map snd (contactUpserts d)) @
      when_some ''contacts.update'' PObjects (map snd (contactUpdates d)) @
      when_some ''groups.update'' PObjects (map snd (groupUpdates d)))"

end
