(* ===== verification/EventBuffer.thy ===== *)
theory EventBuffer
  imports EventData
begin

text \<open>
  The event buffer of \<open>src/src/Utils/event-buffer.ts\<close>: buffering, flushing, the two timers and the
  dispatch to listeners, as a function of the inputs. Timers are numbered; a live timer may fire at any
  time. The maps handed to the \<open>event\<close> listeners are recorded in order.
\<close>

datatype timer_kind = AutoFlush | PendingFlush

record evbuf =
  data :: buffered
  historyCache :: cache
  buffering :: bool
  bufferCount :: nat
  bufferTimeout :: "nat option"
  flushPendingTimeout :: "nat option"
  hasPendingUpserts :: bool
  pendingUpsertType :: "js_string option"
  live_timers :: "(nat \<times> timer_kind) list"
  next_timer :: nat
  released :: "event_map list"

definition makeEventBuffer :: evbuf where
  "makeEventBuffer =
     \<lparr>data = makeBufferData, historyCache = [], buffering = False, bufferCount = 0, bufferTimeout = None,
      flushPendingTimeout = None, hasPendingUpserts = False, pendingUpsertType = None, live_timers = [],
      next_timer = 0, released = []\<rparr>"

definition clear_timer :: "nat option \<Rightarrow> evbuf \<Rightarrow> evbuf" where
  "clear_timer h s = (case h of None \<Rightarrow> s | Some i \<Rightarrow> s\<lparr>live_timers := filter (\<lambda>t. fst t \<noteq> i) (live_timers s)\<rparr>)"

definition set_timer :: "timer_kind \<Rightarrow> evbuf \<Rightarrow> nat \<times> evbuf" where
  "set_timer k s = (next_timer s, s\<lparr>live_timers := live_timers s @ [(next_timer s, k)], next_timer := Suc (next_timer s)\<rparr>)"

definition release :: "event_map \<Rightarrow> evbuf \<Rightarrow> evbuf" where
  "release m s = s\<lparr>released := released s @ [m]\<rparr>"

subsection \<open>Flushing\<close>

text \<open>A pending update that waits for its condition moves to the next buffer.\<close>

definition keep_conditional :: "chat_update \<Rightarrow> buffered \<times> buffered \<Rightarrow> buffered \<times> buffered" where
  "keep_conditional u s =
     (case s of (nxt, d) \<Rightarrow>
        let i = oget (cu_fields u) ''id'' in
        if conditional u \<noteq> None \<and> truthy i
        then (nxt\<lparr>chatUpdates := omap_set (template i) u (chatUpdates nxt)\<rparr>,
              d\<lparr>chatUpdates := omap_del (template i) (chatUpdates d)\<rparr>)
        else s)"

definition split_conditional :: "buffered \<Rightarrow> buffered \<times> buffered" where
  "split_conditional d = fold keep_conditional (map snd (chatUpdates d)) (makeBufferData, d)"

definition flush :: "evbuf \<Rightarrow> bool \<times> evbuf" where
  "flush s =
     (if \<not> buffering s then (False, s)
      else
        let s1 = clear_timer (flushPendingTimeout s) (clear_timer (bufferTimeout s) (s\<lparr>buffering := False, bufferCount := 0\<rparr>));
            s2 = s1\<lparr>bufferTimeout := None, flushPendingTimeout := None,
                    historyCache := (if length (historyCache s1) > 10000 then [] else historyCache s1)\<rparr>;
            (nxt, d) = split_conditional (data s2);
            consolidated = consolidateEvents d;
            s3 = (if consolidated \<noteq> [] then release consolidated s2 else s2)
        in (True, s3\<lparr>data := nxt, hasPendingUpserts := False\<rparr>))"

definition buffer :: "evbuf \<Rightarrow> evbuf" where
  "buffer s =
     (let s1 =
        (if buffering s then s
         else
           let s2 = clear_timer (bufferTimeout s) (s\<lparr>buffering := True, bufferCount := 0\<rparr>);
               (h, s3) = set_timer AutoFlush s2
           in s3\<lparr>bufferTimeout := Some h\<rparr>)
      in s1\<lparr>bufferCount := bufferCount s1 + 1\<rparr>)"

text \<open>The \<open>finally\<close> of a buffered function.\<close>

definition end_work :: "evbuf \<Rightarrow> evbuf" where
  "end_work s =
     (let s1 = s\<lparr>bufferCount := bufferCount s - 1\<rparr> in
      if bufferCount s1 = 0 \<and> flushPendingTimeout s1 = None
      then (let (h, s2) = set_timer PendingFlush s1 in s2\<lparr>flushPendingTimeout := Some h\<rparr>)
      else s1)"

definition fire :: "nat \<Rightarrow> evbuf \<Rightarrow> evbuf" where
  "fire h s =
     (case map_of (live_timers s) h of
        None \<Rightarrow> s
      | Some k \<Rightarrow> snd (flush (s\<lparr>live_timers := filter (\<lambda>t. fst t \<noteq> h) (live_timers s)\<rparr>)))"

definition destroy :: "evbuf \<Rightarrow> evbuf" where
  "destroy s =
     (clear_timer (flushPendingTimeout s) (clear_timer (bufferTimeout s) s))
       \<lparr>historyCache := [], data := makeBufferData, hasPendingUpserts := False, buffering := False, bufferCount := 0\<rparr>"

subsection \<open>Emitting\<close>

fun bufferable :: "buffer_event \<Rightarrow> bool" where
  "bufferable (OtherEvent name p) = False"
| "bufferable _ = True"

fun event_entry :: "buffer_event \<Rightarrow> js_string \<times> payload" where
  "event_entry (HistorySet h) = (''messaging-history.set'', PRawHistory h)"
| "event_entry (ChatsUpsert cs) = (''chats.upsert'', PObjects cs)"
| "event_entry (ChatsUpdate us) = (''chats.update'', PChatUpdates us)"
| "event_entry (ChatsDelete is) = (''chats.delete'', PIds is)"
| "event_entry (ContactsUpsert cs) = (''contacts.upsert'', PObjects cs)"
| "event_entry (ContactsUpdate us) = (''contacts.update'', PObjects us)"
| "event_entry (MessagesUpsert ms type) = (''messages.upsert'', PUpserts ms type)"
| "event_entry (MessagesUpdate us) = (''messages.update'', PPairs us)"
| "event_entry (MessagesDelete ks) = (''messages.delete'', PDeleted ks)"
| "event_entry (MessagesReaction rs) = (''messages.reaction'', PPairs rs)"
| "event_entry (ReceiptUpdate rs) = (''message-receipt.update'', PPairs rs)"
| "event_entry (GroupsUpdate gs) = (''groups.update'', PObjects gs)"
| "event_entry (OtherEvent name p) = (name, POther p)"

fun upsert_type :: "buffer_event \<Rightarrow> js_string option" where
  "upsert_type (MessagesUpsert ms type) = Some type"
| "upsert_type _ = None"

text \<open>Releasing the pending upserts, when the first has another type.\<close>

definition release_other_type :: "js_string \<Rightarrow> evbuf \<Rightarrow> evbuf" where
  "release_other_type type s =
     (let pending = map snd (messageUpserts (data s)) in
      if pending \<noteq> [] \<and> up_type (hd pending) \<noteq> type
      then (release [(''messages.upsert'', PUpserts (map up_message pending) (up_type (hd pending)))] s)
             \<lparr>data := (data s)\<lparr>messageUpserts := []\<rparr>\<rparr>
      else s)"

definition append_or_pass :: "decide \<Rightarrow> buffer_event \<Rightarrow> evbuf \<Rightarrow> evbuf" where
  "append_or_pass decide e s =
     (if buffering s \<and> bufferable e then
        (let (d, c) = append decide e (data s, historyCache s);
             s1 = s\<lparr>data := d, historyCache := c\<rparr>
         in case upsert_type e of None \<Rightarrow> s1
            | Some type \<Rightarrow> s1\<lparr>hasPendingUpserts := True, pendingUpsertType := Some type\<rparr>)
      else release [event_entry e] s)"

definition emit :: "decide \<Rightarrow> buffer_event \<Rightarrow> evbuf \<Rightarrow> evbuf" where
  "emit decide e s =
     append_or_pass decide e
       (case upsert_type e of
          None \<Rightarrow> s
        | Some type \<Rightarrow>
            if hasPendingUpserts s \<and> pendingUpsertType s \<noteq> Some type
            then (release_other_type type s)\<lparr>hasPendingUpserts := False\<rparr> else s)"

text \<open>The same without the shortcut: the pending upserts are looked at for every message.\<close>

definition emit_scan :: "decide \<Rightarrow> buffer_event \<Rightarrow> evbuf \<Rightarrow> evbuf" where
  "emit_scan decide e s =
     append_or_pass decide e (case upsert_type e of None \<Rightarrow> s | Some type \<Rightarrow> release_other_type type s)"

datatype buf_input = Emit buffer_event | StartWork | EndWork | FlushNow | Fire nat | Destroy

fun buf_react :: "decide \<Rightarrow> buf_input \<Rightarrow> evbuf \<Rightarrow> evbuf" where
  "buf_react decide (Emit e) s = emit decide e s"
| "buf_react decide StartWork s = buffer s"
| "buf_react decide EndWork s = end_work s"
| "buf_react decide FlushNow s = snd (flush s)"
| "buf_react decide (Fire h) s = fire h s"
| "buf_react decide Destroy s = destroy s"

subsection \<open>Dispatch\<close>

text \<open>
  The \<open>event\<close> listener: a map's events in order, each to the listeners of its name; a listener is a
  number and whether it throws. The result is the deliveries made and whether an error escapes.
\<close>

type_synonym listeners = "js_string \<Rightarrow> (nat \<times> bool) list"

fun emit_until_throw :: "js_string \<Rightarrow> (nat \<times> bool) list \<Rightarrow> (nat \<times> js_string) list \<times> bool" where
  "emit_until_throw event [] = ([], False)"
| "emit_until_throw event ((l, throws) # ls) =
     (if throws then ([(l, event)], True)
      else (let (ds, err) = emit_until_throw event ls in ((l, event) # ds, err)))"

fun dispatch :: "listeners \<Rightarrow> js_string list \<Rightarrow> (nat \<times> js_string) list \<times> bool" where
  "dispatch ls [] = ([], False)"
| "dispatch ls (event # events) =
     (let (ds, err) =
        (if event = ''connection.update'' then (map (\<lambda>(l, throws). (l, event)) (ls event), False)
         else emit_until_throw event (ls event))
      in if err then (ds, True)
         else (let (ds', err') = dispatch ls events in (ds @ ds', err')))"

subsection \<open>Which operations touch the pending upserts\<close>

definition all_types :: "js_string \<Rightarrow> buffered \<Rightarrow> bool" where
  "all_types t d \<longleftrightarrow> (\<forall>u \<in> snd ` set (messageUpserts d). up_type u = t)"

lemma set_omap_set: "snd ` set (omap_set k v m) \<subseteq> insert v (snd ` set m)"
  by (induction m) auto

lemma omap_get_in: "omap_get m k = Some v \<Longrightarrow> v \<in> snd ` set m"
  by (metis image_eqI map_of_SomeD snd_conv)

lemma set_omap_del: "snd ` set (omap_del k m) \<subseteq> snd ` set m"
  by (auto simp: AList.delete_eq)

lemma absorb_other [simp]:
  "messageUpserts (snd (absorbChatUpdate decide c d)) = messageUpserts d"
  "historySets (snd (absorbChatUpdate decide c d)) = historySets d"
  "messageUpdates (snd (absorbChatUpdate decide c d)) = messageUpdates d"
  by (auto simp: absorbChatUpdate_def Let_def split: option.splits bool.splits)

text \<open>What the message rules read: pending upserts, history messages and pending updates.\<close>

definition messages_of :: "buffered \<Rightarrow> (js_string, upsert) omap \<times> (js_string, obj) omap \<times> (js_string, obj \<times> obj) omap \<times> bool" where
  "messages_of d = (messageUpserts d, hs_messages (historySets d), messageUpdates d, hs_empty (historySets d))"

lemma history_chat_messages: "messages_of (fst (history_chat decide c s)) = messages_of (fst s)"
proof -
  obtain d cache where s: "s = (d, cache)" by (cases s)
  obtain c1 d1 where a: "absorbChatUpdate decide c (put_history_chat (id_or_empty c) c d) = (c1, d1)" by fastforce
  have d1: "d1 = snd (absorbChatUpdate decide c (put_history_chat (id_or_empty c) c d))" by (simp add: a)
  have "messages_of d1 = messages_of d"
    unfolding d1 by (simp add: messages_of_def put_history_chat_def)
  then show ?thesis using a
    by (simp add: s history_chat_def Let_def messages_of_def put_history_chat_def split: option.split)
qed

lemma history_contact_messages: "messages_of (fst (history_contact c s)) = messages_of (fst s)"
  by (cases s) (simp add: history_contact_def Let_def messages_of_def split: option.split)

lemma chat_upsert_messages: "messages_of (chat_upsert decide c d) = messages_of d"
proof -
  have absorb: "messages_of (snd (absorbChatUpdate decide x y)) = messages_of y" for x y
    by (simp add: messages_of_def)
  show ?thesis
    unfolding chat_upsert_def Let_def
    using absorb by (auto simp: messages_of_def put_history_chat_def case_prod_beta split: option.split)
qed

lemma merge_update_messages: "messages_of (merge_update i fs d) = messages_of d"
  by (simp add: merge_update_def Let_def messages_of_def put_history_chat_def split: option.split)

lemma chat_update_messages: "messages_of (chat_update_one decide u d) = messages_of d"
  using merge_update_messages [of "id_or_empty (cu_fields u)" "cu_fields u" d]
  by (auto simp: chat_update_one_def Let_def messages_of_def split: option.splits bool.splits)

lemma chat_delete_messages: "messages_of (chat_delete i d) = messages_of d"
  by (simp add: chat_delete_def messages_of_def)

lemma contact_messages:
  "messages_of (contact_upsert c d) = messages_of d" "messages_of (contact_update c d) = messages_of d"
  by (auto simp: contact_upsert_def contact_update_def Let_def messages_of_def split: option.split)

lemma group_messages: "messages_of (group_update g d) = messages_of d"
  by (simp add: group_update_def Let_def messages_of_def)

lemma mark_read_messages: "messages_of (mark_read m d) = messages_of d"
  by (auto simp: mark_read_def Let_def messages_of_def split: option.split)

lemma fold_messages: "(\<And>x d. messages_of (f x d) = messages_of d) \<Longrightarrow> messages_of (fold f xs d) = messages_of d"
  by (induction xs arbitrary: d) auto

lemma fold_messages_fst: "(\<And>x s. messages_of (fst (f x s)) = messages_of (fst s)) \<Longrightarrow> messages_of (fst (fold f xs s)) = messages_of (fst s)"
  by (induction xs arbitrary: s) auto

fun message_event :: "buffer_event \<Rightarrow> bool" where
  "message_event (HistorySet h) = True"
| "message_event (MessagesUpsert ms t) = True"
| "message_event (MessagesUpdate us) = True"
| "message_event (MessagesDelete ks) = True"
| "message_event (MessagesReaction rs) = True"
| "message_event (ReceiptUpdate rs) = True"
| "message_event _ = False"

lemma append_other_messages:
  "\<not> message_event e \<Longrightarrow> messages_of (fst (append decide e s)) = messages_of (fst s)"
  by (cases e) (simp_all add: fold_messages chat_upsert_messages chat_update_messages chat_delete_messages
      contact_messages group_messages)

subsection \<open>The pending upserts share a type\<close>

lemma set_omap_set_sub: "set (omap_set k v m) \<subseteq> insert (k, v) (set m)"
  by (induction m) auto

lemma keys_omap_set: "fst ` set (omap_set k v m) = insert k (fst ` set m)"
  by (induction m) auto

lemma all_types_set:
  "all_types t d \<Longrightarrow> up_type u = t \<Longrightarrow> messageUpserts d' = omap_set k u (messageUpserts d) \<Longrightarrow> all_types t d'"
  using set_omap_set [of k u "messageUpserts d"] by (simp only: all_types_def) blast

lemma all_types_del: "all_types t d \<Longrightarrow> messageUpserts d' = omap_del k (messageUpserts d) \<Longrightarrow> all_types t d'"
  using set_omap_del [of k "messageUpserts d"] by (simp only: all_types_def) blast

lemma all_types_same: "all_types t d \<Longrightarrow> messageUpserts d' = messageUpserts d \<Longrightarrow> all_types t d'"
  by (simp add: all_types_def)

lemma all_types_get: "all_types t d \<Longrightarrow> omap_get (messageUpserts d) k = Some u \<Longrightarrow> up_type u = t"
  using omap_get_in [of "messageUpserts d" k u] by (auto simp: all_types_def)

lemma types_upsert: "all_types t d \<Longrightarrow> all_types t (message_upsert t m d)"
proof -
  assume a: "all_types t d"
  let ?key = "stringifyMessageKey (message_key m)"
  have t: "upserted_type t (omap_get (messageUpserts d) ?key) = t"
    using all_types_get [OF a, of ?key] by (auto simp: upserted_type_def split: option.split)
  show ?thesis
  proof (cases "omap_get (hs_messages (historySets d)) ?key")
    case None
    then have "messageUpserts (message_upsert t m d) =
        omap_set ?key \<lparr>up_message = upserted_message m d, up_type = t\<rparr> (messageUpserts d)"
      by (simp add: message_upsert_def Let_def t)
    then show ?thesis by (intro all_types_set [OF a]) simp_all
  next
    case (Some x)
    then show ?thesis by (intro all_types_same [OF a]) (simp add: message_upsert_def Let_def)
  qed
qed

lemma mark_read_upserts: "messageUpserts (mark_read m d) = messageUpserts d"
  using mark_read_messages [of m d] by (simp add: messages_of_def)

lemma types_update: "all_types t d \<Longrightarrow> all_types t (message_update p d)"
proof -
  assume a: "all_types t d"
  let ?key = "stringifyMessageKey (fst p)"
  show ?thesis
  proof (cases "omap_get (hs_messages (historySets d)) ?key")
    case (Some x)
    then show ?thesis
      by (intro all_types_same [OF a]) (simp add: message_update_def Let_def mark_read_upserts)
  next
    case None
    show ?thesis
    proof (cases "omap_get (messageUpserts d) ?key")
      case (Some u)
      have "messageUpserts (message_update p d) =
          omap_set ?key (u\<lparr>up_message := object_assign (up_message u) (snd p)\<rparr>) (messageUpserts d)"
        using None Some by (simp add: message_update_def Let_def mark_read_upserts)
      then show ?thesis by (intro all_types_set [OF a]) (simp_all add: all_types_get [OF a Some])
    qed (intro all_types_same [OF a], simp add: None message_update_def Let_def)
  qed
qed

lemma types_delete: "all_types t d \<Longrightarrow> all_types t (message_delete k d)"
  by (rule all_types_del) (simp_all add: message_delete_def Let_def)

lemma types_reaction: "all_types t d \<Longrightarrow> all_types t (message_reaction p d)"
proof (cases "omap_get (messageUpserts d) (stringifyMessageKey (fst p))")
  case None
  then show "all_types t d \<Longrightarrow> all_types t (message_reaction p d)"
    by (elim all_types_same) (simp add: message_reaction_def Let_def)
next
  case (Some u)
  assume a: "all_types t d"
  have "messageUpserts (message_reaction p d) = omap_set (stringifyMessageKey (fst p))
      (u\<lparr>up_message := updateMessageWithReaction (up_message u) (snd p)\<rparr>) (messageUpserts d)"
    using Some by (simp add: message_reaction_def Let_def)
  then show ?thesis by (intro all_types_set [OF a]) (simp_all add: all_types_get [OF a Some])
qed

lemma types_receipt: "all_types t d \<Longrightarrow> all_types t (message_receipt p d)"
proof (cases "omap_get (messageUpserts d) (stringifyMessageKey (fst p))")
  case None
  then show "all_types t d \<Longrightarrow> all_types t (message_receipt p d)"
    by (elim all_types_same) (simp add: message_receipt_def Let_def)
next
  case (Some u)
  assume a: "all_types t d"
  have "messageUpserts (message_receipt p d) = omap_set (stringifyMessageKey (fst p))
      (u\<lparr>up_message := updateMessageWithReceipt (up_message u) (snd p)\<rparr>) (messageUpserts d)"
    using Some by (simp add: message_receipt_def Let_def)
  then show ?thesis by (intro all_types_set [OF a]) (simp_all add: all_types_get [OF a Some])
qed

lemma history_message_upserts: "messageUpserts (fst (history_message m s)) = messageUpserts (fst s)"
  by (cases s) (simp add: history_message_def Let_def)

lemma fold_types: "(\<And>x d. all_types t d \<Longrightarrow> all_types t (f x d)) \<Longrightarrow> all_types t d \<Longrightarrow> all_types t (fold f xs d)"
  by (induction xs arbitrary: d) auto

lemma append_history_parts:
  "messages_of (fst (fold history_contact cs (fold (history_chat decide) chs s))) = messages_of (fst s)"
  by (simp add: fold_messages_fst history_contact_messages history_chat_messages)

lemma fold_history_upserts:
  "messageUpserts (fst (fold history_message ms s)) = messageUpserts (fst s)"
  by (induction ms arbitrary: s) (simp_all add: history_message_upserts)

lemma append_history_upserts: "messageUpserts (fst (append_history decide h s)) = messageUpserts (fst s)"
  using append_history_parts [of "he_contacts h" decide "he_chats h" s]
  by (simp add: append_history_def Let_def fold_history_upserts messages_of_def)

lemma append_types:
  assumes "upsert_type e = None \<or> upsert_type e = Some t" and "all_types t (fst s)"
  shows "all_types t (fst (append decide e s))"
proof (cases "message_event e")
  case False
  then show ?thesis
    using append_other_messages [OF False, of decide s] assms(2) by (auto simp: messages_of_def intro: all_types_same)
next
  case True
  then show ?thesis
    using assms
    by (cases e) (auto simp: types_upsert types_update types_delete types_reaction types_receipt append_history_upserts
        intro: fold_types all_types_same split: option.split)
qed

definition types_inv :: "evbuf \<Rightarrow> bool" where
  "types_inv s \<longleftrightarrow>
     (if hasPendingUpserts s then \<exists>t. pendingUpsertType s = Some t \<and> all_types t (data s)
      else messageUpserts (data s) = [])"

lemma clear_timer_simps [simp]:
  "data (clear_timer h s) = data s" "hasPendingUpserts (clear_timer h s) = hasPendingUpserts s"
  "pendingUpsertType (clear_timer h s) = pendingUpsertType s" "buffering (clear_timer h s) = buffering s"
  "released (clear_timer h s) = released s" "historyCache (clear_timer h s) = historyCache s"
  "bufferTimeout (clear_timer h s) = bufferTimeout s" "flushPendingTimeout (clear_timer h s) = flushPendingTimeout s"
  "bufferCount (clear_timer h s) = bufferCount s" "next_timer (clear_timer h s) = next_timer s"
  by (simp_all add: clear_timer_def split: option.split)

lemma keep_conditional_upserts:
  "messages_of (fst (keep_conditional u s)) = messages_of (fst s)"
  "messages_of (snd (keep_conditional u s)) = messages_of (snd s)"
  by (cases s; simp add: keep_conditional_def Let_def messages_of_def)+

lemma split_conditional_messages:
  "messages_of (fst (split_conditional d)) = ([], [], [], True)"
  "messages_of (snd (split_conditional d)) = messages_of d"
proof -
  have "messages_of (fst (fold keep_conditional us s)) = messages_of (fst s) \<and>
      messages_of (snd (fold keep_conditional us s)) = messages_of (snd s)" for us s
    by (induction us arbitrary: s) (simp_all add: keep_conditional_upserts)
  then show "messages_of (fst (split_conditional d)) = ([], [], [], True)"
    "messages_of (snd (split_conditional d)) = messages_of d"
    by (simp_all add: split_conditional_def) (simp add: messages_of_def makeBufferData_def)
qed

lemma flush_data:
  "data (snd (flush s)) = (if buffering s then fst (split_conditional (data s)) else data s)"
  "released (snd (flush s)) = released s @
     (if buffering s \<and> consolidateEvents (snd (split_conditional (data s))) \<noteq> []
      then [consolidateEvents (snd (split_conditional (data s)))] else [])"
  "hasPendingUpserts (snd (flush s)) = (hasPendingUpserts s \<and> \<not> buffering s)"
  "pendingUpsertType (snd (flush s)) = pendingUpsertType s"
  "buffering (snd (flush s)) = False"
  by (auto simp: flush_def Let_def release_def case_prod_beta)

lemma types_inv_flush: "types_inv s \<Longrightarrow> types_inv (snd (flush s))"
  using split_conditional_messages [of "data s"]
  by (cases "buffering s") (auto simp: types_inv_def flush_data messages_of_def)

lemma types_inv_other:
  "types_inv s \<Longrightarrow> types_inv (buffer s)" "types_inv s \<Longrightarrow> types_inv (end_work s)"
  "types_inv (destroy s)" "types_inv s \<Longrightarrow> types_inv (fire h s)"
proof -
  show "types_inv s \<Longrightarrow> types_inv (buffer s)"
    by (simp add: types_inv_def buffer_def set_timer_def Let_def)
  show "types_inv s \<Longrightarrow> types_inv (end_work s)"
    by (simp add: types_inv_def end_work_def set_timer_def Let_def)
  show "types_inv (destroy s)" by (simp add: types_inv_def destroy_def makeBufferData_def)
  show "types_inv s \<Longrightarrow> types_inv (fire h s)"
    using types_inv_flush [of "s\<lparr>live_timers := filter (\<lambda>t. fst t \<noteq> h) (live_timers s)\<rparr>"]
    by (auto simp: fire_def types_inv_def split: option.splits)
qed

lemma release_other_data:
  "messageUpserts (data (release_other_type t s)) =
    (if messageUpserts (data s) \<noteq> [] \<and> up_type (hd (map snd (messageUpserts (data s)))) \<noteq> t then [] else messageUpserts (data s))"
  by (simp add: release_other_type_def Let_def release_def)

text \<open>After the release, what is pending has the type of the new batch.\<close>

lemma release_other_types:
  assumes "types_inv s"
  shows "all_types t (data (release_other_type t s))"
proof (cases "messageUpserts (data s)")
  case Nil
  then show ?thesis by (simp add: all_types_def release_other_data)
next
  case (Cons p ps)
  then obtain t0 where "all_types t0 (data s)" using assms by (auto simp: types_inv_def split: if_splits)
  then show ?thesis using Cons by (auto simp: all_types_def release_other_data)
qed

lemma emit_eq_scan:
  assumes "types_inv s" and "upsert_type e = Some t"
  shows "(if hasPendingUpserts s \<and> pendingUpsertType s \<noteq> Some t then (release_other_type t s)\<lparr>hasPendingUpserts := False\<rparr> else s)
    = (release_other_type t s)\<lparr>hasPendingUpserts :=
        (hasPendingUpserts s \<and> pendingUpsertType s = Some t)\<rparr>"
proof (cases "hasPendingUpserts s \<and> pendingUpsertType s \<noteq> Some t")
  case False
  have same: "release_other_type t s = s"
  proof (cases "messageUpserts (data s)")
    case Nil
    then show ?thesis by (simp add: release_other_type_def Let_def)
  next
    case (Cons p ps)
    then have "pendingUpsertType s = Some t" "all_types t (data s)"
      using assms(1) False by (auto simp: types_inv_def split: if_splits)
    then show ?thesis using Cons by (simp add: release_other_type_def Let_def all_types_def)
  qed
  have "hasPendingUpserts s = (hasPendingUpserts s \<and> pendingUpsertType s = Some t)" using False by auto
  then show ?thesis using False same by simp
qed auto

lemma types_inv_emit: "types_inv s \<Longrightarrow> types_inv (emit decide e s)"
proof -
  assume inv: "types_inv s"
  show ?thesis
  proof (cases "upsert_type e")
    case None
    have "types_inv (append_or_pass decide e s)"
    proof (cases "buffering s \<and> bufferable e")
      case True
      obtain d c where a: "append decide e (data s, historyCache s) = (d, c)" by fastforce
      have "all_types t d" if "all_types t (data s)" for t
        using append_types [of e t "(data s, historyCache s)" decide] that None a by simp
      moreover have "messageUpserts d = []" if "messageUpserts (data s) = []"
      proof (rule ccontr)
        assume "messageUpserts d \<noteq> []"
        then obtain p ps where "messageUpserts d = p # ps" by (cases "messageUpserts d") auto
        moreover have "all_types t d" for t
          using append_types [of e t "(data s, historyCache s)" decide] that None a by (simp add: all_types_def)
        ultimately have "up_type (snd p) = t" for t by (auto simp: all_types_def)
        from this [of "[]"] this [of "''x''"] show False by simp
      qed
      ultimately show ?thesis using inv True a None
        by (auto simp: append_or_pass_def Let_def types_inv_def split: if_splits)
    next
      case False
      then show ?thesis using inv by (simp only: append_or_pass_def if_False) (simp add: release_def types_inv_def)
    qed
    then show ?thesis by (simp add: emit_def None)
  next
    case (Some t)
    define s1 where "s1 = (release_other_type t s)\<lparr>hasPendingUpserts := (hasPendingUpserts s \<and> pendingUpsertType s = Some t)\<rparr>"
    have e: "emit decide e s = append_or_pass decide e s1"
      using emit_eq_scan [OF inv Some] by (simp add: emit_def Some s1_def)
    have types: "all_types t (data s1)" using release_other_types [OF inv] by (simp add: s1_def)
    show ?thesis
    proof (cases "buffering s1 \<and> bufferable e")
      case True
      obtain d c where a: "append decide e (data s1, historyCache s1) = (d, c)" by fastforce
      have "all_types t d"
        using append_types [of e t "(data s1, historyCache s1)" decide] types Some a by simp
      then show ?thesis using True a Some e by (simp add: append_or_pass_def Let_def types_inv_def)
    next
      case False
      have "types_inv s1"
      proof (cases "hasPendingUpserts s1")
        case True
        moreover from True have "pendingUpsertType s1 = Some t"
          by (simp add: s1_def release_other_type_def Let_def release_def)
        ultimately show ?thesis using types by (simp add: types_inv_def)
      next
        case False
        have "messageUpserts (data s1) = []"
        proof (cases "hasPendingUpserts s")
          case True
          then obtain t0 where t0: "pendingUpsertType s = Some t0" "all_types t0 (data s)" "t0 \<noteq> t"
            using inv False by (auto simp: types_inv_def s1_def)
          show ?thesis using t0
            by (cases "messageUpserts (data s)") (auto simp: s1_def release_other_data all_types_def)
        next
          case False
          then show ?thesis using inv by (simp add: types_inv_def s1_def release_other_data)
        qed
        with False show ?thesis by (simp add: types_inv_def)
      qed
      then show ?thesis using False e by (simp only: append_or_pass_def if_False) (simp add: release_def types_inv_def)
    qed
  qed
qed

lemma types_inv_react: "types_inv s \<Longrightarrow> types_inv (buf_react decide i s)"
  by (cases i) (simp_all add: types_inv_emit types_inv_other types_inv_flush)

lemma types_inv_start: "types_inv makeEventBuffer"
  by (simp add: types_inv_def makeEventBuffer_def makeBufferData_def)

interpretation buf_types: reactive makeEventBuffer "buf_react decide" types_inv for decide
  by unfold_locales (auto simp: types_inv_start intro: types_inv_react)

lemma append_or_pass_flag:
  "data (append_or_pass decide e (s\<lparr>hasPendingUpserts := b\<rparr>)) = data (append_or_pass decide e s)"
  "released (append_or_pass decide e (s\<lparr>hasPendingUpserts := b\<rparr>)) = released (append_or_pass decide e s)"
  by (auto simp: append_or_pass_def Let_def release_def case_prod_beta split: option.split)

text \<open>
  C28: The shortcut that skips scanning the pending upserts is exact. In every reachable state of the
  buffer, emitting any event releases the same maps and buffers the same data as looking at the pending
  upserts for every message, and all pending upserts have one type, so the type a released batch is
  given is the type of each of its messages.
\<close>

theorem emit_shortcut_is_exact:
  "data (emit decide e (fold (buf_react decide) is makeEventBuffer)) =
     data (emit_scan decide e (fold (buf_react decide) is makeEventBuffer)) \<and>
   released (emit decide e (fold (buf_react decide) is makeEventBuffer)) =
     released (emit_scan decide e (fold (buf_react decide) is makeEventBuffer)) \<and>
   up_type ` snd ` set (messageUpserts (data (fold (buf_react decide) is makeEventBuffer))) \<subseteq>
     {up_type (hd (map snd (messageUpserts (data (fold (buf_react decide) is makeEventBuffer)))))}"
proof -
  define s where "s = fold (buf_react decide) is makeEventBuffer"
  have inv: "types_inv s" unfolding s_def by (rule buf_types.run_inv)
  have "data (emit decide e s) = data (emit_scan decide e s) \<and> released (emit decide e s) = released (emit_scan decide e s)"
  proof (cases "upsert_type e")
    case None
    then show ?thesis by (simp add: emit_def emit_scan_def)
  next
    case (Some t)
    then show ?thesis
      using emit_eq_scan [OF inv Some] by (simp add: emit_def emit_scan_def append_or_pass_flag)
  qed
  moreover have "up_type ` snd ` set (messageUpserts (data s)) \<subseteq> {up_type (hd (map snd (messageUpserts (data s))))}"
  proof (cases "messageUpserts (data s)")
    case (Cons p ps)
    then obtain t where "all_types t (data s)" using inv by (auto simp: types_inv_def split: if_splits)
    then show ?thesis using Cons by (auto simp: all_types_def)
  qed simp
  ultimately show ?thesis unfolding s_def by blast
qed

subsection \<open>No message is lost\<close>

abbreviation keyof :: "obj \<Rightarrow> js_string" where
  "keyof m \<equiv> stringifyMessageKey (message_key m)"

fun payload_keys :: "payload \<Rightarrow> js_string list" where
  "payload_keys (PHistory cs ms ct hs) = map keyof ms"
| "payload_keys (PUpserts ms t) = map keyof ms"
| "payload_keys (PRawHistory h) = map keyof (he_messages h)"
| "payload_keys _ = []"

definition map_keys :: "event_map \<Rightarrow> js_string set" where
  "map_keys m = (\<Union>p \<in> snd ` set m. set (payload_keys p))"

definition released_keys :: "evbuf \<Rightarrow> js_string set" where
  "released_keys s = (\<Union>m \<in> set (released s). map_keys m)"

definition pending_keys :: "buffered \<Rightarrow> js_string set" where
  "pending_keys d = fst ` set (messageUpserts d) \<union> fst ` set (hs_messages (historySets d))"

definition msgs_keyed :: "buffered \<Rightarrow> bool" where
  "msgs_keyed d \<longleftrightarrow>
     (\<forall>k u. (k, u) \<in> set (messageUpserts d) \<longrightarrow> keyof (up_message u) = k) \<and>
     (\<forall>k m. (k, m) \<in> set (hs_messages (historySets d)) \<longrightarrow> keyof m = k) \<and>
     (\<forall>k p. (k, p) \<in> set (messageUpdates d) \<longrightarrow> \<not> has_own (snd p) ''key'')"

definition empty_ok :: "buffered \<Rightarrow> bool" where
  "empty_ok d \<longleftrightarrow> (hs_empty (historySets d) \<longrightarrow> hs_messages (historySets d) = [])"

lemma messages_of_cong:
  assumes "messages_of d' = messages_of d"
  shows "msgs_keyed d' = msgs_keyed d" "pending_keys d' = pending_keys d" "empty_ok d' = empty_ok d"
  using assms by (simp_all add: messages_of_def msgs_keyed_def pending_keys_def empty_ok_def)

lemma oget_assign_other: "\<not> has_own s k \<Longrightarrow> oget (object_assign t s) k = oget t k"
proof (induction s rule: rev_induct)
  case (snoc p s)
  then show ?case by (cases p) (auto simp: object_assign_snoc omap_simps has_own_def omap_get_snoc split: option.splits if_splits)
qed simp

lemma has_own_set: "has_own (omap_set k v m) j \<longleftrightarrow> j = k \<or> has_own m j"
  by (simp add: has_own_def omap_simps)

lemma has_own_snoc: "has_own (m @ [(k, v)]) j \<longleftrightarrow> j = k \<or> has_own m j"
  by (auto simp: has_own_def omap_get_snoc split: option.splits)

lemma has_own_assign: "has_own (object_assign t s) k \<longleftrightarrow> has_own s k \<or> has_own t k"
proof (induction s rule: rev_induct)
  case (snoc p s)
  then show ?case by (cases p) (auto simp: object_assign_snoc has_own_set has_own_snoc)
qed (simp add: has_own_def)

lemma keyof_set [simp]: "k \<noteq> ''key'' \<Longrightarrow> keyof (omap_set k v m) = keyof m"
  by (simp add: message_key_def omap_simps)

lemma keyof_assign [simp]: "\<not> has_own u ''key'' \<Longrightarrow> keyof (object_assign m u) = keyof m"
  by (simp add: message_key_def oget_assign_other)

lemma keyof_reaction [simp]: "keyof (updateMessageWithReaction m r) = keyof m"
  by (simp add: updateMessageWithReaction_def Let_def)

lemma keyof_receipt [simp]: "keyof (updateMessageWithReceipt m r) = keyof m"
  by (simp add: updateMessageWithReceipt_def)

lemma in_omap_set: "(k', v') \<in> set (omap_set k v m) \<Longrightarrow> (k', v') = (k, v) \<or> (k', v') \<in> set m"
  using set_omap_set_sub [of k v m] by blast

lemma in_omap_del: "x \<in> set (omap_del k m) \<Longrightarrow> x \<in> set m"
  by (auto simp: AList.delete_eq)

text \<open>Storing a message, in either place, and a pending update.\<close>

lemma keyed_put_upsert:
  "msgs_keyed d \<Longrightarrow> keyof (up_message u) = k \<Longrightarrow> msgs_keyed (d\<lparr>messageUpserts := omap_set k u (messageUpserts d)\<rparr>)"
  by (auto simp: msgs_keyed_def dest!: in_omap_set)

lemma keyed_put_history:
  "msgs_keyed d \<Longrightarrow> keyof m = k \<Longrightarrow> msgs_keyed (upd_history (hs_messages_update (omap_set k m)) d)"
  by (auto simp: msgs_keyed_def dest!: in_omap_set)

lemma keyed_put_update:
  "msgs_keyed d \<Longrightarrow> \<not> has_own (snd p) ''key'' \<Longrightarrow> msgs_keyed (d\<lparr>messageUpdates := omap_set k p (messageUpdates d)\<rparr>)"
  unfolding msgs_keyed_def by (auto dest!: in_omap_set)

lemma keyed_del_update: "msgs_keyed d \<Longrightarrow> msgs_keyed (d\<lparr>messageUpdates := omap_del k (messageUpdates d)\<rparr>)"
  by (auto simp: msgs_keyed_def dest!: in_omap_del)

lemma pending_put_upsert:
  "pending_keys (d\<lparr>messageUpserts := omap_set k u (messageUpserts d)\<rparr>) = insert k (pending_keys d)"
  by (simp add: pending_keys_def keys_omap_set)

lemma pending_put_history:
  "pending_keys (upd_history (hs_messages_update (omap_set k m)) d) = insert k (pending_keys d)"
  by (simp add: pending_keys_def keys_omap_set)

lemma pending_updates_irrelevant [simp]: "pending_keys (d\<lparr>messageUpdates := x\<rparr>) = pending_keys d"
  by (simp add: pending_keys_def)

lemma msgs_keyed_upsertD: "msgs_keyed d \<Longrightarrow> omap_get (messageUpserts d) k = Some u \<Longrightarrow> keyof (up_message u) = k"
  by (auto simp: msgs_keyed_def dest: map_of_SomeD)

lemma msgs_keyed_historyD: "msgs_keyed d \<Longrightarrow> omap_get (hs_messages (historySets d)) k = Some m \<Longrightarrow> keyof m = k"
  by (auto simp: msgs_keyed_def dest: map_of_SomeD)

lemma msgs_keyed_updateD: "msgs_keyed d \<Longrightarrow> omap_get (messageUpdates d) k = Some p \<Longrightarrow> \<not> has_own (snd p) ''key''"
  by (cases p) (auto simp: msgs_keyed_def dest!: map_of_SomeD)

lemma keyof_upserted: "msgs_keyed d \<Longrightarrow> keyof (upserted_message m d) = keyof m"
  by (auto simp: upserted_message_def Let_def msgs_keyed_updateD split: option.split)

lemma upsert_keyed:
  assumes "msgs_keyed d"
  shows "msgs_keyed (message_upsert t m d) \<and> pending_keys (message_upsert t m d) = insert (keyof m) (pending_keys d)"
proof -
  define d1 where "d1 = d\<lparr>messageUpdates := omap_del (keyof m) (messageUpdates d)\<rparr>"
  have d1: "msgs_keyed d1" "pending_keys d1 = pending_keys d" "messageUpserts d1 = messageUpserts d"
    using keyed_del_update [OF assms] by (simp_all add: d1_def)
  define u where "u = \<lparr>up_message = upserted_message m d, up_type = upserted_type t (omap_get (messageUpserts d) (keyof m))\<rparr>"
  have u: "keyof (up_message u) = keyof m" using keyof_upserted [OF assms] by (simp add: u_def)
  show ?thesis
  proof (cases "omap_get (hs_messages (historySets d)) (keyof m)")
    case None
    then have "message_upsert t m d = d1\<lparr>messageUpserts := omap_set (keyof m) u (messageUpserts d1)\<rparr>"
      by (simp add: message_upsert_def Let_def d1_def u_def)
    then show ?thesis using keyed_put_upsert [OF d1(1) u] d1(2) by (simp add: pending_put_upsert)
  next
    case (Some x)
    then have "message_upsert t m d = upd_history (hs_messages_update (omap_set (keyof m) (up_message u))) d1"
      by (simp add: message_upsert_def Let_def d1_def u_def)
    then show ?thesis using keyed_put_history [OF d1(1) u] d1(2) by (simp add: pending_put_history)
  qed
qed

lemma mark_read_keyed:
  "msgs_keyed (mark_read m d) = msgs_keyed d" "pending_keys (mark_read m d) = pending_keys d"
  "empty_ok (mark_read m d) = empty_ok d"
  by (rule messages_of_cong [OF mark_read_messages])+

lemma key_in_upserts: "omap_get (messageUpserts d) k = Some u \<Longrightarrow> k \<in> pending_keys d"
  by (auto simp: pending_keys_def dest!: map_of_SomeD intro: rev_image_eqI)

lemma key_in_history: "omap_get (hs_messages (historySets d)) k = Some m \<Longrightarrow> k \<in> pending_keys d"
  by (auto simp: pending_keys_def dest!: map_of_SomeD intro: rev_image_eqI)

lemma update_keyed:
  assumes "msgs_keyed d" and "\<not> has_own (snd p) ''key''"
  shows "msgs_keyed (message_update p d) \<and> pending_keys (message_update p d) = pending_keys d"
proof -
  define k where "k = stringifyMessageKey (fst p)"
  show ?thesis
  proof (cases "omap_get (hs_messages (historySets d)) k")
    case (Some m)
    define d1 where "d1 = upd_history (hs_messages_update (omap_set k (object_assign m (snd p)))) d"
    have "message_update p d = (if read_by_me p then mark_read (object_assign m (snd p)) d1 else d1)"
      using Some by (simp add: message_update_def k_def d1_def Let_def)
    moreover have "msgs_keyed d1"
      unfolding d1_def using msgs_keyed_historyD [OF assms(1) Some] assms by (intro keyed_put_history) simp_all
    moreover have "pending_keys d1 = pending_keys d"
      unfolding d1_def using key_in_history [OF Some] by (simp add: pending_put_history insert_absorb)
    ultimately show ?thesis by (simp add: mark_read_keyed)
  next
    case None
    show ?thesis
    proof (cases "omap_get (messageUpserts d) k")
      case (Some u)
      define u1 where "u1 = u\<lparr>up_message := object_assign (up_message u) (snd p)\<rparr>"
      define d1 where "d1 = d\<lparr>messageUpserts := omap_set k u1 (messageUpserts d)\<rparr>"
      have "message_update p d = (if read_by_me p then mark_read (up_message u1) d1 else d1)"
        using None Some by (simp add: message_update_def k_def d1_def u1_def Let_def)
      moreover have "msgs_keyed d1"
        unfolding d1_def using msgs_keyed_upsertD [OF assms(1) Some] assms
        by (intro keyed_put_upsert) (simp_all add: u1_def)
      moreover have "pending_keys d1 = pending_keys d"
        unfolding d1_def using key_in_upserts [OF Some] by (simp add: pending_put_upsert insert_absorb)
      ultimately show ?thesis by (simp add: mark_read_keyed)
    next
      case None2: None
      define q where "q = (case omap_get (messageUpdates d) k of Some q \<Rightarrow> q | None \<Rightarrow> (fst p, []))"
      have "\<not> has_own (snd q) ''key''"
        using msgs_keyed_updateD [OF assms(1)] by (auto simp: q_def has_own_def split: option.split)
      then have "msgs_keyed (d\<lparr>messageUpdates := omap_set k (fst q, object_assign (snd q) (snd p)) (messageUpdates d)\<rparr>)"
        using assms by (intro keyed_put_update) (simp_all add: has_own_assign)
      then show ?thesis using None None2 by (simp add: message_update_def k_def [symmetric] q_def Let_def)
    qed
  qed
qed

lemma delete_keyed:
  "msgs_keyed d \<Longrightarrow> msgs_keyed (message_delete key d) \<and>
    pending_keys d - {stringifyMessageKey key} \<subseteq> pending_keys (message_delete key d)"
  by (auto simp: message_delete_def Let_def msgs_keyed_def pending_keys_def keys_del dest!: in_omap_del)

lemma reaction_keyed:
  assumes "msgs_keyed d"
  shows "msgs_keyed (message_reaction p d) \<and> pending_keys (message_reaction p d) = pending_keys d"
proof (cases "omap_get (messageUpserts d) (stringifyMessageKey (fst p))")
  case None
  then show ?thesis using assms by (simp add: message_reaction_def Let_def msgs_keyed_def pending_keys_def)
next
  case (Some u)
  have "msgs_keyed (d\<lparr>messageUpserts := omap_set (stringifyMessageKey (fst p))
      (u\<lparr>up_message := updateMessageWithReaction (up_message u) (snd p)\<rparr>) (messageUpserts d)\<rparr>)"
    using msgs_keyed_upsertD [OF assms Some] by (intro keyed_put_upsert [OF assms]) simp
  then show ?thesis using Some key_in_upserts [OF Some]
    by (simp add: message_reaction_def Let_def pending_put_upsert insert_absorb)
qed

lemma receipt_keyed:
  assumes "msgs_keyed d"
  shows "msgs_keyed (message_receipt p d) \<and> pending_keys (message_receipt p d) = pending_keys d"
proof (cases "omap_get (messageUpserts d) (stringifyMessageKey (fst p))")
  case None
  then show ?thesis using assms by (simp add: message_receipt_def Let_def msgs_keyed_def pending_keys_def)
next
  case (Some u)
  have "msgs_keyed (d\<lparr>messageUpserts := omap_set (stringifyMessageKey (fst p))
      (u\<lparr>up_message := updateMessageWithReceipt (up_message u) (snd p)\<rparr>) (messageUpserts d)\<rparr>)"
    using msgs_keyed_upsertD [OF assms Some] by (intro keyed_put_upsert [OF assms]) simp
  then show ?thesis using Some key_in_upserts [OF Some]
    by (simp add: message_receipt_def Let_def pending_put_upsert insert_absorb)
qed

lemma history_message_keyed:
  "msgs_keyed (fst s) \<Longrightarrow> msgs_keyed (fst (history_message m s)) \<and>
    pending_keys (fst s) \<subseteq> pending_keys (fst (history_message m s))"
  using keyed_put_history [of "fst s" m "keyof m"]
  by (cases s) (auto simp: history_message_def Let_def pending_put_history)

lemma fold_history_keyed:
  "msgs_keyed (fst s) \<Longrightarrow> msgs_keyed (fst (fold history_message ms s)) \<and>
    pending_keys (fst s) \<subseteq> pending_keys (fst (fold history_message ms s))"
proof (induction ms arbitrary: s)
  case (Cons m ms)
  from history_message_keyed [OF Cons.prems, of m] Cons.IH [of "history_message m s"] show ?case by auto
qed simp

lemma history_keyed:
  assumes "msgs_keyed (fst s)"
  shows "msgs_keyed (fst (append_history decide h s)) \<and>
    pending_keys (fst s) \<subseteq> pending_keys (fst (append_history decide h s)) \<and> empty_ok (fst (append_history decide h s))"
proof -
  define s2 where "s2 = fold history_contact (he_contacts h) (fold (history_chat decide) (he_chats h) s)"
  have s2: "msgs_keyed (fst s2)" "pending_keys (fst s2) = pending_keys (fst s)"
    using messages_of_cong [OF append_history_parts] assms by (auto simp: s2_def)
  have rest: "msgs_keyed (upd_history (history_rest h) d) = msgs_keyed d"
    "pending_keys (upd_history (history_rest h) d) = pending_keys d" "empty_ok (upd_history (history_rest h) d)" for d
    by (simp_all add: msgs_keyed_def pending_keys_def empty_ok_def history_rest_def)
  show ?thesis
    using fold_history_keyed [OF s2(1), of "he_messages h"] s2(2)
    by (simp add: append_history_def Let_def s2_def [symmetric] rest)
qed

text \<open>The inputs that keep a message: no update replaces a key, and no deletion names it.\<close>

fun keeps :: "js_string \<Rightarrow> buffer_event \<Rightarrow> bool" where
  "keeps k (MessagesUpdate us) = (\<forall>p \<in> set us. \<not> has_own (snd p) ''key'')"
| "keeps k (MessagesDelete keys) = (case keys of None \<Rightarrow> True | Some ks \<Rightarrow> k \<notin> stringifyMessageKey ` set ks)"
| "keeps k e = True"

fun no_rekey :: "buffer_event \<Rightarrow> bool" where
  "no_rekey (MessagesUpdate us) = (\<forall>p \<in> set us. \<not> has_own (snd p) ''key'')"
| "no_rekey e = True"

definition data_ok :: "buffered \<Rightarrow> bool" where
  "data_ok d \<longleftrightarrow> msgs_keyed d \<and> empty_ok d"

lemma empty_ok_step:
  "empty_ok d \<Longrightarrow> empty_ok (message_upsert t m d)" "empty_ok d \<Longrightarrow> empty_ok (message_update p d)"
  "empty_ok d \<Longrightarrow> empty_ok (message_delete key d)" "empty_ok d \<Longrightarrow> empty_ok (message_reaction p d)"
  "empty_ok d \<Longrightarrow> empty_ok (message_receipt p d)"
proof -
  show "empty_ok d \<Longrightarrow> empty_ok (message_upsert t m d)"
    by (cases "hs_messages (historySets d)") (auto simp: empty_ok_def message_upsert_def Let_def)
  show "empty_ok d \<Longrightarrow> empty_ok (message_update p d)"
  proof -
    assume e: "empty_ok d"
    show ?thesis
    proof (cases "omap_get (hs_messages (historySets d)) (stringifyMessageKey (fst p))")
      case None
      then show ?thesis using e
        by (simp add: message_update_def Let_def mark_read_keyed split: option.split) (simp add: empty_ok_def)
    next
      case (Some m)
      then have "hs_messages (historySets d) \<noteq> []" by auto
      then show ?thesis using e Some by (simp add: message_update_def Let_def mark_read_keyed) (simp add: empty_ok_def)
    qed
  qed
  show "empty_ok d \<Longrightarrow> empty_ok (message_delete key d)" by (simp add: empty_ok_def message_delete_def Let_def)
  show "empty_ok d \<Longrightarrow> empty_ok (message_reaction p d)" by (simp add: empty_ok_def message_reaction_def Let_def split: option.split)
  show "empty_ok d \<Longrightarrow> empty_ok (message_receipt p d)" by (simp add: empty_ok_def message_receipt_def Let_def split: option.split)
qed

lemma fold_data_ok:
  assumes "data_ok d" and "\<And>x d. x \<in> set xs \<Longrightarrow> data_ok d \<Longrightarrow> data_ok (f x d)"
    and "\<And>x d. x \<in> set xs \<Longrightarrow> data_ok d \<Longrightarrow> k \<in> pending_keys d \<Longrightarrow> k \<in> pending_keys (f x d)"
  shows "data_ok (fold f xs d) \<and> (k \<in> pending_keys d \<longrightarrow> k \<in> pending_keys (fold f xs d))"
  using assms by (induction xs arbitrary: d) auto

lemma fold_delete_ok:
  "data_ok d \<Longrightarrow> data_ok (fold message_delete ks d) \<and>
    (k \<in> pending_keys d \<and> k \<notin> stringifyMessageKey ` set ks \<longrightarrow> k \<in> pending_keys (fold message_delete ks d))"
proof (induction ks arbitrary: d)
  case (Cons key ks)
  have "data_ok (message_delete key d)" using Cons.prems delete_keyed empty_ok_step(3) by (auto simp: data_ok_def)
  from Cons.IH [OF this] show ?case using delete_keyed [of d key] Cons.prems by (auto simp: data_ok_def)
qed simp

lemma append_data_ok:
  assumes "data_ok (fst s)" and "no_rekey e"
  shows "data_ok (fst (append decide e s))"
    and "keeps k e \<Longrightarrow> k \<in> pending_keys (fst s) \<Longrightarrow> k \<in> pending_keys (fst (append decide e s))"
proof -
  have "data_ok (fst (append decide e s)) \<and>
    (keeps k e \<and> k \<in> pending_keys (fst s) \<longrightarrow> k \<in> pending_keys (fst (append decide e s)))"
  proof (cases "message_event e")
    case False
    from messages_of_cong [OF append_other_messages [OF False, of decide s]] show ?thesis
      using assms(1) by (simp add: data_ok_def)
  next
    case True
    show ?thesis
    proof (cases e)
      case (HistorySet h)
      then show ?thesis using history_keyed [of s decide h] assms(1) by (auto simp: data_ok_def)
    next
      case (MessagesUpsert ms t)
      have "data_ok (fold (message_upsert t) ms (fst s)) \<and>
          (k \<in> pending_keys (fst s) \<longrightarrow> k \<in> pending_keys (fold (message_upsert t) ms (fst s)))"
        using assms(1) upsert_keyed empty_ok_step(1) by (intro fold_data_ok) (auto simp: data_ok_def)
      then show ?thesis using MessagesUpsert by simp
    next
      case (MessagesUpdate us)
      have "data_ok (fold message_update us (fst s)) \<and>
          (k \<in> pending_keys (fst s) \<longrightarrow> k \<in> pending_keys (fold message_update us (fst s)))"
        using assms update_keyed empty_ok_step(2) by (intro fold_data_ok) (auto simp: data_ok_def MessagesUpdate)
      then show ?thesis using MessagesUpdate by simp
    next
      case (MessagesDelete ks)
      then show ?thesis using fold_delete_ok [OF assms(1), of "case ks of None \<Rightarrow> [] | Some x \<Rightarrow> x" k] assms(1)
        by (cases ks) auto
    next
      case (MessagesReaction rs)
      have "data_ok (fold message_reaction rs (fst s)) \<and>
          (k \<in> pending_keys (fst s) \<longrightarrow> k \<in> pending_keys (fold message_reaction rs (fst s)))"
        using assms(1) reaction_keyed empty_ok_step(4) by (intro fold_data_ok) (auto simp: data_ok_def)
      then show ?thesis using MessagesReaction by simp
    next
      case (ReceiptUpdate rs)
      have "data_ok (fold message_receipt rs (fst s)) \<and>
          (k \<in> pending_keys (fst s) \<longrightarrow> k \<in> pending_keys (fold message_receipt rs (fst s)))"
        using assms(1) receipt_keyed empty_ok_step(5) by (intro fold_data_ok) (auto simp: data_ok_def)
      then show ?thesis using ReceiptUpdate by simp
    qed (use True in simp_all)
  qed
  then show "data_ok (fst (append decide e s))"
    and "keeps k e \<Longrightarrow> k \<in> pending_keys (fst s) \<Longrightarrow> k \<in> pending_keys (fst (append decide e s))" by blast+
qed

lemma fold_upsert_pending:
  "data_ok d \<Longrightarrow> pending_keys (fold (message_upsert t) ms d) = keyof ` set ms \<union> pending_keys d"
proof (induction ms arbitrary: d)
  case (Cons m ms)
  have "data_ok (message_upsert t m d)" using Cons.prems upsert_keyed empty_ok_step(1) by (auto simp: data_ok_def)
  from Cons.IH [OF this] show ?case using upsert_keyed [of d t m] Cons.prems by (auto simp: data_ok_def)
qed simp

definition buf_inv :: "evbuf \<Rightarrow> bool" where
  "buf_inv s \<longleftrightarrow> data_ok (data s) \<and> (\<not> buffering s \<longrightarrow> pending_keys (data s) = {})"

definition accounted :: "evbuf \<Rightarrow> js_string set" where
  "accounted s = released_keys s \<union> pending_keys (data s)"

lemma released_keys_release [simp]: "released_keys (release m s) = released_keys s \<union> map_keys m"
  by (auto simp: released_keys_def release_def)

lemma release_simps [simp]: "data (release m s) = data s" "buffering (release m s) = buffering s"
  by (simp_all add: release_def)

lemma released_keys_cong: "released s = released s' \<Longrightarrow> released_keys s = released_keys s'"
  by (simp add: released_keys_def)

lemma data_ok_fresh:
  "messages_of d = ([], [], [], True) \<Longrightarrow> data_ok d \<and> pending_keys d = {}"
  by (simp add: data_ok_def msgs_keyed_def empty_ok_def pending_keys_def messages_of_def)

lemma map_keys_append: "map_keys (a @ b) = map_keys a \<union> map_keys b"
  by (auto simp: map_keys_def)

lemma map_keys_when: "map_keys (when_some n p xs) = (if xs = [] then {} else set (payload_keys (p xs)))"
  by (simp add: when_some_def map_keys_def)

lemma keyed_image:
  "(\<And>k v. (k, v) \<in> set m \<Longrightarrow> f v = k) \<Longrightarrow> f ` snd ` set m = fst ` set m"
  by (force simp: image_iff)

lemma consolidated_keys: "data_ok d \<Longrightarrow> map_keys (consolidateEvents d) = pending_keys d"
proof -
  assume ok: "data_ok d"
  have u: "keyof ` up_message ` snd ` set (messageUpserts d) = fst ` set (messageUpserts d)"
    using keyed_image [of "messageUpserts d" "\<lambda>u. keyof (up_message u)"] ok
    by (simp add: data_ok_def msgs_keyed_def image_image)
  have h: "keyof ` snd ` set (hs_messages (historySets d)) = fst ` set (hs_messages (historySets d))"
    using keyed_image [of "hs_messages (historySets d)" keyof] ok by (simp add: data_ok_def msgs_keyed_def)
  have e: "hs_empty (historySets d) \<Longrightarrow> hs_messages (historySets d) = []" using ok by (simp add: data_ok_def empty_ok_def)
  have hist: "map_keys (if hs_empty (historySets d) then [] else
      [(''messaging-history.set'', PHistory cs (map snd (hs_messages (historySets d))) ct hs)]) = fst ` set (hs_messages (historySets d))" for cs ct hs
    using e h by (auto simp: map_keys_def)
  have ups: "map_keys (when_some ''messages.upsert'' (\<lambda>us. PUpserts (map up_message us) (up_type (hd us))) (map snd (messageUpserts d)))
      = fst ` set (messageUpserts d)"
    using u by (simp add: map_keys_when image_image)
  show ?thesis
    unfolding consolidateEvents_def Let_def map_keys_append hist ups
    by (simp add: map_keys_when pending_keys_def Un_commute)
qed

lemma flush_step:
  assumes "buf_inv s"
  shows "buf_inv (snd (flush s))" and "released_keys (snd (flush s)) = accounted s"
    and "pending_keys (data (snd (flush s))) = {}"
proof -
  have fresh: "data_ok (fst (split_conditional (data s))) \<and> pending_keys (fst (split_conditional (data s))) = {}"
    by (rule data_ok_fresh [OF split_conditional_messages(1)])
  have same: "data_ok (snd (split_conditional (data s)))" "pending_keys (snd (split_conditional (data s))) = pending_keys (data s)"
    using messages_of_cong [OF split_conditional_messages(2), of "data s"] assms by (auto simp: data_ok_def buf_inv_def)
  show "pending_keys (data (snd (flush s))) = {}" using fresh assms by (simp add: flush_data buf_inv_def)
  show "buf_inv (snd (flush s))" using fresh assms by (auto simp: flush_data buf_inv_def)
  show "released_keys (snd (flush s)) = accounted s"
  proof (cases "buffering s")
    case True
    have "map_keys (if consolidateEvents d \<noteq> [] then consolidateEvents d else []) = map_keys (consolidateEvents d)" for d
      by (auto simp: map_keys_def)
    then show ?thesis using True consolidated_keys [OF same(1)] same(2)
      by (auto simp: flush_data released_keys_def accounted_def map_keys_def)
  next
    case False
    then show ?thesis using assms by (simp add: flush_data released_keys_def accounted_def buf_inv_def)
  qed
qed

lemma release_other_step:
  assumes "data_ok (data s)"
  shows "data_ok (data (release_other_type t s))"
    and "accounted (release_other_type t s) = accounted s"
    and "pending_keys (data (release_other_type t s)) \<subseteq> pending_keys (data s)"
    and "buffering (release_other_type t s) = buffering s"
    and "historyCache (release_other_type t s) = historyCache s"
proof -
  have u: "keyof ` up_message ` snd ` set (messageUpserts (data s)) = fst ` set (messageUpserts (data s))"
    using keyed_image [of "messageUpserts (data s)" "\<lambda>u. keyof (up_message u)"] assms
    by (simp add: data_ok_def msgs_keyed_def image_image)
  show "data_ok (data (release_other_type t s))"
    using assms by (auto simp: release_other_type_def Let_def data_ok_def msgs_keyed_def empty_ok_def)
  show "pending_keys (data (release_other_type t s)) \<subseteq> pending_keys (data s)"
    by (auto simp: release_other_type_def Let_def pending_keys_def)
  show "buffering (release_other_type t s) = buffering s" "historyCache (release_other_type t s) = historyCache s"
    by (simp_all add: release_other_type_def Let_def release_def)
  have "released_keys ((release m s)\<lparr>data := x\<rparr>) = released_keys s \<union> map_keys m" for m x
    using released_keys_release [of m s] released_keys_cong [of "(release m s)\<lparr>data := x\<rparr>" "release m s"] by simp
  moreover have "map_keys [(n, PUpserts (map up_message (map snd (messageUpserts (data s)))) y)] = fst ` set (messageUpserts (data s))" for n y
    using u by (simp add: map_keys_def image_image)
  ultimately show "accounted (release_other_type t s) = accounted s"
    by (auto simp: release_other_type_def Let_def accounted_def pending_keys_def simp del: map_map)
qed

lemma pass_step:
  assumes "buf_inv s" and "no_rekey e"
  shows "buf_inv (append_or_pass decide e s)"
    and "keeps k e \<Longrightarrow> k \<in> accounted s \<Longrightarrow> k \<in> accounted (append_or_pass decide e s)"
    and "e = MessagesUpsert ms t \<Longrightarrow> keyof ` set ms \<subseteq> accounted (append_or_pass decide e s)"
proof -
  have "buf_inv (append_or_pass decide e s) \<and>
    (keeps k e \<and> k \<in> accounted s \<longrightarrow> k \<in> accounted (append_or_pass decide e s)) \<and>
    (e = MessagesUpsert ms t \<longrightarrow> keyof ` set ms \<subseteq> accounted (append_or_pass decide e s))"
  proof (cases "buffering s \<and> bufferable e")
    case True
    obtain d c where a: "append decide e (data s, historyCache s) = (d, c)" by fastforce
    define r where "r = append_or_pass decide e s"
    have r: "data r = d" "released r = released s" "buffering r"
      using True a by (auto simp: r_def append_or_pass_def Let_def split: option.split)
    have ok: "data_ok d" using append_data_ok(1) [of "(data s, historyCache s)" e decide] assms a by (simp add: buf_inv_def)
    have keep: "keeps k e \<Longrightarrow> k \<in> pending_keys (data s) \<Longrightarrow> k \<in> pending_keys d"
      using append_data_ok(2) [of "(data s, historyCache s)" e k decide] assms a by (simp add: buf_inv_def)
    have new: "e = MessagesUpsert ms t \<Longrightarrow> keyof ` set ms \<subseteq> pending_keys d"
      using fold_upsert_pending [of "data s" t ms] assms(1) a by (auto simp: buf_inv_def)
    show ?thesis unfolding r_def [symmetric]
      using ok keep new r released_keys_cong [OF r(2)] by (auto simp: buf_inv_def accounted_def)
  next
    case False
    have "map_keys [event_entry (MessagesUpsert ms t)] = keyof ` set ms" by (simp add: map_keys_def)
    then show ?thesis using False assms(1)
      by (simp only: append_or_pass_def if_False) (auto simp: buf_inv_def accounted_def)
  qed
  then show "buf_inv (append_or_pass decide e s)"
    and "keeps k e \<Longrightarrow> k \<in> accounted s \<Longrightarrow> k \<in> accounted (append_or_pass decide e s)"
    and "e = MessagesUpsert ms t \<Longrightarrow> keyof ` set ms \<subseteq> accounted (append_or_pass decide e s)" by blast+
qed

lemma emit_step:
  assumes "buf_inv s" and "no_rekey e"
  shows "buf_inv (emit decide e s)"
    and "keeps k e \<Longrightarrow> k \<in> accounted s \<Longrightarrow> k \<in> accounted (emit decide e s)"
    and "e = MessagesUpsert ms t \<Longrightarrow> keyof ` set ms \<subseteq> accounted (emit decide e s)"
proof -
  define s1 where "s1 = (case upsert_type e of None \<Rightarrow> s | Some type \<Rightarrow>
      if hasPendingUpserts s \<and> pendingUpsertType s \<noteq> Some type
      then (release_other_type type s)\<lparr>hasPendingUpserts := False\<rparr> else s)"
  have ok: "data_ok (data s)" using assms(1) by (simp add: buf_inv_def)
  have "released_keys (x\<lparr>hasPendingUpserts := b\<rparr>) = released_keys x" for x b by (rule released_keys_cong) simp
  then have acc: "accounted (x\<lparr>hasPendingUpserts := b\<rparr>) = accounted x" for x b by (simp add: accounted_def)
  have s1: "buf_inv s1" "accounted s1 = accounted s"
    using assms(1) release_other_step [OF ok] acc
    by (auto simp: s1_def buf_inv_def split: option.split)
  have e: "emit decide e s = append_or_pass decide e s1" by (simp add: emit_def s1_def)
  show "buf_inv (emit decide e s)" unfolding e by (rule pass_step(1) [OF s1(1) assms(2)])
  show "keeps k e \<Longrightarrow> k \<in> accounted s \<Longrightarrow> k \<in> accounted (emit decide e s)"
    unfolding e by (rule pass_step(2) [OF s1(1) assms(2)]) (simp_all add: s1(2))
  show "e = MessagesUpsert ms t \<Longrightarrow> keyof ` set ms \<subseteq> accounted (emit decide e s)"
    unfolding e by (rule pass_step(3) [OF s1(1) assms(2)])
qed

fun input_ok :: "buf_input \<Rightarrow> bool" where
  "input_ok (Emit e) = no_rekey e"
| "input_ok i = True"

fun input_keeps :: "js_string \<Rightarrow> buf_input \<Rightarrow> bool" where
  "input_keeps k (Emit e) = keeps k e"
| "input_keeps k Destroy = False"
| "input_keeps k i = True"

lemma keeps_no_rekey: "keeps k e \<Longrightarrow> no_rekey e"
  by (cases e) simp_all

lemma input_keeps_ok: "input_keeps k i \<Longrightarrow> input_ok i"
  by (cases i) (simp_all add: keeps_no_rekey)

lemma buf_step:
  assumes "buf_inv s" and "input_ok i"
  shows "buf_inv (buf_react decide i s)"
    and "input_keeps k i \<Longrightarrow> k \<in> accounted s \<Longrightarrow> k \<in> accounted (buf_react decide i s)"
proof -
  have work: "data (buffer s) = data s" "released (buffer s) = released s" "buffering (buffer s)"
    "data (end_work s) = data s" "released (end_work s) = released s" "buffering (end_work s) = buffering s"
    by (simp_all add: buffer_def end_work_def set_timer_def Let_def)
  define f where "f h = s\<lparr>live_timers := filter (\<lambda>t. fst t \<noteq> h) (live_timers s)\<rparr>" for h
  have f: "buf_inv (f h)" "accounted (f h) = accounted s" for h
    using assms(1) released_keys_cong [of "f h" s] by (simp_all add: f_def buf_inv_def accounted_def)
  have fire: "fire h s = s \<or> fire h s = snd (flush (f h))" for h
    by (simp add: fire_def f_def split: option.split)
  have acc_flush: "accounted (snd (flush x)) = accounted x" if "buf_inv x" for x
    using flush_step [OF that] by (simp add: accounted_def)
  have destroyed: "buf_inv (destroy s)"
    using data_ok_fresh [of makeBufferData] by (simp add: destroy_def buf_inv_def messages_of_def makeBufferData_def)
  show "buf_inv (buf_react decide i s)"
  proof (cases i)
    case (Emit e)
    then show ?thesis using emit_step(1) [OF assms(1)] assms(2) by simp
  next
    case (Fire h)
    then show ?thesis using fire [of h] flush_step(1) [OF f(1)] assms(1) by auto
  next
    case FlushNow
    then show ?thesis using flush_step(1) [OF assms(1)] by simp
  next
    case Destroy
    then show ?thesis using destroyed by simp
  next
    case StartWork
    then show ?thesis using work assms(1) by (simp add: buf_inv_def)
  next
    case EndWork
    then show ?thesis using work assms(1) by (simp add: buf_inv_def)
  qed
  show "k \<in> accounted (buf_react decide i s)" if "input_keeps k i" "k \<in> accounted s"
  proof (cases i)
    case (Emit e)
    then show ?thesis using emit_step(2) [OF assms(1)] assms(2) that by simp
  next
    case (Fire h)
    then show ?thesis using fire [of h] acc_flush [OF f(1)] f(2) that by auto
  next
    case FlushNow
    then show ?thesis using acc_flush [OF assms(1)] that by simp
  next
    case Destroy
    then show ?thesis using that by simp
  next
    case StartWork
    then show ?thesis using that work released_keys_cong [OF work(2)] by (simp add: accounted_def)
  next
    case EndWork
    then show ?thesis using that work released_keys_cong [OF work(5)] by (simp add: accounted_def)
  qed
qed

lemma buf_run_inv: "buf_inv s \<Longrightarrow> list_all input_ok is \<Longrightarrow> buf_inv (fold (buf_react decide) is s)"
  by (induction "is" arbitrary: s) (auto simp: buf_step(1))

lemma buf_run_keeps:
  "buf_inv s \<Longrightarrow> list_all (input_keeps k) is \<Longrightarrow> k \<in> accounted s \<Longrightarrow>
    buf_inv (fold (buf_react decide) is s) \<and> k \<in> accounted (fold (buf_react decide) is s)"
proof (induction "is" arbitrary: s)
  case (Cons i "is")
  then show ?case using buf_step [OF Cons.prems(1) input_keeps_ok, where decide = decide and k1 = k and i = i] by auto
qed auto

lemma buf_inv_start: "buf_inv makeEventBuffer"
  using data_ok_fresh [of makeBufferData]
  by (simp add: buf_inv_def makeEventBuffer_def messages_of_def makeBufferData_def)

lemma upserted_message_is_released_parts:
  assumes "list_all input_ok before" and "m \<in> set ms" and "list_all (input_keeps (keyof m)) after"
  shows "keyof m \<in> accounted (fold (buf_react decide) (before @ Emit (MessagesUpsert ms t) # after) makeEventBuffer)"
    and "keyof m \<in> released_keys (fold (buf_react decide) (before @ Emit (MessagesUpsert ms t) # after @ [FlushNow]) makeEventBuffer)"
    and "pending_keys (data (fold (buf_react decide) (before @ Emit (MessagesUpsert ms t) # after @ [FlushNow]) makeEventBuffer)) = {}"
proof -
  define s where "s = fold (buf_react decide) before makeEventBuffer"
  have s: "buf_inv s" unfolding s_def by (rule buf_run_inv [OF buf_inv_start assms(1)])
  define s1 where "s1 = emit decide (MessagesUpsert ms t) s"
  have s1: "buf_inv s1" "keyof m \<in> accounted s1"
    unfolding s1_def
    using emit_step(1) [OF s, of "MessagesUpsert ms t" decide] emit_step(3) [OF s _ refl, of ms t decide] assms(2) by auto
  from buf_run_keeps [OF s1(1) assms(3) s1(2), of decide]
  have s2: "buf_inv (fold (buf_react decide) after s1)" "keyof m \<in> accounted (fold (buf_react decide) after s1)" by auto
  have run: "fold (buf_react decide) (before @ Emit (MessagesUpsert ms t) # after) makeEventBuffer = fold (buf_react decide) after s1"
    "fold (buf_react decide) (before @ Emit (MessagesUpsert ms t) # after @ [FlushNow]) makeEventBuffer =
       snd (flush (fold (buf_react decide) after s1))"
    by (simp_all add: s_def s1_def)
  show "keyof m \<in> accounted (fold (buf_react decide) (before @ Emit (MessagesUpsert ms t) # after) makeEventBuffer)"
    using s2(2) by (simp only: run)
  show "keyof m \<in> released_keys (fold (buf_react decide) (before @ Emit (MessagesUpsert ms t) # after @ [FlushNow]) makeEventBuffer)"
    "pending_keys (data (fold (buf_react decide) (before @ Emit (MessagesUpsert ms t) # after @ [FlushNow]) makeEventBuffer)) = {}"
    using s2(2) flush_step [OF s2(1)] by (simp_all only: run)
qed


definition message_example :: obj where
  "message_example = [(''key'', VObj [(''remoteJid'', VStr ''1@lid''), (''id'', VStr ''A'')])]"


subsection \<open>Timers\<close>

definition timers_inv :: "evbuf \<Rightarrow> bool" where
  "timers_inv s \<longleftrightarrow>
     (\<forall>h \<in> fst ` set (live_timers s). h < next_timer s) \<and>
     (buffering s \<longrightarrow> (\<exists>h. bufferTimeout s = Some h \<and> map_of (live_timers s) h = Some AutoFlush))"

lemma map_of_fresh: "\<forall>h \<in> fst ` set ts. h < (n :: nat) \<Longrightarrow> map_of (ts @ [(n, k)]) n = Some k"
  by (induction ts) auto

lemma map_of_old: "map_of ts h = Some k \<Longrightarrow> map_of (ts @ [x]) h = Some k"
  by (simp add: map_add_def)

lemma clear_timer_live: "set (live_timers (clear_timer h s)) \<subseteq> set (live_timers s)"
  by (auto simp: clear_timer_def split: option.split)

lemma emit_timers:
  "live_timers (emit decide e s) = live_timers s" "next_timer (emit decide e s) = next_timer s"
  "buffering (emit decide e s) = buffering s" "bufferTimeout (emit decide e s) = bufferTimeout s"
  "flushPendingTimeout (emit decide e s) = flushPendingTimeout s" "bufferCount (emit decide e s) = bufferCount s"
  by (auto simp: emit_def append_or_pass_def release_other_type_def release_def Let_def case_prod_beta split: option.split)

lemma flush_timers:
  "next_timer (snd (flush s)) = next_timer s"
  "set (live_timers (snd (flush s))) \<subseteq> set (live_timers s)"
proof -
  show "next_timer (snd (flush s)) = next_timer s"
    by (simp add: flush_def Let_def release_def case_prod_beta)
  have "live_timers (snd (flush s)) = (if buffering s then
      live_timers (clear_timer (flushPendingTimeout s) (clear_timer (bufferTimeout s) (s\<lparr>buffering := False, bufferCount := 0\<rparr>)))
      else live_timers s)"
    by (simp add: flush_def Let_def release_def case_prod_beta)
  then show "set (live_timers (snd (flush s))) \<subseteq> set (live_timers s)"
    using clear_timer_live [of "flushPendingTimeout s" "clear_timer (bufferTimeout s) (s\<lparr>buffering := False, bufferCount := 0\<rparr>)"]
      clear_timer_live [of "bufferTimeout s" "s\<lparr>buffering := False, bufferCount := 0\<rparr>"] by auto
qed

lemma timers_inv_flush: "timers_inv s \<Longrightarrow> timers_inv (snd (flush s))"
  using flush_timers [of s] by (auto simp: timers_inv_def flush_data)

lemma timers_inv_buffer: "timers_inv s \<Longrightarrow> timers_inv (buffer s)"
proof (cases "buffering s")
  case False
  assume inv: "timers_inv s"
  define s2 where "s2 = clear_timer (bufferTimeout s) (s\<lparr>buffering := True, bufferCount := 0\<rparr>)"
  have s2: "\<forall>h \<in> fst ` set (live_timers s2). h < next_timer s2"
    using inv clear_timer_live [of "bufferTimeout s" "s\<lparr>buffering := True, bufferCount := 0\<rparr>"]
    by (auto simp: timers_inv_def s2_def)
  have "live_timers (buffer s) = live_timers s2 @ [(next_timer s2, AutoFlush)]"
    "next_timer (buffer s) = Suc (next_timer s2)" "bufferTimeout (buffer s) = Some (next_timer s2)"
    using False by (simp_all add: buffer_def s2_def set_timer_def Let_def)
  then show ?thesis using s2 map_of_fresh [OF s2, of AutoFlush] by (fastforce simp: timers_inv_def)
qed (simp add: timers_inv_def buffer_def Let_def)

lemma timers_inv_end: "timers_inv s \<Longrightarrow> timers_inv (end_work s)"
  by (auto simp: timers_inv_def end_work_def set_timer_def Let_def less_Suc_eq map_of_old)

lemma timers_inv_react: "timers_inv s \<Longrightarrow> timers_inv (buf_react decide i s)"
proof -
  assume inv: "timers_inv s"
  have "timers_inv (fire h s)" for h
  proof (cases "map_of (live_timers s) h")
    case (Some k)
    define s1 where "s1 = s\<lparr>live_timers := filter (\<lambda>t. fst t \<noteq> h) (live_timers s)\<rparr>"
    have "\<forall>h \<in> fst ` set (live_timers s1). h < next_timer s1" using inv by (auto simp: timers_inv_def s1_def)
    then have "timers_inv (snd (flush s1))" using flush_timers [of s1] by (auto simp: timers_inv_def flush_data)
    then show ?thesis using Some by (simp add: fire_def s1_def)
  qed (simp add: fire_def inv)
  moreover have "timers_inv (destroy s)"
    using inv clear_timer_live [of "flushPendingTimeout s" "clear_timer (bufferTimeout s) s"] clear_timer_live [of "bufferTimeout s" s]
    by (auto simp: timers_inv_def destroy_def)
  moreover have "timers_inv (emit decide e s)" for e
    using inv by (simp add: timers_inv_def emit_timers)
  ultimately show ?thesis using inv
    by (cases i) (simp_all add: timers_inv_flush timers_inv_buffer timers_inv_end)
qed

lemma timers_inv_start: "timers_inv makeEventBuffer"
  by (simp add: timers_inv_def makeEventBuffer_def)

interpretation buf_timers: reactive makeEventBuffer "buf_react decide" timers_inv for decide
  by unfold_locales (auto simp: timers_inv_start intro: timers_inv_react)

lemma fire_releases:
  "map_of (live_timers s) h = Some k \<Longrightarrow> buffering s \<Longrightarrow>
    \<not> buffering (fire h s) \<and> pending_keys (data (fire h s)) = {}"
  using split_conditional_messages(1) [of "data s"]
  by (simp add: fire_def flush_data messages_of_def pending_keys_def)

lemma buffering_has_live_timer_parts:
  assumes "s = fold (buf_react decide) is makeEventBuffer"
  shows "buffering s \<Longrightarrow> \<exists>h. bufferTimeout s = Some h \<and> map_of (live_timers s) h = Some AutoFlush \<and>
      \<not> buffering (fire h s) \<and> pending_keys (data (fire h s)) = {}"
    and "buffering s \<Longrightarrow> bufferCount s \<le> 1 \<Longrightarrow> flushPendingTimeout s = None \<Longrightarrow>
      \<exists>h. map_of (live_timers (end_work s)) h = Some PendingFlush \<and>
        \<not> buffering (fire h (end_work s)) \<and> pending_keys (data (fire h (end_work s))) = {}"
proof -
  have inv: "timers_inv s" unfolding assms by (rule buf_timers.run_inv)
  show "\<exists>h. bufferTimeout s = Some h \<and> map_of (live_timers s) h = Some AutoFlush \<and>
      \<not> buffering (fire h s) \<and> pending_keys (data (fire h s)) = {}" if "buffering s"
    using inv that fire_releases by (fastforce simp: timers_inv_def)
  show "\<exists>h. map_of (live_timers (end_work s)) h = Some PendingFlush \<and>
        \<not> buffering (fire h (end_work s)) \<and> pending_keys (data (fire h (end_work s))) = {}"
    if "buffering s" "bufferCount s \<le> 1" "flushPendingTimeout s = None"
  proof -
    have live: "live_timers (end_work s) = live_timers s @ [(next_timer s, PendingFlush)]"
      using that by (simp add: end_work_def set_timer_def Let_def)
    have "map_of (live_timers (end_work s)) (next_timer s) = Some PendingFlush"
      unfolding live using inv by (intro map_of_fresh) (simp add: timers_inv_def)
    moreover have "buffering (end_work s)" using that by (simp add: end_work_def set_timer_def Let_def)
    ultimately show ?thesis using fire_releases by blast
  qed
qed



text \<open>
  The schedule of a release is forgotten only by a flush that finds the buffer buffering. If work outlives
  a manual or automatic flush, the release it schedules fires on an idle buffer and its handle is
  remembered for good: the next piece of work schedules nothing, and only the long timer is left.
\<close>

lemma stale_handle_blocks_release:
  "flushPendingTimeout (fold (buf_react decide) [StartWork, FlushNow, EndWork, Fire 1] makeEventBuffer) = Some 1 \<and>
   live_timers (fold (buf_react decide) [StartWork, FlushNow, EndWork, Fire 1] makeEventBuffer) = [] \<and>
   live_timers (fold (buf_react decide) [StartWork, FlushNow, EndWork, Fire 1, StartWork, EndWork] makeEventBuffer) = [(2, AutoFlush)]"
  by (simp add: makeEventBuffer_def buffer_def end_work_def fire_def flush_def set_timer_def clear_timer_def
      Let_def case_prod_beta makeBufferData_def split_conditional_def consolidateEvents_def when_some_def keyed_def)

subsection \<open>Dispatch\<close>

text \<open>A \<open>connection.update\<close> reaches each of its listeners, whichever of them throw.\<close>

lemma connection_update_reaches_all:
  "fst (dispatch ls (''connection.update'' # events)) =
    map (\<lambda>(l, throws). (l, ''connection.update'')) (ls ''connection.update'') @ fst (dispatch ls events)"
  by (simp add: case_prod_beta)

end
