(* ===== verification/GroupNotif.thy ===== *)
theory GroupNotif
  imports Primitives Jid
begin

text \<open>
  The Baileys-facing translation of group notifications: \<open>src/src/Compatibility/group-notifications.ts\<close>,
  the stub parameters of \<open>group-stub-params.ts\<close> and the metadata of \<open>group-metadata.ts\<close>. The protocol
  messages the stubs are created as take the repeated fields of their schema as the parameter
  \<open>collections\<close>; the counter of fallback ids is threaded through.
\<close>

record participant =
  jid :: js_string
  phoneNumber :: "js_string option"
  lid :: "js_string option"
  username :: "js_string option"
  role :: "js_string option"

datatype group_action =
    Add "participant list"
  | Remove "participant list"
  | Promote "participant list"
  | Demote "participant list"
  | Modify "participant list"
  | Subject js_string
  | Description "js_string option"
  | Locked
  | Unlocked
  | Announce
  | NotAnnounce
  | Ephemeral int
  | MembershipApprovalMode bool
  | MemberAddMode js_string
  | Invite js_string
  | MembershipApprovalRequest "js_string option"
  | CreatedMembershipRequests "js_string option" "participant list"
  | RevokedMembershipRequests "participant list"
  | OtherAction js_string

record canonical_group_update =
  groupJid :: js_string
  notificationId :: "js_string option"
  actionIndex :: nat
  author :: "js_string option"
  authorPn :: "js_string option"
  authorUsername :: "js_string option"
  timestamp :: int
  isLidAddressingMode :: bool
  action :: group_action

subsection \<open>Participants\<close>

definition admin_val :: "js_string option \<Rightarrow> jv" where
  "admin_val r = (if r = Some ''admin'' \<or> r = Some ''superadmin'' then opt_val r else VNull)"

definition canonicalGroupParticipantToBaileys :: "participant \<Rightarrow> obj" where
  "canonicalGroupParticipantToBaileys p =
     [(''id'', VStr (jid p)), (''admin'', admin_val (role p))] @
     (if isLidUser (Some (jid p)) \<and> isPnUser (phoneNumber p) then [(''phoneNumber'', opt_val (phoneNumber p))] else []) @
     (if isPnUser (Some (jid p)) \<and> isLidUser (lid p) then [(''lid'', opt_val (lid p))] else []) @
     (if nonempty (username p) then [(''username'', opt_val (username p))] else [])"

fun isNonEmptyString :: "jv \<Rightarrow> bool" where
  "isNonEmptyString (VStr s) = (s \<noteq> [])"
| "isNonEmptyString _ = False"

definition is_admin_value :: "jv \<Rightarrow> bool" where
  "is_admin_value v \<longleftrightarrow> v = VStr ''admin'' \<or> v = VStr ''superadmin'' \<or> v = VNull"

fun json_val :: "jv \<Rightarrow> json" where
  "json_val (VStr s) = JStr s"
| "json_val _ = JNull"

text \<open>The payload both directions keep, and its JSON.\<close>

definition stub_fields :: "obj \<Rightarrow> obj" where
  "stub_fields p =
     [(''id'', oget p ''id'')] @
     (if isNonEmptyString (oget p ''phoneNumber'') then [(''phoneNumber'', oget p ''phoneNumber'')] else []) @
     (if isNonEmptyString (oget p ''lid'') then [(''lid'', oget p ''lid'')] else []) @
     (if isNonEmptyString (oget p ''username'') then [(''username'', oget p ''username'')] else []) @
     (if is_admin_value (oget p ''admin'') then [(''admin'', oget p ''admin'')] else [])"

definition encodeStubParticipant :: "obj \<Rightarrow> js_string" where
  "encodeStubParticipant p = stringify (JObj (map (\<lambda>(k, v). (k, json_val v)) (stub_fields p)))"

text \<open>A parsed JSON value as far as the decoder looks at it.\<close>

fun parsed_val :: "json \<Rightarrow> jv" where
  "parsed_val (JStr s) = VStr s"
| "parsed_val JNull = VNull"
| "parsed_val (JBool b) = VBool b"
| "parsed_val _ = VObj []"

definition parsed_obj :: "(js_string \<times> json) list \<Rightarrow> obj" where
  "parsed_obj fs = map (\<lambda>(k, v). (k, parsed_val v)) (rev fs)"

definition decodeStubParticipant :: "js_string option \<Rightarrow> obj option" where
  "decodeStubParticipant raw =
     (if \<not> nonempty raw then None
      else case json_parse (the raw) of
        Some (JObj fs) \<Rightarrow>
          (if is_string (oget (parsed_obj fs) ''id'') then Some (stub_fields (parsed_obj fs)) else None)
      | _ \<Rightarrow> None)"

subsection \<open>Join requests\<close>

definition KNOWN_REQUEST_METHODS :: "js_string list" where
  "KNOWN_REQUEST_METHODS = [''invite_link'', ''linked_group_join'', ''non_admin_add'']"

definition validateRequestMethod :: "js_string option \<Rightarrow> js_string option" where
  "validateRequestMethod raw =
     (if \<not> nonempty raw then None else if the raw \<in> set KNOWN_REQUEST_METHODS then raw else None)"

definition sameDefinedUser :: "js_string option \<Rightarrow> js_string option \<Rightarrow> bool" where
  "sameDefinedUser left right \<longleftrightarrow> left \<noteq> None \<and> right \<noteq> None \<and> areJidsSameUser left right"

definition participantMatchesAuthor :: "participant \<Rightarrow> canonical_group_update \<Rightarrow> bool" where
  "participantMatchesAuthor p n \<longleftrightarrow>
     sameDefinedUser (Some (jid p)) (author n) \<or> sameDefinedUser (Some (jid p)) (authorPn n) \<or>
     sameDefinedUser (phoneNumber p) (author n) \<or> sameDefinedUser (phoneNumber p) (authorPn n)"

record join_request =
  jr_common :: obj
  jr_participant :: js_string
  jr_participantPn :: "js_string option"
  jr_action :: js_string
  jr_method :: "js_string option"

definition buildGroupJoinRequestEvents :: "canonical_group_update \<Rightarrow> join_request list" where
  "buildGroupJoinRequestEvents n =
     (if \<not> nonempty (author n) then []
      else
        let common = [(''id'', VStr (groupJid n)), (''author'', opt_val (author n)),
              (''authorPn'', opt_val (authorPn n)), (''authorUsername'', opt_val (authorUsername n))]
        in case action n of
             MembershipApprovalRequest requestMethod \<Rightarrow>
               [\<lparr>jr_common = common, jr_participant = the (author n), jr_participantPn = authorPn n,
                 jr_action = ''created'', jr_method = validateRequestMethod requestMethod\<rparr>]
           | CreatedMembershipRequests requestMethod requests \<Rightarrow>
               map (\<lambda>r. \<lparr>jr_common = common, jr_participant = jid r, jr_participantPn = phoneNumber r,
                 jr_action = ''created'', jr_method = validateRequestMethod requestMethod\<rparr>) requests
           | RevokedMembershipRequests ps \<Rightarrow>
               map (\<lambda>p. \<lparr>jr_common = common, jr_participant = jid p, jr_participantPn = phoneNumber p,
                 jr_action = (if participantMatchesAuthor p n then ''revoked'' else ''rejected''), jr_method = None\<rparr>) ps
           | _ \<Rightarrow> [])"

subsection \<open>Domain events\<close>

text \<open>The participant actions: their stub type, their name and their participants.\<close>

fun participant_action :: "group_action \<Rightarrow> (int \<times> js_string \<times> participant list) option" where
  "participant_action (Add ps) = Some (27, ''add'', ps)"
| "participant_action (Remove ps) = Some (28, ''remove'', ps)"
| "participant_action (Promote ps) = Some (29, ''promote'', ps)"
| "participant_action (Demote ps) = Some (30, ''demote'', ps)"
| "participant_action (Modify ps) = Some (33, ''modify'', ps)"
| "participant_action _ = None"

datatype domain_event =
    ParticipantsUpdate obj
  | GroupsUpdateEvent obj

fun metadata_change :: "group_action \<Rightarrow> obj option" where
  "metadata_change (Subject s) = Some [(''subject'', VStr s)]"
| "metadata_change (Description d) = Some [(''desc'', opt_val d)]"
| "metadata_change Locked = Some [(''restrict'', VBool True)]"
| "metadata_change Unlocked = Some [(''restrict'', VBool False)]"
| "metadata_change Announce = Some [(''announce'', VBool True)]"
| "metadata_change NotAnnounce = Some [(''announce'', VBool False)]"
| "metadata_change (Invite c) = Some [(''inviteCode'', VStr c)]"
| "metadata_change (MembershipApprovalMode b) = Some [(''joinApprovalMode'', VBool b)]"
| "metadata_change (MemberAddMode m) = Some [(''memberAddMode'', VBool (m = ''all_member_add''))]"
| "metadata_change _ = None"

definition when_defined :: "js_string \<Rightarrow> js_string option \<Rightarrow> obj" where
  "when_defined k o1 = (case o1 of None \<Rightarrow> [] | Some s \<Rightarrow> [(k, VStr s)])"

definition buildGroupNotificationDomainEvent :: "canonical_group_update \<Rightarrow> domain_event option" where
  "buildGroupNotificationDomainEvent n =
     (case participant_action (action n) of
        Some (stub, name, ps) \<Rightarrow>
          Some (ParticipantsUpdate
            [(''id'', VStr (groupJid n)),
             (''author'', jv_coalesce (opt_val (author n)) (VStr [])),
             (''authorPn'', opt_val (authorPn n)),
             (''authorUsername'', opt_val (authorUsername n)),
             (''participants'', VArr (map (\<lambda>p. VObj (canonicalGroupParticipantToBaileys p)) ps)),
             (''action'', VStr name)])
      | None \<Rightarrow>
          (case metadata_change (action n) of
             None \<Rightarrow> None
           | Some change \<Rightarrow>
               Some (GroupsUpdateEvent
                 ([(''id'', VStr (groupJid n))] @ change @
                  when_defined ''author'' (author n) @ when_defined ''authorPn'' (authorPn n) @
                  when_defined ''authorUsername'' (authorUsername n)))))"

definition buildGroupNotificationChatUpdates :: "canonical_group_update \<Rightarrow> obj list" where
  "buildGroupNotificationChatUpdates n =
     (case action n of
        Subject s \<Rightarrow> [[(''id'', VStr (groupJid n)), (''name'', VStr s)]]
      | Description d \<Rightarrow> [[(''id'', VStr (groupJid n)), (''description'', opt_val d)]]
      | Ephemeral expiration \<Rightarrow>
          [[(''id'', VStr (groupJid n)), (''ephemeralSettingTimestamp'', VNum (timestamp n)),
            (''ephemeralExpiration'', jv_or (VNum expiration) VNull)]]
      | _ \<Rightarrow> [])"

subsection \<open>Stub messages\<close>

record stub_recipe =
  stubType :: "int option"
  stubParams :: "js_string list option"
  stub_message :: "obj option"
  idSuffix :: js_string

definition simple_stub :: "int \<Rightarrow> js_string list option \<Rightarrow> js_string \<Rightarrow> stub_recipe" where
  "simple_stub t ps suffix = \<lparr>stubType = Some t, stubParams = ps, stub_message = None, idSuffix = suffix\<rparr>"

fun toggle_stub :: "group_action \<Rightarrow> (int \<times> bool \<times> js_string) option" where
  "toggle_stub Locked = Some (25, True, ''restrict'')"
| "toggle_stub Unlocked = Some (25, False, ''restrict'')"
| "toggle_stub Announce = Some (26, True, ''announce'')"
| "toggle_stub NotAnnounce = Some (26, False, ''announce'')"
| "toggle_stub _ = None"

definition on_off :: "bool \<Rightarrow> js_string" where
  "on_off b = (if b then ''on'' else ''off'')"

definition participantStubRecipe :: "canonical_group_update \<Rightarrow> int \<times> js_string \<times> participant list \<Rightarrow> stub_recipe" where
  "participantStubRecipe n a =
     (case a of (stub, name, ps) \<Rightarrow>
        let t = (if name = ''remove'' \<and> length ps = 1 \<and> participantMatchesAuthor (hd ps) n then 32 else stub)
        in simple_stub t (Some (map (\<lambda>p. encodeStubParticipant (canonicalGroupParticipantToBaileys p)) ps)) name)"

definition request_json :: "join_request \<Rightarrow> js_string" where
  "request_json r =
     stringify (JObj ((''lid'', JStr (jr_participant r)) #
       (case jr_participantPn r of None \<Rightarrow> [] | Some pn \<Rightarrow> [(''pn'', JStr pn)])))"

definition joinRequestStubRecipes :: "canonical_group_update \<Rightarrow> stub_recipe list" where
  "joinRequestStubRecipes n =
     map (\<lambda>(r, index). simple_stub 172
         (Some ([request_json r, jr_action r] @ (if nonempty (jr_method r) then [the (jr_method r)] else [])))
         (''join-'' @ show_nat index))
       (zip (buildGroupJoinRequestEvents n) [0..<length (buildGroupJoinRequestEvents n)])"

definition EPHEMERAL_SETTING :: int where "EPHEMERAL_SETTING = 3"

definition stubRecipesFor :: "canonical_group_update \<Rightarrow> stub_recipe list" where
  "stubRecipesFor n =
     (case participant_action (action n) of
        Some a \<Rightarrow> [participantStubRecipe n a]
      | None \<Rightarrow>
          (case toggle_stub (action n) of
             Some (t, on, suffix) \<Rightarrow> [simple_stub t (Some [on_off on]) suffix]
           | None \<Rightarrow>
               (case action n of
                  Subject s \<Rightarrow> [simple_stub 21 (Some [s]) ''subject'']
                | Description d \<Rightarrow> [simple_stub 24 (case d of None \<Rightarrow> None | Some s \<Rightarrow> Some [s]) ''description'']
                | Invite c \<Rightarrow> [simple_stub 23 (Some [c]) ''invite'']
                | MembershipApprovalMode b \<Rightarrow> [simple_stub 145 (Some [on_off b]) ''join-approval-mode'']
                | MemberAddMode m \<Rightarrow> [simple_stub 171 (Some [m]) ''member-add-mode'']
                | Ephemeral expiration \<Rightarrow>
                    [\<lparr>stubType = None, stubParams = None,
                      stub_message = Some [(''protocolMessage'',
                        VObj [(''type'', VNum EPHEMERAL_SETTING), (''ephemeralExpiration'', VNum expiration)])],
                      idSuffix = ''ephemeral''\<rparr>]
                | MembershipApprovalRequest m \<Rightarrow> joinRequestStubRecipes n
                | CreatedMembershipRequests m rs \<Rightarrow> joinRequestStubRecipes n
                | RevokedMembershipRequests ps \<Rightarrow> joinRequestStubRecipes n
                | _ \<Rightarrow> [])))"

text \<open>\<open>toString(36)\<close> of a counter.\<close>

function show_base36 :: "nat \<Rightarrow> js_string" where
  "show_base36 n =
     (if n < 36 then [''0123456789abcdefghijklmnopqrstuvwxyz'' ! n]
      else show_base36 (n div 36) @ [''0123456789abcdefghijklmnopqrstuvwxyz'' ! (n mod 36)])"
  by pat_completeness auto
termination by (relation "measure id") auto

declare show_base36.simps [simp del]

definition stubMessageId :: "canonical_group_update \<Rightarrow> stub_recipe \<Rightarrow> nat \<Rightarrow> nat \<Rightarrow> nat \<Rightarrow> js_string \<times> nat" where
  "stubMessageId n recipe recipeIndex count fallback =
     (if nonempty (notificationId n) then
        (if actionIndex n = 0 \<and> count = 1 then (the (notificationId n), fallback)
         else (the (notificationId n) @ '':'' @ show_nat (actionIndex n) @ '':'' @ show_nat recipeIndex, fallback))
      else
        (''BAE-GP-'' @ show_int (timestamp n) @ ''-'' @
         (case stubType recipe of None \<Rightarrow> ''protocol'' | Some t \<Rightarrow> show_int t) @ ''-'' @
         idSuffix recipe @ ''-'' @ show_base36 fallback, Suc fallback))"

definition groupStubMessageKey :: "canonical_group_update \<Rightarrow> bool \<Rightarrow> js_string \<Rightarrow> jv \<Rightarrow> jv \<Rightarrow> obj" where
  "groupStubMessageKey n fromMe i p pAlt =
     [(''remoteJid'', VStr (groupJid n)), (''fromMe'', VBool fromMe), (''id'', VStr i), (''participant'', p),
      (''participantAlt'', pAlt), (''participantUsername'', opt_val (authorUsername n)),
      (''addressingMode'', VStr (if isLidAddressingMode n then ''lid'' else ''pn''))]"

text \<open>The shallow construction of a protocol message: fresh collections, then the properties that are set.\<close>

definition proto_create :: "js_string list \<Rightarrow> obj \<Rightarrow> obj" where
  "proto_create collections properties =
     foldl (\<lambda>m (k, v). if nullish v then m else omap_set k v m) (map (\<lambda>c. (c, VArr [])) collections) properties"

definition params_val :: "js_string list option \<Rightarrow> jv" where
  "params_val ps = (case ps of None \<Rightarrow> VUndef | Some xs \<Rightarrow> VArr (map VStr xs))"

definition stub_message_of :: "js_string list \<Rightarrow> canonical_group_update \<Rightarrow> stub_recipe \<Rightarrow> obj \<Rightarrow> obj" where
  "stub_message_of collections n recipe key =
     proto_create collections
       [(''key'', VObj key), (''participant'', opt_val (author n)), (''messageTimestamp'', VNum (timestamp n)),
        (''message'', case stub_message recipe of None \<Rightarrow> VUndef | Some m \<Rightarrow> VObj m),
        (''messageStubType'', case stubType recipe of None \<Rightarrow> VUndef | Some t \<Rightarrow> VNum t),
        (''messageStubParameters'', params_val (stubParams recipe))]"

fun number_stubs :: "js_string list \<Rightarrow> canonical_group_update \<Rightarrow> bool \<Rightarrow> nat \<Rightarrow> nat \<Rightarrow> stub_recipe list \<Rightarrow> nat \<Rightarrow> (js_string \<times> obj) list \<times> nat" where
  "number_stubs collections n fromMe count index [] fallback = ([], fallback)"
| "number_stubs collections n fromMe count index (recipe # rest) fallback =
     (let (i, fallback1) = stubMessageId n recipe index count fallback;
          msg = stub_message_of collections n recipe
            (groupStubMessageKey n fromMe i (opt_val (author n)) (opt_val (authorPn n)));
          (msgs, fallback2) = number_stubs collections n fromMe count (Suc index) rest fallback1
      in ((i, msg) # msgs, fallback2))"

text \<open>The messages, each with its id, and the counter afterwards.\<close>

definition buildGroupNotificationStubMessages :: "js_string list \<Rightarrow> canonical_group_update \<Rightarrow> bool \<Rightarrow> nat \<Rightarrow> (js_string \<times> obj) list \<times> nat" where
  "buildGroupNotificationStubMessages collections n fromMe fallback =
     (let recipes = stubRecipesFor n in number_stubs collections n fromMe (length recipes) 0 recipes fallback)"

definition buildGroupCreateStubMessage :: "js_string list \<Rightarrow> canonical_group_update \<Rightarrow> obj \<Rightarrow> bool \<Rightarrow> nat \<Rightarrow> obj \<times> nat" where
  "buildGroupCreateStubMessage collections n metadata fromMe fallback =
     (let recipe = simple_stub 20 (Some [str_of (oget metadata ''subject'')]) ''create'';
          (i, fallback1) = stubMessageId n recipe 0 1 fallback
      in (stub_message_of collections n recipe
            (groupStubMessageKey n fromMe i (oget metadata ''owner'') (oget metadata ''ownerPn'')), fallback1))"

subsection \<open>Round trip of the stub parameters\<close>

lemma stub_fields_get:
  "oget (stub_fields p) k =
    (if k = ''id'' then oget p k
     else if k \<in> {''phoneNumber'', ''lid'', ''username''} then (if isNonEmptyString (oget p k) then oget p k else VUndef)
     else if k = ''admin'' then (if is_admin_value (oget p k) then oget p k else VUndef) else VUndef)"
  by (auto simp: stub_fields_def oget_def split: option.splits)

lemma stub_fields_ok: "omap_ok (stub_fields p)"
  by (simp add: stub_fields_def omap_ok_def)

lemma stub_fields_cong:
  "(\<And>k. k \<in> {''id'', ''phoneNumber'', ''lid'', ''username'', ''admin''} \<Longrightarrow> oget p k = oget q k) \<Longrightarrow> stub_fields p = stub_fields q"
  by (simp add: stub_fields_def)

lemma stub_fields_idem: "stub_fields (stub_fields p) = stub_fields p"
proof -
  have "\<not> isNonEmptyString VUndef" "\<not> is_admin_value VUndef" by (simp_all add: is_admin_value_def)
  then show ?thesis
    unfolding stub_fields_def [of "stub_fields p"] by (simp add: stub_fields_get) (simp add: stub_fields_def)
qed

text \<open>The values the payload holds survive JSON.\<close>

lemma isNonEmptyString_is_string: "isNonEmptyString v \<Longrightarrow> is_string v"
  by (cases v) auto

lemma admin_value_cases: "is_admin_value v \<Longrightarrow> is_string v \<or> v = VNull"
  by (auto simp: is_admin_value_def)

lemma stub_values: "is_string (oget p ''id'') \<Longrightarrow> (k, v) \<in> set (stub_fields p) \<Longrightarrow> is_string v \<or> v = VNull"
  by (auto simp: stub_fields_def isNonEmptyString_is_string dest: admin_value_cases split: if_splits)

lemma parsed_json_val: "is_string v \<or> v = VNull \<Longrightarrow> parsed_val (json_val v) = v"
  by (cases v) auto

lemma map_of_rev_distinct: "distinct (map fst m) \<Longrightarrow> map_of (rev m) = map_of m"
  by (rule map_of_eqI) (auto simp: rev_map [symmetric])

lemma parsed_fields:
  assumes "is_string (oget p ''id'')"
  shows "parsed_obj (map (\<lambda>(k, v). (k, json_val v)) (stub_fields p)) = rev (stub_fields p)"
proof -
  have "map (\<lambda>(k, v). (k, parsed_val v)) (map (\<lambda>(k, v). (k, json_val v)) (stub_fields p)) = stub_fields p"
    using stub_values [OF assms] parsed_json_val by (auto intro!: map_idI simp: comp_def)
  then show ?thesis by (simp only: parsed_obj_def rev_map [symmetric])
qed

lemma stub_json_wf: "json_wf (JObj (map (\<lambda>(k, v). (k, json_val v)) (stub_fields p)))"
proof -
  have "json_wf (json_val v)" for v by (cases v) auto
  then show ?thesis by (auto simp: list_all_iff)
qed

lemma encode_nonempty: "nonempty (Some (encodeStubParticipant p))"
  by (simp add: nonempty_def encodeStubParticipant_def)

lemma stub_participant_roundtrip_parts:
  "is_string (oget p ''id'') \<Longrightarrow> decodeStubParticipant (Some (encodeStubParticipant p)) = Some (stub_fields p)"
  "\<exists>q. decodeStubParticipant (Some (encodeStubParticipant (canonicalGroupParticipantToBaileys c))) = Some q \<and>
     (\<forall>k. oget q k = oget (canonicalGroupParticipantToBaileys c) k)"
  "json_parse raw = None \<or> json_parse raw = Some (JStr s) \<or> json_parse raw = Some (JNum t) \<Longrightarrow>
     decodeStubParticipant (Some raw) = None"
proof -
  show rt: "decodeStubParticipant (Some (encodeStubParticipant p)) = Some (stub_fields p)"
    if "is_string (oget p ''id'')" for p
  proof -
    have get: "oget (rev (stub_fields p)) k = oget (stub_fields p) k" for k
      using stub_fields_ok [of p] by (simp add: oget_def omap_ok_def map_of_rev_distinct)
    have "stub_fields (rev (stub_fields p)) = stub_fields p"
      using stub_fields_cong [of "rev (stub_fields p)" "stub_fields p"] get stub_fields_idem [of p] by simp
    moreover have "oget (rev (stub_fields p)) ''id'' = oget p ''id''" by (simp add: get stub_fields_get)
    ultimately show ?thesis
      using that json_parse_stringify [OF stub_json_wf [of p]] encode_nonempty [of p]
      by (simp add: decodeStubParticipant_def encodeStubParticipant_def parsed_fields [OF that])
  qed
  show "\<exists>q. decodeStubParticipant (Some (encodeStubParticipant (canonicalGroupParticipantToBaileys c))) = Some q \<and>
     (\<forall>k. oget q k = oget (canonicalGroupParticipantToBaileys c) k)"
  proof -
    define b where "b = canonicalGroupParticipantToBaileys c"
    have pn: "isPnUser o1 \<or> isLidUser o1 \<Longrightarrow> isNonEmptyString (opt_val o1)" for o1
      by (auto simp: isPnUser_def isLidUser_def has_server_suffix_def ends_with_def opt_val_def split: option.splits)
    have un: "nonempty o1 \<Longrightarrow> isNonEmptyString (opt_val o1)" for o1
      by (auto simp: nonempty_def opt_val_def split: option.splits)
    have ad: "is_admin_value (admin_val r)" for r by (auto simp: admin_val_def is_admin_value_def opt_val_def)
    have "oget (stub_fields b) k = oget b k" for k
      unfolding stub_fields_get unfolding b_def canonicalGroupParticipantToBaileys_def
      using pn un ad by (auto simp: oget_def)
    moreover have "is_string (oget b ''id'')" by (simp add: b_def canonicalGroupParticipantToBaileys_def oget_def)
    ultimately show ?thesis using rt unfolding b_def by blast
  qed
  show "decodeStubParticipant (Some raw) = None"
    if "json_parse raw = None \<or> json_parse raw = Some (JStr s) \<or> json_parse raw = Some (JNum t)"
    using that by (auto simp: decodeStubParticipant_def)
qed

text \<open>
  The stub parameter of a participant decodes to the payload that was encoded: the id, the non-empty
  phone number, LID and user name, and the admin role, including an explicit null; what the
  notification translation builds for a participant is such a payload and survives unchanged, in
  whatever order its fields are. Text that is not the JSON of an object with an id decodes to nothing.
\<close>

theorem stub_participant_roundtrip:
  "(is_string (oget p ''id'') \<longrightarrow> decodeStubParticipant (Some (encodeStubParticipant p)) = Some (stub_fields p)) \<and>
   (\<exists>q. decodeStubParticipant (Some (encodeStubParticipant (canonicalGroupParticipantToBaileys c))) = Some q \<and>
     (\<forall>k. oget q k = oget (canonicalGroupParticipantToBaileys c) k)) \<and>
   ((json_parse raw = None \<or> json_parse raw = Some (JStr s) \<or> json_parse raw = Some (JNum t)) \<longrightarrow> decodeStubParticipant (Some raw) = None)"
proof -
  have p1: "is_string (oget p ''id'') \<longrightarrow> decodeStubParticipant (Some (encodeStubParticipant p)) = Some (stub_fields p)"
    by (rule impI, rule stub_participant_roundtrip_parts(1), (assumption)+)
  have p2: "\<exists>q. decodeStubParticipant (Some (encodeStubParticipant (canonicalGroupParticipantToBaileys c))) = Some q \<and>
     (\<forall>k. oget q k = oget (canonicalGroupParticipantToBaileys c) k)"
    by (rule stub_participant_roundtrip_parts(2))
  have p3: "(json_parse raw = None \<or> json_parse raw = Some (JStr s) \<or> json_parse raw = Some (JNum t)) \<longrightarrow> decodeStubParticipant (Some raw) = None"
    by (rule impI, rule stub_participant_roundtrip_parts(3), (assumption)+)
  show ?thesis by (rule conjI [OF p1 conjI [OF p2 p3]])
qed

theorem stub_participant_roundtrip_witness:
  "decodeStubParticipant (Some (encodeStubParticipant [(''id'', VStr ''7@lid''), (''username'', VStr ''a''), (''admin'', VNull)])) =
     Some [(''id'', VStr ''7@lid''), (''username'', VStr ''a''), (''admin'', VNull)] \<and>
   decodeStubParticipant (Some ''7@lid'') = None"
proof -
  have "json_parse ''7@lid'' = None" by code_simp
  then show ?thesis
    using stub_participant_roundtrip [THEN conjunct1, rule_format, of "[(''id'', VStr ''7@lid''), (''username'', VStr ''a''), (''admin'', VNull)]"]
      stub_participant_roundtrip [THEN conjunct2, THEN conjunct2, rule_format, of "''7@lid''"]
    by (simp add: oget_def stub_fields_def is_admin_value_def)
qed

subsection \<open>Stub message ids\<close>

lemma last_segment:
  assumes "a @ x # c = b @ x # d" and "x \<notin> set c" and "x \<notin> set d"
  shows "c = d \<and> a = b"
proof -
  have tw: "takeWhile (\<lambda>y. y \<noteq> x) (rev (a @ x # c)) = rev c" if "x \<notin> set c" for a c
    using that by (simp add: takeWhile_append)
  from tw [OF assms(2), of a] tw [OF assms(3), of b] assms(1) have "rev c = rev d" by simp
  then show ?thesis using assms(1) by simp
qed

lemma colon_not_digit: "CHR '':'' \<notin> set (show_nat n)"
  using set_show_nat [of "CHR '':''" n] by (auto simp: is_digit_def)

definition base36_char :: "nat \<Rightarrow> char" where
  "base36_char k = ''0123456789abcdefghijklmnopqrstuvwxyz'' ! k"

lemma base36_digits: "distinct ''0123456789abcdefghijklmnopqrstuvwxyz''" "length ''0123456789abcdefghijklmnopqrstuvwxyz'' = 36"
  "CHR ''-'' \<notin> set ''0123456789abcdefghijklmnopqrstuvwxyz''"
  by simp_all

lemma base36_char_inj: "i < 36 \<Longrightarrow> j < 36 \<Longrightarrow> base36_char i = base36_char j \<longleftrightarrow> i = j"
  unfolding base36_char_def using base36_digits(1,2) by (metis nth_eq_iff_index_eq)

lemma base36_char_in: "i < 36 \<Longrightarrow> base36_char i \<noteq> CHR ''-''"
  unfolding base36_char_def using base36_digits(2,3) nth_mem [of i "''0123456789abcdefghijklmnopqrstuvwxyz''"] by metis

lemma show_base36_unfold:
  "show_base36 n = (if n < 36 then [base36_char n] else show_base36 (n div 36) @ [base36_char (n mod 36)])"
  by (simp only: show_base36.simps [of n] base36_char_def)

lemma show_base36_nonempty: "show_base36 n \<noteq> []"
  by (subst show_base36_unfold) simp

lemma show_base36_clean: "CHR ''-'' \<notin> set (show_base36 n)"
proof (induction n rule: less_induct)
  case (less n)
  show ?case
  proof (cases "n < 36")
    case True
    then show ?thesis using base36_char_in [of n] by (subst show_base36_unfold) auto
  next
    case False
    then show ?thesis using base36_char_in [of "n mod 36"] less.IH [of "n div 36"]
      by (subst show_base36_unfold) auto
  qed
qed

lemma show_base36_inj: "show_base36 m = show_base36 n \<Longrightarrow> m = n"
proof (induction m arbitrary: n rule: less_induct)
  case (less m)
  show ?case
  proof (cases "m < 36 \<or> n < 36")
    case True
    have len: "length (show_base36 k) = 1 \<longleftrightarrow> k < 36" for k
      using show_base36_nonempty [of "k div 36"] by (subst show_base36_unfold) (simp add: length_greater_0_conv [symmetric] del: length_greater_0_conv)
    then have "m < 36" "n < 36" using True less.prems by metis+
    then show ?thesis using less.prems base36_char_inj [of m n]
      by (simp add: show_base36_unfold [of m] show_base36_unfold [of n])
  next
    case False
    then have "show_base36 (m div 36) = show_base36 (n div 36)" "base36_char (m mod 36) = base36_char (n mod 36)"
      using less.prems by (simp_all add: show_base36_unfold [of m] show_base36_unfold [of n])
    then have "m div 36 = n div 36" "m mod 36 = n mod 36"
      using less.IH [of "m div 36" "n div 36"] False base36_char_inj [of "m mod 36" "n mod 36"] by simp_all
    then show ?thesis by (metis div_mult_mod_eq)
  qed
qed

text \<open>The ids a notification's messages get, from the index of each recipe.\<close>

lemma number_stubs_ids:
  "map fst (fst (number_stubs cs n fromMe count index recipes fallback)) =
    map (\<lambda>i. fst (stubMessageId n (recipes ! i) (index + i) count
      (if nonempty (notificationId n) then fallback else fallback + i))) [0..<length recipes] \<and>
   snd (number_stubs cs n fromMe count index recipes fallback) =
    (if nonempty (notificationId n) then fallback else fallback + length recipes)"
proof (induction recipes arbitrary: index fallback)
  case (Cons r rs)
  define f1 where "f1 = (if nonempty (notificationId n) then fallback else Suc fallback)"
  have "snd (stubMessageId n r index count fallback) = f1"
    by (simp add: stubMessageId_def f1_def)
  then obtain i where step: "stubMessageId n r index count fallback = (i, f1)"
    by (metis prod.collapse)
  obtain ms f2 where rest: "number_stubs cs n fromMe count (Suc index) rs f1 = (ms, f2)" by fastforce
  have upt: "[0..<Suc (length rs)] = 0 # map Suc [0..<length rs]" by (simp add: upt_conv_Cons map_Suc_upt del: upt_Suc)
  have w: "map fst (fst (number_stubs cs n fromMe count index (r # rs) fallback)) = i # map fst ms"
    "snd (number_stubs cs n fromMe count index (r # rs) fallback) = f2"
    by (simp_all add: step rest)
  have ih: "map fst ms = map (\<lambda>i. fst (stubMessageId n (rs ! i) (Suc index + i) count
      (if nonempty (notificationId n) then f1 else f1 + i))) [0..<length rs]"
    "f2 = (if nonempty (notificationId n) then f1 else f1 + length rs)"
    using Cons.IH [of "Suc index" f1] by (simp_all only: rest fst_conv snd_conv)
  have i: "i = fst (stubMessageId n r index count fallback)" by (simp add: step)
  show ?case unfolding w
  proof
    show "i # map fst ms = map (\<lambda>i. fst (stubMessageId n ((r # rs) ! i) (index + i) count
        (if nonempty (notificationId n) then fallback else fallback + i))) [0..<length (r # rs)]"
      unfolding ih(1) i by (simp add: upt comp_def f1_def del: upt_Suc)
    show "f2 = (if nonempty (notificationId n) then fallback else fallback + length (r # rs))"
      unfolding ih(2) by (simp add: f1_def)
  qed
qed simp

definition stub_ids :: "canonical_group_update \<Rightarrow> nat \<Rightarrow> js_string list" where
  "stub_ids n fallback = map fst (fst (buildGroupNotificationStubMessages [] n False fallback))"

lemma number_stubs_ids_any:
  "map fst (fst (buildGroupNotificationStubMessages cs n fromMe fallback)) = stub_ids n fallback"
  by (simp add: stub_ids_def buildGroupNotificationStubMessages_def Let_def number_stubs_ids)

lemma in_stub_ids:
  "i \<in> set (stub_ids n fallback) \<Longrightarrow>
    \<exists>k < length (stubRecipesFor n). i = fst (stubMessageId n (stubRecipesFor n ! k) k (length (stubRecipesFor n))
      (if nonempty (notificationId n) then fallback else fallback + k))"
  by (auto simp: stub_ids_def buildGroupNotificationStubMessages_def Let_def number_stubs_ids)

lemma numbered_id_inj:
  assumes "a @ '':'' @ show_nat i @ '':'' @ show_nat k = a @ '':'' @ show_nat j @ '':'' @ show_nat l"
  shows "i = j \<and> k = l"
proof -
  have "(a @ '':'' @ show_nat i) @ CHR '':'' # show_nat k = (a @ '':'' @ show_nat j) @ CHR '':'' # show_nat l"
    using assms by simp
  from last_segment [OF this colon_not_digit colon_not_digit] have "show_nat k = show_nat l" "show_nat i = show_nat j" by simp_all
  then show ?thesis by (simp add: show_nat_inj)
qed

lemma id_numbered:
  "nonempty (notificationId n) \<Longrightarrow> fst (stubMessageId n r i c f) =
    (if actionIndex n = 0 \<and> c = 1 then the (notificationId n)
     else the (notificationId n) @ '':'' @ show_nat (actionIndex n) @ '':'' @ show_nat i)"
  by (simp add: stubMessageId_def)

lemma id_fallback:
  assumes "\<not> nonempty (notificationId n)"
  shows "\<exists>a. fst (stubMessageId n r i c f) = a @ CHR ''-'' # show_base36 f"
  by (rule exI [of _ "''BAE-GP-'' @ show_int (timestamp n) @ ''-'' @
        (case stubType r of None \<Rightarrow> ''protocol'' | Some t \<Rightarrow> show_int t) @ ''-'' @ idSuffix r"])
    (simp add: stubMessageId_def assms)

lemma id_fallback_inj:
  assumes "\<not> nonempty (notificationId n)" and "\<not> nonempty (notificationId n')"
    and "fst (stubMessageId n r i c f) = fst (stubMessageId n' r' i' c' f')"
  shows "f = f'"
proof -
  obtain a b where "fst (stubMessageId n r i c f) = a @ CHR ''-'' # show_base36 f"
    "fst (stubMessageId n' r' i' c' f') = b @ CHR ''-'' # show_base36 f'"
    using id_fallback [OF assms(1)] id_fallback [OF assms(2)] by metis
  then have "a @ CHR ''-'' # show_base36 f = b @ CHR ''-'' # show_base36 f'" using assms(3) by simp
  from last_segment [OF this show_base36_clean show_base36_clean] show ?thesis
    using show_base36_inj by blast
qed

lemma id_numbered_other_action:
  assumes "nonempty (notificationId n)" and "notificationId n' = notificationId n" and "actionIndex n \<noteq> actionIndex n'"
  shows "fst (stubMessageId n r i c f) \<noteq> fst (stubMessageId n' r' j c' f')"
  using assms numbered_id_inj [of "the (notificationId n)" "actionIndex n" i "actionIndex n'" j]
  by (auto simp: id_numbered)

lemma stub_ids_map:
  "stub_ids n fallback = map (\<lambda>i. fst (stubMessageId n (stubRecipesFor n ! i) i (length (stubRecipesFor n))
      (if nonempty (notificationId n) then fallback else fallback + i))) [0..<length (stubRecipesFor n)]"
  by (simp add: stub_ids_def buildGroupNotificationStubMessages_def Let_def number_stubs_ids)

lemma stub_ids_distinct: "distinct (stub_ids n fallback)"
  unfolding stub_ids_map
proof (subst distinct_map, intro conjI inj_onI)
  fix i j
  let ?id = "\<lambda>i. fst (stubMessageId n (stubRecipesFor n ! i) i (length (stubRecipesFor n))
      (if nonempty (notificationId n) then fallback else fallback + i))"
  assume ij: "i \<in> set [0..<length (stubRecipesFor n)]" "j \<in> set [0..<length (stubRecipesFor n)]" and eq: "?id i = ?id j"
  show "i = j"
  proof (cases "nonempty (notificationId n)")
    case False
    then have "fst (stubMessageId n (stubRecipesFor n ! i) i (length (stubRecipesFor n)) (fallback + i)) =
        fst (stubMessageId n (stubRecipesFor n ! j) j (length (stubRecipesFor n)) (fallback + j))"
      using eq by simp
    from id_fallback_inj [OF False False this] show ?thesis by simp
  next
    case True
    show ?thesis
    proof (cases "actionIndex n = 0 \<and> length (stubRecipesFor n) = 1")
      case True
      then show ?thesis using ij by simp
    next
      case multi: False
      then have "the (notificationId n) @ '':'' @ show_nat (actionIndex n) @ '':'' @ show_nat i =
          the (notificationId n) @ '':'' @ show_nat (actionIndex n) @ '':'' @ show_nat j"
        using eq by (simp only: id_numbered [OF True] if_False)
      from numbered_id_inj [OF this] show ?thesis by simp
    qed
  qed
qed simp

lemma stub_message_ids_unique_parts:
  "distinct (map fst (fst (buildGroupNotificationStubMessages cs n fromMe fallback)))"
  "nonempty (notificationId n) \<Longrightarrow> notificationId n' = notificationId n \<Longrightarrow> actionIndex n \<noteq> actionIndex n' \<Longrightarrow>
     set (map fst (fst (buildGroupNotificationStubMessages cs n fromMe fallback))) \<inter>
     set (map fst (fst (buildGroupNotificationStubMessages cs' n' fromMe' fallback'))) = {}"
  "\<not> nonempty (notificationId n) \<Longrightarrow> \<not> nonempty (notificationId n') \<Longrightarrow>
     fallback + length (stubRecipesFor n) \<le> fallback' \<Longrightarrow>
     set (map fst (fst (buildGroupNotificationStubMessages cs n fromMe fallback))) \<inter>
     set (map fst (fst (buildGroupNotificationStubMessages cs' n' fromMe' fallback'))) = {} \<and>
     snd (buildGroupNotificationStubMessages cs n fromMe fallback) = fallback + length (stubRecipesFor n)"
proof -
  show "distinct (map fst (fst (buildGroupNotificationStubMessages cs n fromMe fallback)))"
    unfolding number_stubs_ids_any by (rule stub_ids_distinct)
  show "set (map fst (fst (buildGroupNotificationStubMessages cs n fromMe fallback))) \<inter>
     set (map fst (fst (buildGroupNotificationStubMessages cs' n' fromMe' fallback'))) = {}"
    if prems: "nonempty (notificationId n)" "notificationId n' = notificationId n" "actionIndex n \<noteq> actionIndex n'"
  proof -
    have "False" if "i \<in> set (stub_ids n fallback)" "i \<in> set (stub_ids n' fallback')" for i
      using in_stub_ids [OF that(1)] in_stub_ids [OF that(2)]
        id_numbered_other_action [OF prems] by auto
    then show ?thesis unfolding number_stubs_ids_any by blast
  qed
  show "set (map fst (fst (buildGroupNotificationStubMessages cs n fromMe fallback))) \<inter>
     set (map fst (fst (buildGroupNotificationStubMessages cs' n' fromMe' fallback'))) = {} \<and>
     snd (buildGroupNotificationStubMessages cs n fromMe fallback) = fallback + length (stubRecipesFor n)"
    if prems: "\<not> nonempty (notificationId n)" "\<not> nonempty (notificationId n')" "fallback + length (stubRecipesFor n) \<le> fallback'"
  proof
    have "False" if m: "i \<in> set (stub_ids n fallback)" "i \<in> set (stub_ids n' fallback')" for i
    proof -
      obtain k where k: "k < length (stubRecipesFor n)"
        "i = fst (stubMessageId n (stubRecipesFor n ! k) k (length (stubRecipesFor n)) (fallback + k))"
        using in_stub_ids [OF m(1)] prems(1) by auto
      obtain l where l: "i = fst (stubMessageId n' (stubRecipesFor n' ! l) l (length (stubRecipesFor n')) (fallback' + l))"
        using in_stub_ids [OF m(2)] prems(2) by auto
      from id_fallback_inj [OF prems(1,2) trans [OF k(2) [symmetric] l]] have "fallback + k = fallback' + l" .
      then show False using k(1) prems(3) by simp
    qed
    then show "set (map fst (fst (buildGroupNotificationStubMessages cs n fromMe fallback))) \<inter>
        set (map fst (fst (buildGroupNotificationStubMessages cs' n' fromMe' fallback'))) = {}"
      unfolding number_stubs_ids_any by blast
    show "snd (buildGroupNotificationStubMessages cs n fromMe fallback) = fallback + length (stubRecipesFor n)"
      using prems(1) by (simp add: buildGroupNotificationStubMessages_def Let_def number_stubs_ids)
  qed
qed


definition update_example :: "nat \<Rightarrow> js_string option \<Rightarrow> group_action \<Rightarrow> canonical_group_update" where
  "update_example i nid a =
     \<lparr>groupJid = ''1@g.us'', notificationId = nid, actionIndex = i, author = Some ''7@lid'', authorPn = None,
      authorUsername = None, timestamp = 5, isLidAddressingMode = True, action = a\<rparr>"


end
