(* ===== verification/CanonicalTypes.thy ===== *)
theory CanonicalTypes
  imports Primitives
begin

text \<open>
  The contract of \<open>src/src/Bridge/types.ts\<close>: the structural types of the canonical events, written as
  terms of a small type language, and what it is for a value to conform to one. An optional field
  may be missing or \<open>undefined\<close>. Types of other modules (chats, messages, protocol actions) stand as
  \<open>TUnknown\<close>, or as an object with no field described.
\<close>

subsection \<open>Structural types\<close>

datatype ftype =
    TString
  | TNumber
  | TBoolean
  | TNull
  | TUnknown
  | TDate
  | TLit "js_string list"
  | TBool bool
  | TArray ftype
  | TDict ftype
  | TUnion "ftype list"
  | TObj "field list"
and field = Field js_string bool ftype

text \<open>\<open>k: t\<close> and \<open>k?: t\<close>\<close>

abbreviation req :: "js_string \<Rightarrow> ftype \<Rightarrow> field" where
  "req k t \<equiv> Field k False t"

abbreviation opt :: "js_string \<Rightarrow> ftype \<Rightarrow> field" where
  "opt k t \<equiv> Field k True t"

abbreviation tag :: "js_string \<Rightarrow> field" where
  "tag t \<equiv> Field ''type'' False (TLit [t])"

text \<open>A \<open>Date\<close>, by its time value; it is an object of its own.\<close>

definition date_object :: "int \<Rightarrow> jv" where
  "date_object ms = VObj [(''getTime'', VToNumber (VNum ms))]"

definition is_date :: "jv \<Rightarrow> bool" where
  "is_date v \<longleftrightarrow> (case jprop v ''getTime'' of VToNumber (VNum ms) \<Rightarrow> True | _ \<Rightarrow> False)"

definition is_finite :: "jv \<Rightarrow> bool" where
  "is_finite v \<longleftrightarrow> asNumber v \<noteq> None"

fun is_boolean :: "jv \<Rightarrow> bool" where
  "is_boolean (VBool b) = True"
| "is_boolean _ = False"

text \<open>Numbers are finite: no event carries \<open>NaN\<close> or an infinity.\<close>

fun conforms :: "ftype \<Rightarrow> jv \<Rightarrow> bool" and has_fields :: "field list \<Rightarrow> jv \<Rightarrow> bool" and conforms_one :: "ftype list \<Rightarrow> jv \<Rightarrow> bool" where
  "conforms TString v = is_string v"
| "conforms TNumber v = is_finite v"
| "conforms TBoolean v = is_boolean v"
| "conforms TNull v = (v = VNull)"
| "conforms TUnknown v = True"
| "conforms TDate v = is_date v"
| "conforms (TLit ss) v = (case v of VStr s \<Rightarrow> s \<in> set ss | _ \<Rightarrow> False)"
| "conforms (TBool b) v = (v = VBool b)"
| "conforms (TArray t) v = (case v of VArr xs \<Rightarrow> list_all (conforms t) xs | _ \<Rightarrow> False)"
| "conforms (TDict t) v = (case v of VObj m \<Rightarrow> list_all (\<lambda>p. conforms t (snd p)) m | VToNumber r \<Rightarrow> t = TUnknown | _ \<Rightarrow> False)"
| "conforms (TUnion ts) v = conforms_one ts v"
| "conforms (TObj fs) v = (isObject v \<and> has_fields fs v)"
| "has_fields [] v = True"
| "has_fields (Field k optional t # fs) v =
     (((optional \<and> jprop v k = VUndef) \<or> conforms t (jprop v k)) \<and> has_fields fs v)"
| "conforms_one [] v = False"
| "conforms_one (t # ts) v = (conforms t v \<or> conforms_one ts v)"

subsection \<open>The canonical events\<close>

definition canonical_participant :: ftype where
  "canonical_participant = TObj
     [req ''jid'' TString, opt ''phoneNumber'' TString, opt ''lid'' TString, opt ''username'' TString,
      opt ''displayName'' TString, opt ''joinTime'' TNumber,
      opt ''role'' (TLit [''participant'', ''admin'', ''superadmin''])]"

definition group_action_arms :: "ftype list" where
  "group_action_arms =
     [TObj [tag ''add'', req ''participants'' (TArray canonical_participant), opt ''reason'' TString],
      TObj [tag ''remove'', req ''participants'' (TArray canonical_participant), opt ''reason'' TString],
      TObj [tag ''promote'', req ''participants'' (TArray canonical_participant)],
      TObj [tag ''demote'', req ''participants'' (TArray canonical_participant)],
      TObj [tag ''modify'', req ''participants'' (TArray canonical_participant)],
      TObj [tag ''subject'', req ''subject'' TString, opt ''subjectOwner'' TString, opt ''subjectTime'' TNumber],
      TObj [tag ''description'', req ''id'' TString, opt ''description'' TString],
      TObj [tag ''locked''], TObj [tag ''unlocked''], TObj [tag ''announce''], TObj [tag ''notAnnounce''],
      TObj [tag ''ephemeral'', req ''expiration'' TNumber, opt ''trigger'' TNumber],
      TObj [tag ''membershipApprovalMode'', req ''enabled'' TBoolean],
      TObj [tag ''memberAddMode'', req ''mode'' TString],
      TObj [tag ''noFrequentlyForwarded''], TObj [tag ''frequentlyForwardedOk''],
      TObj [tag ''invite'', req ''code'' TString],
      TObj [tag ''revokeInvite''], TObj [tag ''create''],
      TObj [tag ''delete'', opt ''reason'' TString],
      TObj [tag ''link'', req ''linkType'' TString],
      TObj [tag ''unlink'', req ''unlinkType'' TString, opt ''unlinkReason'' TString],
      TObj [tag ''linkedGroupPromote'', req ''participants'' (TArray canonical_participant)],
      TObj [tag ''linkedGroupDemote'', req ''participants'' (TArray canonical_participant)],
      TObj [tag ''suspended''], TObj [tag ''unsuspended''], TObj [tag ''autoAddDisabled''],
      TObj [tag ''capiHostedGroup''], TObj [tag ''groupSafetyCheck''],
      TObj [tag ''limitSharingEnabled'', opt ''trigger'' TNumber],
      TObj [tag ''allowAdminReports''], TObj [tag ''notAllowAdminReports''], TObj [tag ''reports''],
      TObj [tag ''allowNonAdminSubGroupCreation''], TObj [tag ''notAllowNonAdminSubGroupCreation''],
      TObj [tag ''createdSubGroupSuggestion''], TObj [tag ''revokedSubGroupSuggestions''],
      TObj [tag ''changeNumber'', opt ''newOwner'' TString, req ''subGroupSuggestions'' (TArray TString)],
      TObj [tag ''growthLocked'', req ''expiration'' TNumber, req ''lockType'' TString],
      TObj [tag ''growthUnlocked''],
      TObj [tag ''membershipApprovalRequest'', opt ''requestMethod'' TString, opt ''parentGroupJid'' TString],
      TObj [tag ''createdMembershipRequests'', opt ''requestMethod'' TString, opt ''parentGroupJid'' TString,
        req ''requests'' (TArray canonical_participant)],
      TObj [tag ''revokedMembershipRequests'', req ''participants'' (TArray canonical_participant)],
      TObj [tag ''unknown'', req ''rawType'' TString]]"

definition canonical_group_action :: ftype where
  "canonical_group_action = TUnion group_action_arms"

definition call_action_types :: "js_string list" where
  "call_action_types =
     [''offer'', ''preaccept'', ''transport'', ''relaylatency'', ''accept'', ''reject'', ''terminate'', ''timeout'']"

definition canonical_call_action :: ftype where
  "canonical_call_action = TObj
     [req ''type'' (TLit call_action_types), req ''callId'' TString, opt ''callCreator'' TString,
      opt ''callerPn'' TString, opt ''callerCountryCode'' TString, opt ''deviceClass'' TString,
      opt ''joinable'' TBoolean, opt ''audio'' (TArray TString), opt ''isVideo'' TBoolean,
      opt ''duration'' TNumber, opt ''audioDuration'' TNumber]"

definition reachout_state :: ftype where
  "reachout_state = TObj
     [opt ''isActive'' TBoolean, opt ''timeEnforcementEnds'' TDate, opt ''enforcementType'' TString]"

definition binary_node :: ftype where
  "binary_node = TObj [req ''tag'' TString, req ''attrs'' (TDict TString), opt ''content'' TUnknown]"

definition setting :: "js_string \<Rightarrow> ftype \<Rightarrow> ftype" where
  "setting s t = TObj [tag ''settingUpdate'', req ''setting'' (TLit [s]), req ''value'' t]"

definition canonical_setting_update :: ftype where
  "canonical_setting_update = TUnion
     [setting ''unarchiveChats'' TBoolean, setting ''locale'' TString, setting ''disableLinkPreviews'' (TObj []),
      setting ''timeFormat'' (TObj []), setting ''privacySettingRelayAllCalls'' (TObj []),
      setting ''statusPrivacy'' (TObj []), setting ''notificationActivitySetting'' TNumber,
      setting ''channelsPersonalisedRecommendation'' (TObj [])]"

definition canonical_connected :: ftype where
  "canonical_connected = TObj
     [tag ''connected'']"

definition canonical_disconnected :: ftype where
  "canonical_disconnected = TObj
     [tag ''disconnected'']"

definition canonical_qr :: ftype where
  "canonical_qr = TObj
     [tag ''qr'', req ''code'' TString]"

definition canonical_pair_success :: ftype where
  "canonical_pair_success = TObj
     [tag ''pairSuccess'', req ''id'' TString, opt ''lid'' TString, opt ''platform'' TString,
      opt ''businessName'' TString]"

definition canonical_pair_error :: ftype where
  "canonical_pair_error = TObj
     [tag ''pairError'', req ''error'' TString, opt ''rejection'' TNumber, opt ''backoff'' TNumber,
      opt ''id'' TString, opt ''lid'' TString, opt ''businessName'' TString, opt ''platform'' TString]"

definition canonical_logged_out :: ftype where
  "canonical_logged_out = TObj
     [tag ''loggedOut'', opt ''onConnect'' TBoolean, opt ''reason'' TString]"

definition canonical_connect_failure :: ftype where
  "canonical_connect_failure = TObj
     [tag ''connectFailure'', opt ''message'' TString, opt ''reason'' TNumber]"

definition canonical_stream_error :: ftype where
  "canonical_stream_error = TObj
     [tag ''streamError'', req ''code'' TString]"

definition canonical_stream_replaced :: ftype where
  "canonical_stream_replaced = TObj
     [tag ''streamReplaced'']"

definition canonical_client_outdated :: ftype where
  "canonical_client_outdated = TObj
     [tag ''clientOutdated'']"

definition canonical_temporary_ban :: ftype where
  "canonical_temporary_ban = TObj
     [tag ''temporaryBan'', opt ''code'' TNumber, opt ''expire'' TNumber]"

definition canonical_qr_scanned_without_multidevice :: ftype where
  "canonical_qr_scanned_without_multidevice = TObj
     [tag ''qrScannedWithoutMultidevice'']"

definition canonical_message :: ftype where
  "canonical_message = TObj
     [tag ''message'', opt ''serverId'' TString, req ''chatJid'' TString, opt ''senderJid'' TString,
      req ''isGroup'' TBoolean, req ''isFromMe'' TBoolean, req ''id'' TString, req ''timestamp'' TNumber,
      opt ''pushName'' TString, opt ''participantAlt'' TString, opt ''remoteJidAlt'' TString,
      opt ''isViewOnce'' TBoolean, opt ''isOffline'' TBoolean, opt ''unavailableRequestId'' TString,
      opt ''editAttribute'' (TLit [''1'', ''2'', ''3'', ''7'', ''8'']), req ''messageProto'' (TObj [])]"

definition canonical_receipt :: ftype where
  "canonical_receipt = TObj
     [tag ''receipt'', req ''chatJid'' TString, opt ''senderJid'' TString, req ''isGroup'' TBoolean,
      req ''isFromMe'' TBoolean, req ''messageIds'' (TArray TString), req ''timestamp'' TNumber,
      opt ''receiptType'' (TLit [''delivered'', ''sent'', ''sender'', ''retry'', ''enc-rekey-retry'', ''read'', ''read-self'', ''played'', ''played-self'', ''inactive'', ''peer-msg'', ''history-sync'', ''server-error'', ''other'']),
      opt ''receiptTypeRaw'' TString]"

definition canonical_contact_update :: ftype where
  "canonical_contact_update = TObj
     [tag ''contactUpdate'', req ''jid'' TString, opt ''fullName'' TString, opt ''firstName'' TString,
      opt ''lidJid'' TString, opt ''pnJid'' TString, opt ''username'' TString]"

definition canonical_picture_update :: ftype where
  "canonical_picture_update = TObj
     [tag ''pictureUpdate'', req ''jid'' TString, req ''removed'' TBoolean, opt ''author'' TString,
      opt ''pictureId'' TString]"

definition canonical_presence :: ftype where
  "canonical_presence = TObj
     [tag ''presence'', req ''from'' TString, req ''unavailable'' TBoolean, opt ''lastSeen'' TNumber]"

definition canonical_chat_presence :: ftype where
  "canonical_chat_presence = TObj
     [tag ''chatPresence'', req ''chatJid'' TString, req ''senderJid'' TString, req ''state'' TString,
      opt ''media'' (TLit [''audio''])]"

definition canonical_group_update_event :: ftype where
  "canonical_group_update_event = TObj
     [tag ''groupUpdate'', req ''groupJid'' TString, opt ''notificationId'' TString,
      req ''actionIndex'' TNumber, opt ''author'' TString, opt ''authorPn'' TString,
      opt ''authorUsername'' TString, opt ''authorCountryCode'' TString, req ''timestamp'' TNumber,
      req ''isLidAddressingMode'' TBoolean, req ''action'' canonical_group_action]"

definition canonical_archive_update :: ftype where
  "canonical_archive_update = TObj
     [tag ''archiveUpdate'', req ''jid'' TString, req ''archived'' TBoolean]"

definition canonical_pin_update :: ftype where
  "canonical_pin_update = TObj
     [tag ''pinUpdate'', req ''jid'' TString, opt ''timestamp'' TNumber, req ''pinned'' TBoolean]"

definition canonical_lock_chat_update :: ftype where
  "canonical_lock_chat_update = TObj
     [tag ''lockChatUpdate'', req ''jid'' TString, req ''locked'' TBoolean]"

definition canonical_mute_update :: ftype where
  "canonical_mute_update = TObj
     [tag ''muteUpdate'', req ''jid'' TString, opt ''timestamp'' TNumber, req ''muted'' TBoolean,
      opt ''muteEndTimestamp'' TNumber]"

definition canonical_star_update :: ftype where
  "canonical_star_update = TObj
     [tag ''starUpdate'', req ''chatJid'' TString, req ''messageId'' TString, req ''fromMe'' TBoolean,
      opt ''participantJid'' TString, req ''starred'' TBoolean]"

definition canonical_mark_chat_as_read_update :: ftype where
  "canonical_mark_chat_as_read_update = TObj
     [tag ''markChatAsReadUpdate'', req ''jid'' TString, req ''read'' TBoolean]"

definition canonical_label_sublist :: ftype where
  "canonical_label_sublist = TObj
     [tag ''labelSublist'', req ''predefinedId'' TNumber, req ''chatJid'' TString,
      req ''change'' (TLit [''upsert'', ''remove'']), opt ''subListId'' TNumber,
      opt ''actionTimestamp'' TString, req ''fromFullSync'' TBoolean]"

definition canonical_label_edit :: ftype where
  "canonical_label_edit = TObj
     [tag ''labelEdit'', opt ''actionTimestamp'' TString, req ''labelId'' TString, req ''name'' TString,
      req ''color'' TNumber, req ''deleted'' TBoolean, opt ''predefinedId'' TString]"

definition canonical_label_association :: ftype where
  "canonical_label_association = TObj
     [tag ''labelAssociation'', opt ''actionTimestamp'' TString, req ''labelId'' TString,
      req ''chatJid'' TString, opt ''messageId'' TString, req ''labeled'' TBoolean]"

definition canonical_qr_codes_exhausted :: ftype where
  "canonical_qr_codes_exhausted = TObj
     [tag ''qrCodesExhausted'']"

definition canonical_app_state_sync_failed :: ftype where
  "canonical_app_state_sync_failed = TObj
     [tag ''appStateSyncFailed'', req ''fatal'' (TArray TString), req ''retryable'' (TArray TString),
      req ''skipped'' (TArray TString), req ''connected'' TBoolean]"

definition canonical_reachout_timelock :: ftype where
  "canonical_reachout_timelock = TObj
     [tag ''reachoutTimelock'', req ''state'' reachout_state]"

definition canonical_unarchive_chats_setting :: ftype where
  "canonical_unarchive_chats_setting = TObj
     [tag ''unarchiveChatsSetting'', req ''unarchiveChats'' TBoolean]"

definition canonical_incoming_call :: ftype where
  "canonical_incoming_call = TObj
     [tag ''incomingCall'', req ''from'' TString, opt ''timestamp'' TNumber, req ''offline'' TBoolean,
      opt ''stanzaId'' TString, opt ''notify'' TString, opt ''platform'' TString,
      opt ''version'' TString, req ''action'' canonical_call_action]"

definition canonical_undecryptable_message :: ftype where
  "canonical_undecryptable_message = TObj
     [tag ''undecryptableMessage'', req ''chatJid'' TString, opt ''senderJid'' TString,
      req ''id'' TString, req ''timestamp'' TNumber, req ''isFromMe'' TBoolean, req ''isGroup'' TBoolean,
      opt ''pushName'' TString, opt ''participantAlt'' TString, opt ''remoteJidAlt'' TString,
      req ''isUnavailable'' TBoolean, opt ''unavailableType'' TString, opt ''stanzaType'' TString,
      opt ''decryptFailMode'' TString, req ''raw'' TUnknown]"

definition canonical_newsletter_live_update :: ftype where
  "canonical_newsletter_live_update = TObj
     [tag ''newsletterLiveUpdate'', req ''newsletterJid'' TString,
      req ''messages'' (TArray (TObj [req ''serverId'' TString, req ''reactions'' (TArray (TObj [req ''code'' TString, req ''count'' TNumber]))]))]"

definition canonical_lid_mapping_update :: ftype where
  "canonical_lid_mapping_update = TObj
     [tag ''lidMappingUpdate'',
      req ''mappings'' (TArray (TObj [req ''lid'' TString, req ''pn'' TString]))]"

definition canonical_chat_delete :: ftype where
  "canonical_chat_delete = TObj
     [tag ''chatDelete'', req ''jid'' TString]"

definition canonical_chat_clear :: ftype where
  "canonical_chat_clear = TObj
     [tag ''chatClear'', req ''jid'' TString]"

definition canonical_message_delete :: ftype where
  "canonical_message_delete = TObj
     [tag ''messageDelete'', req ''chatJid'' TString, req ''messageId'' TString, req ''fromMe'' TBoolean,
      opt ''participantJid'' TString]"

definition canonical_disappearing_mode_changed :: ftype where
  "canonical_disappearing_mode_changed = TObj
     [tag ''disappearingModeChanged'', req ''jid'' TString, req ''duration'' TNumber,
      opt ''settingTimestamp'' TNumber]"

definition canonical_history_sync :: ftype where
  "canonical_history_sync = TObj
     [tag ''historySync'', req ''chats'' (TArray TUnknown), req ''contacts'' (TArray TUnknown),
      req ''messages'' (TArray TUnknown), req ''lidPnMappings'' (TArray TUnknown),
      opt ''syncType'' TNumber, opt ''progress'' TNumber, opt ''pastParticipants'' TUnknown,
      opt ''chunkOrder'' TNumber, opt ''peerDataRequestSessionId'' TString, opt ''batchIndex'' TNumber,
      opt ''isFinalBatch'' TBoolean]"

definition canonical_offline_sync_completed :: ftype where
  "canonical_offline_sync_completed = TObj
     [tag ''offlineSyncCompleted'', req ''count'' TNumber]"

definition canonical_dirty_state :: ftype where
  "canonical_dirty_state = TObj
     [tag ''dirtyState'', req ''dirtyType'' TString, opt ''timestamp'' TNumber]"

definition canonical_raw_node :: ftype where
  "canonical_raw_node = TObj
     [tag ''rawNode'', req ''node'' binary_node]"

definition canonical_notification :: ftype where
  "canonical_notification = TObj
     [tag ''notification'', req ''tag'' TString, req ''attrs'' (TDict TString)]"

definition canonical_mex_notification :: ftype where
  "canonical_mex_notification = TObj
     [tag ''mexNotification'', req ''opName'' TString, opt ''from'' TString, opt ''stanzaId'' TString,
      req ''offline'' TBoolean, req ''payload'' (TDict TUnknown)]"

definition canonical_noop :: ftype where
  "canonical_noop = TObj
     [tag ''noop'', req ''bridgeType'' TString, opt ''detail'' TString]"

definition canonical_server_ack :: ftype where
  "canonical_server_ack = TObj
     [tag ''serverAck'', req ''id'' TString, opt ''class'' TString, opt ''from'' TString,
      opt ''timestamp'' TNumber, opt ''error'' TString]"

definition canonical_event_types :: "ftype list" where
  "canonical_event_types =
     [canonical_connected, canonical_disconnected, canonical_qr, canonical_pair_success,
      canonical_pair_error, canonical_logged_out, canonical_connect_failure, canonical_stream_error,
      canonical_stream_replaced, canonical_client_outdated, canonical_temporary_ban,
      canonical_qr_scanned_without_multidevice, canonical_message, canonical_receipt,
      canonical_contact_update, canonical_picture_update, canonical_presence, canonical_chat_presence,
      canonical_group_update_event, canonical_archive_update, canonical_pin_update,
      canonical_mute_update, canonical_star_update, canonical_mark_chat_as_read_update,
      canonical_lock_chat_update, canonical_label_sublist, canonical_label_edit,
      canonical_label_association, canonical_app_state_sync_failed, canonical_qr_codes_exhausted,
      canonical_setting_update, canonical_reachout_timelock, canonical_unarchive_chats_setting,
      canonical_incoming_call, canonical_undecryptable_message, canonical_lid_mapping_update,
      canonical_newsletter_live_update, canonical_chat_delete, canonical_chat_clear,
      canonical_message_delete, canonical_disappearing_mode_changed, canonical_history_sync,
      canonical_offline_sync_completed, canonical_dirty_state, canonical_raw_node,
      canonical_notification, canonical_mex_notification, canonical_server_ack, canonical_noop]"

definition canonical_event :: ftype where
  "canonical_event = TUnion canonical_event_types"

subsection \<open>Conformance\<close>

lemma conforms_one_mem: "t \<in> set ts \<Longrightarrow> conforms t v \<Longrightarrow> conforms_one ts v"
  by (induction ts) auto

lemma conforms_union: "t \<in> set ts \<Longrightarrow> conforms t v \<Longrightarrow> conforms (TUnion ts) v"
  by (simp add: conforms_one_mem)

lemma canonical_eventI: "t \<in> set canonical_event_types \<Longrightarrow> conforms t v \<Longrightarrow> conforms canonical_event v"
  by (simp add: canonical_event_def conforms_one_mem)

end
