(* ===== verification/Timestamps.thy ===== *)
theory Timestamps
  imports Primitives
begin

text \<open>
  The time stamps of \<open>src/src/Bridge/primitives.ts\<close>. \<open>Date.parse\<close> is written out for the format
  ECMAScript fixes (\<open>YYYY-MM-DDTHH:mm:ss\<close>, optionally three fraction digits, then \<open>Z\<close> or \<open>+HH:mm\<close>); what it
  returns for the other strings RFC 3339 allows depends on the implementation and is the parameter
  \<open>other\<close>, in milliseconds, \<open>None\<close> for NaN.
\<close>

subsection \<open>The calendar\<close>

definition MONTH_LENGTHS :: "int list" where
  "MONTH_LENGTHS = [31, 28, 31, 30, 31, 30, 31, 31, 30, 31, 30, 31]"

definition month_length :: "int \<Rightarrow> int" where
  "month_length month = (if 1 \<le> month \<and> month \<le> 12 then MONTH_LENGTHS ! nat (month - 1) else 0)"

definition daysInMonth :: "int \<Rightarrow> int \<Rightarrow> int" where
  "daysInMonth year month =
     (if month = 2 \<and> year mod 4 = 0 \<and> (year mod 100 \<noteq> 0 \<or> year mod 400 = 0) then 29 else month_length month)"

text \<open>The days from 1970-01-01 to the first of January, to the first of a month, and to a day.\<close>

definition day_from_year :: "int \<Rightarrow> int" where
  "day_from_year y = 365 * (y - 1970) + (y - 1969) div 4 - (y - 1901) div 100 + (y - 1601) div 400"

definition days_before_month :: "int \<Rightarrow> int \<Rightarrow> int" where
  "days_before_month y m = sum_list (map (daysInMonth y) [1..m - 1])"

definition epoch_day :: "int \<Rightarrow> int \<Rightarrow> int \<Rightarrow> int" where
  "epoch_day y m d = day_from_year y + days_before_month y m + (d - 1)"

subsection \<open>RFC 3339\<close>

definition digit_at :: "js_string \<Rightarrow> nat \<Rightarrow> int" where
  "digit_at raw i = (if i < length raw then of_char (raw ! i) - 48 else 0)"

definition digits2 :: "js_string \<Rightarrow> nat \<Rightarrow> int" where
  "digits2 raw i = digit_at raw i * 10 + digit_at raw (i + 1)"

text \<open>The pattern: a letter \<open>d\<close> stands for a digit, any other character for itself.\<close>

fun fits_pattern :: "js_string \<Rightarrow> js_string \<Rightarrow> bool" where
  "fits_pattern [] s = (s = [])"
| "fits_pattern (p # ps) [] = False"
| "fits_pattern (p # ps) (c # s) = ((if p = CHR ''d'' then is_digit c else c = p) \<and> fits_pattern ps s)"

definition date_part :: "js_string \<Rightarrow> bool" where
  "date_part raw \<longleftrightarrow> fits_pattern ''dddd-dd-dd'' (take 10 raw) \<and> fits_pattern ''dd:dd:dd'' (take 8 (drop 11 raw)) \<and>
     10 < length raw \<and> raw ! 10 \<in> set ''Tt ''"

text \<open>The fraction's digits (\<open>None\<close> when there is no point) and what follows them.\<close>

definition fraction_part :: "js_string \<Rightarrow> js_string option \<times> js_string" where
  "fraction_part r =
     (case r of
        c # r' \<Rightarrow> if c = CHR ''.'' then (Some (takeWhile is_digit r'), dropWhile is_digit r') else (None, r)
      | [] \<Rightarrow> (None, r))"

fun zone_ok :: "js_string \<Rightarrow> bool" where
  "zone_ok [] = False"
| "zone_ok (c # r) =
     (if c \<in> set ''Zz'' then r = []
      else c \<in> set ''+-'' \<and> (fits_pattern ''dd:dd'' r \<or> fits_pattern ''dddd'' r))"

definition RFC_3339 :: "js_string \<Rightarrow> bool" where
  "RFC_3339 raw \<longleftrightarrow> date_part raw \<and>
     (case fraction_part (drop 19 raw) of (f, zone) \<Rightarrow> f \<noteq> Some [] \<and> zone_ok zone)"

definition iso_format :: "js_string \<Rightarrow> bool" where
  "iso_format raw \<longleftrightarrow> date_part raw \<and> raw ! 10 = CHR ''T'' \<and>
     (case fraction_part (drop 19 raw) of (f, zone) \<Rightarrow>
        (case f of None \<Rightarrow> True | Some ds \<Rightarrow> length ds = 3) \<and>
        (zone = ''Z'' \<or> (zone \<noteq> [] \<and> hd zone \<in> set ''+-'' \<and> fits_pattern ''dd:dd'' (tl zone))))"

definition millis :: "js_string option \<Rightarrow> int" where
  "millis f = (case f of None \<Rightarrow> 0 | Some ds \<Rightarrow> 100 * digit_at ds 0 + digits2 ds 1)"

text \<open>The offset in minutes; \<open>None\<close> when its hours or minutes are out of bounds.\<close>

definition zone_offset :: "js_string \<Rightarrow> int option" where
  "zone_offset zone =
     (if zone = ''Z'' then Some 0
      else let h = digits2 zone 1; m = digits2 zone 4 in
        if h \<le> 23 \<and> m \<le> 59 then Some ((if hd zone = CHR ''-'' then - 1 else 1) * (h * 60 + m)) else None)"

definition iso_instant :: "js_string \<Rightarrow> int option" where
  "iso_instant raw =
     (let y = digits2 raw 0 * 100 + digits2 raw 2; mo = digits2 raw 5; d = digits2 raw 8;
          h = digits2 raw 11; mi = digits2 raw 14; s = digits2 raw 17;
          (f, zone) = fraction_part (drop 19 raw)
      in if 1 \<le> mo \<and> mo \<le> 12 \<and> 1 \<le> d \<and> d \<le> 31 \<and> mi \<le> 59 \<and> s \<le> 59 \<and>
            (h \<le> 23 \<or> (h = 24 \<and> mi = 0 \<and> s = 0 \<and> millis f = 0))
         then map_option (\<lambda>off. ((epoch_day y mo d * 24 + h) * 60 + mi - off) * 60000 + s * 1000 + millis f) (zone_offset zone)
         else None)"

definition date_parse :: "(js_string \<Rightarrow> int option) \<Rightarrow> js_string \<Rightarrow> int option" where
  "date_parse other raw = (if iso_format raw then iso_instant raw else other raw)"

definition parseRfc3339Seconds :: "(js_string \<Rightarrow> int option) \<Rightarrow> js_string \<Rightarrow> int option" where
  "parseRfc3339Seconds other raw =
     (if \<not> RFC_3339 raw then None
      else let year = digits2 raw 0 * 100 + digits2 raw 2 in
        if digits2 raw 8 > daysInMonth year (digits2 raw 5) then None
        else if digits2 raw 11 > 23 then None
        else map_option (\<lambda>ms. ms div 1000) (date_parse other raw))"

definition asUnixSeconds :: "(js_string \<Rightarrow> int option) \<Rightarrow> jv \<Rightarrow> jv option" where
  "asUnixSeconds other raw =
     (case asNumber raw of
        Some n \<Rightarrow> Some n
      | None \<Rightarrow> (case raw of VStr s \<Rightarrow> map_option VNum (parseRfc3339Seconds other s) | _ \<Rightarrow> None))"

text \<open>\<open>None\<close> is the \<open>RangeError\<close>.\<close>

definition toUnixSeconds :: "(js_string \<Rightarrow> int option) \<Rightarrow> jv \<Rightarrow> jv option" where
  "toUnixSeconds other raw = asUnixSeconds other raw"

subsection \<open>The instants are the calendar's\<close>

definition pad2 :: "nat \<Rightarrow> js_string" where
  "pad2 n = [char_of (48 + n div 10), char_of (48 + n mod 10)]"

definition iso_text :: "nat \<Rightarrow> nat \<Rightarrow> nat \<Rightarrow> nat \<Rightarrow> nat \<Rightarrow> nat \<Rightarrow> js_string \<Rightarrow> js_string" where
  "iso_text y mo d h mi s rest =
     pad2 (y div 100) @ pad2 (y mod 100) @ ''-'' @ pad2 mo @ ''-'' @ pad2 d @ ''T'' @
     pad2 h @ '':'' @ pad2 mi @ '':'' @ pad2 s @ rest"

definition offset_text :: "char \<Rightarrow> nat \<Rightarrow> nat \<Rightarrow> js_string" where
  "offset_text sign h m = sign # pad2 h @ '':'' @ pad2 m"

definition real_date :: "nat \<Rightarrow> nat \<Rightarrow> nat \<Rightarrow> bool" where
  "real_date y mo d \<longleftrightarrow> y < 10000 \<and> 1 \<le> mo \<and> mo \<le> 12 \<and> 1 \<le> d \<and> int d \<le> daysInMonth (int y) (int mo)"

definition next_day :: "int \<Rightarrow> int \<Rightarrow> int \<Rightarrow> int \<times> int \<times> int" where
  "next_day y m d =
     (if d < daysInMonth y m then (y, m, d + 1) else if m < 12 then (y, m + 1, 1) else (y + 1, 1, 1))"

lemma is_digit_char: "(k::nat) < 10 \<Longrightarrow> is_digit (char_of (48 + k))"
  using digit_char by simp

lemma of_char_digit: "(k::nat) < 10 \<Longrightarrow> of_char (char_of (48 + k :: nat)) = (48 + int k)"
  using of_nat_of_char [of "char_of (48 + k :: nat)", where ?'a = int] by simp

lemma pad2_value: "(n::nat) < 100 \<Longrightarrow> (of_char (char_of (48 + n div 10 :: nat)) - 48) * 10 + (of_char (char_of (48 + n mod 10 :: nat)) - 48) = int n"
  by (simp add: of_char_digit zdiv_int zmod_int)

lemma pad2_digits: "(n::nat) < 100 \<Longrightarrow> is_digit (char_of (48 + n div 10)) \<and> is_digit (char_of (48 + n mod 10))"
  by (simp add: is_digit_char)

lemma days_below_32: "daysInMonth y m \<le> 31"
proof -
  have "month_length m \<le> 31"
  proof (cases "1 \<le> m \<and> m \<le> 12")
    case True
    have "MONTH_LENGTHS ! k \<le> 31" if "k < 12" for k
      using that by (rule below_all [rotated]) code_simp
    moreover have "nat (m - 1) < 12" using True by (simp add: nat_less_iff)
    ultimately show ?thesis by (simp add: month_length_def)
  qed (simp only: month_length_def if_False)
  then show ?thesis by (simp add: daysInMonth_def)
qed

lemma succ_div: "0 < (n::int) \<Longrightarrow> (a + 1) div n = a div n + (if (a + 1) mod n = 0 then 1 else 0)"
proof -
  assume n: "0 < n"
  define q where "q = a div n"
  define r where "r = a mod n"
  have a: "a = q * n + r" "0 \<le> r" "r < n" using n by (simp_all add: q_def r_def)
  show ?thesis
  proof (cases "r + 1 = n")
    case True
    then have "a + 1 = (q + 1) * n" using a by (simp add: algebra_simps)
    then have "(a + 1) div n = q + 1" "(a + 1) mod n = 0" using n by simp_all
    then show ?thesis by (simp add: q_def)
  next
    case False
    then have r: "0 \<le> r + 1" "r + 1 < n" using a by simp_all
    have "a + 1 = q * n + (r + 1)" using a by simp
    then have "(a + 1) div n = q" "(a + 1) mod n = r + 1"
      using int_div_pos_eq [of "a + 1" n q "r + 1"] int_mod_pos_eq [of "a + 1" n q "r + 1"] r by (simp_all add: mult.commute)
    then show ?thesis using r a(2) by (simp add: q_def)
  qed
qed

lemma year_length: "day_from_year (y + 1) = day_from_year y + 365 + (if y mod 4 = 0 \<and> (y mod 100 \<noteq> 0 \<or> y mod 400 = 0) then 1 else 0)"
proof -
  have m: "(y - k) mod n = 0 \<longleftrightarrow> y mod n = 0" if "n dvd k" for n k :: int
    using that by (metis dvd_diff_right_iff dvd_diff_left_iff mod_eq_0_iff_dvd)
  have four: "(y - 1968) div 4 = (y - 1969) div 4 + (if y mod 4 = 0 then 1 else 0)"
    using succ_div [of 4 "y - 1969"] m [of 4 1968] by simp
  have hundred: "(y - 1900) div 100 = (y - 1901) div 100 + (if y mod 100 = 0 then 1 else 0)"
    using succ_div [of 100 "y - 1901"] m [of 100 1900] by simp
  have four_hundred: "(y - 1600) div 400 = (y - 1601) div 400 + (if y mod 400 = 0 then 1 else 0)"
    using succ_div [of 400 "y - 1601"] m [of 400 1600] by simp
  have "y mod 400 = 0 \<Longrightarrow> y mod 100 = 0" "y mod 100 = 0 \<Longrightarrow> y mod 4 = 0"
    using dvd_trans [of 100 400 y] dvd_trans [of 4 100 y] by (simp_all add: mod_eq_0_iff_dvd)
  then have leaps: "(if y mod 4 = 0 then 1 else 0) - (if y mod 100 = 0 then 1 else 0) + (if y mod 400 = 0 then 1 else 0) =
      (if y mod 4 = 0 \<and> (y mod 100 \<noteq> 0 \<or> y mod 400 = 0) then 1 else 0 :: int)" 
    by (cases "y mod 4 = 0"; cases "y mod 100 = 0"; cases "y mod 400 = 0"; simp)
  have "day_from_year (y + 1) = 365 * (y - 1970) + 365 + (y - 1968) div 4 - (y - 1900) div 100 + (y - 1600) div 400"
    by (simp add: day_from_year_def)
  then show ?thesis unfolding four hundred four_hundred day_from_year_def using leaps by linarith
qed

lemma month_end: "1 \<le> m \<Longrightarrow> days_before_month y (m + 1) = days_before_month y m + daysInMonth y m"
  using upto_rec2 [of 1 m] by (simp add: days_before_month_def)

lemma year_days: "days_before_month y 13 = 365 + (if y mod 4 = 0 \<and> (y mod 100 \<noteq> 0 \<or> y mod 400 = 0) then 1 else 0)"
proof -
  have "[1..12] = [1, 2, 3, 4, 5, 6, 7, 8, 9, 10, 11, 12 :: int]" by code_simp
  then show ?thesis by (simp add: days_before_month_def daysInMonth_def month_length_def MONTH_LENGTHS_def)
qed

lemma next_day_is_next:
  assumes "1 \<le> m" "m \<le> 12" "1 \<le> d" "d \<le> daysInMonth y m" and "next_day y m d = (y', m', d')"
  shows "epoch_day y' m' d' = epoch_day y m d + 1"
proof (cases "d < daysInMonth y m")
  case True
  then show ?thesis using assms by (auto simp: next_day_def epoch_day_def)
next
  case False
  then have d: "d = daysInMonth y m" using assms by simp
  show ?thesis
  proof (cases "m < 12")
    case True
    then show ?thesis using assms d month_end [of m y] by (auto simp: next_day_def epoch_day_def)
  next
    case False
    then have m: "m = 12" using assms by simp
    have "days_before_month (y + 1) 1 = 0" by (simp add: days_before_month_def)
    then show ?thesis using assms d m month_end [of 12 y] year_length [of y] year_days [of y]
      by (auto simp: next_day_def epoch_day_def)
  qed
qed

lemma two_digits:
  assumes "(n::nat) < 100"
  obtains a b where "pad2 n = [a, b]" "is_digit a" "is_digit b" "(of_char a - 48) * 10 + (of_char b - 48) = int n"
proof (rule that)
  show "pad2 n = [char_of (48 + n div 10), char_of (48 + n mod 10)]" by (simp only: pad2_def)
qed (use pad2_digits [OF assms] pad2_value [OF assms] in auto)

lemma iso_fields:
  fixes rest :: js_string
  assumes "y < 10000" "mo < 100" "d < 100" "h < 100" "mi < 100" "s < 100"
  defines "raw \<equiv> iso_text y mo d h mi s rest"
  shows "digits2 raw 0 = int (y div 100)" "digits2 raw 2 = int (y mod 100)" "digits2 raw 5 = int mo"
    "digits2 raw 8 = int d" "digits2 raw 11 = int h" "digits2 raw 14 = int mi" "digits2 raw 17 = int s"
    "drop 19 raw = rest" "date_part raw" "raw ! 10 = CHR ''T''"
proof -
  have two: "y div 100 < 100" "y mod 100 < 100" using assms(1) by (simp_all add: less_mult_imp_div_less)
  obtain a1 b1 where 1: "pad2 (y div 100) = [a1, b1]" "is_digit a1" "is_digit b1" "(of_char a1 - 48) * 10 + (of_char b1 - 48) = int (y div 100)"
    using two_digits [OF two(1)] .
  obtain a2 b2 where 2: "pad2 (y mod 100) = [a2, b2]" "is_digit a2" "is_digit b2" "(of_char a2 - 48) * 10 + (of_char b2 - 48) = int (y mod 100)"
    using two_digits [OF two(2)] .
  obtain a3 b3 where 3: "pad2 mo = [a3, b3]" "is_digit a3" "is_digit b3" "(of_char a3 - 48) * 10 + (of_char b3 - 48) = int mo"
    using two_digits [OF assms(2)] .
  obtain a4 b4 where 4: "pad2 d = [a4, b4]" "is_digit a4" "is_digit b4" "(of_char a4 - 48) * 10 + (of_char b4 - 48) = int d"
    using two_digits [OF assms(3)] .
  obtain a5 b5 where 5: "pad2 h = [a5, b5]" "is_digit a5" "is_digit b5" "(of_char a5 - 48) * 10 + (of_char b5 - 48) = int h"
    using two_digits [OF assms(4)] .
  obtain a6 b6 where 6: "pad2 mi = [a6, b6]" "is_digit a6" "is_digit b6" "(of_char a6 - 48) * 10 + (of_char b6 - 48) = int mi"
    using two_digits [OF assms(5)] .
  obtain a7 b7 where 7: "pad2 s = [a7, b7]" "is_digit a7" "is_digit b7" "(of_char a7 - 48) * 10 + (of_char b7 - 48) = int s"
    using two_digits [OF assms(6)] .
  have raw: "raw = [a1, b1, a2, b2, CHR ''-'', a3, b3, CHR ''-'', a4, b4, CHR ''T'', a5, b5, CHR '':'', a6, b6, CHR '':'', a7, b7] @ rest"
    unfolding raw_def iso_text_def 1(1) 2(1) 3(1) 4(1) 5(1) 6(1) 7(1) by simp
  show "digits2 raw 0 = int (y div 100)" "digits2 raw 2 = int (y mod 100)" "digits2 raw 5 = int mo"
    "digits2 raw 8 = int d" "digits2 raw 11 = int h" "digits2 raw 14 = int mi" "digits2 raw 17 = int s"
    unfolding 1(4) [symmetric] 2(4) [symmetric] 3(4) [symmetric] 4(4) [symmetric] 5(4) [symmetric] 6(4) [symmetric] 7(4) [symmetric]
    by (simp_all add: raw digits2_def digit_at_def)
  show "drop 19 raw = rest" "raw ! 10 = CHR ''T''" by (simp_all add: raw)
  show "date_part raw"
    using 1(2,3) 2(2,3) 3(2,3) 4(2,3) 5(2,3) 6(2,3) 7(2,3) by (simp add: date_part_def raw)
qed

lemma offset_parts:
  assumes "sign \<in> set ''+-''" "oh < 100" "om < 100"
  shows "fraction_part (offset_text sign oh om) = (None, offset_text sign oh om)"
    "zone_ok (offset_text sign oh om)" "fits_pattern ''dd:dd'' (tl (offset_text sign oh om))"
    "digits2 (offset_text sign oh om) 1 = int oh" "digits2 (offset_text sign oh om) 4 = int om"
    "hd (offset_text sign oh om) = sign" "offset_text sign oh om \<noteq> ''Z''" "offset_text sign oh om \<noteq> []"
  using assms pad2_digits [OF assms(2)] pad2_digits [OF assms(3)] pad2_value [OF assms(2)] pad2_value [OF assms(3)]
  by (auto simp: offset_text_def pad2_def fraction_part_def digits2_def digit_at_def)

lemma seconds_of_millis: "((x * 60 - 0) * 60000 + s * 1000 + 0) div 1000 = x * 3600 + (s :: int)"
  by simp

text \<open>
  C40: The time stamps the bridge prints are read as the instants the calendar gives them. For every real
  date and time of day of the years 0 to 9999, in UTC or with an offset, the parsed seconds are the days since
  1970-01-01 times 86400 plus the time of day less the offset, where the day count grows by exactly one
  from each day to the next through month ends and leap years; and a day its month does not have, or an
  hour past 23, is refused whatever \<open>Date.parse\<close> would roll it forward to.
\<close>

theorem timestamps_follow_the_calendar:
  "(real_date y mo d \<and> h < 24 \<and> mi < 60 \<and> s < 60 \<longrightarrow>
      parseRfc3339Seconds other (iso_text y mo d h mi s ''Z'') =
        Some (epoch_day (int y) (int mo) (int d) * 86400 + int h * 3600 + int mi * 60 + int s)) \<and>
   (real_date y mo d \<and> h < 24 \<and> mi < 60 \<and> s < 60 \<and> sign \<in> set ''+-'' \<and> oh < 24 \<and> om < 60 \<longrightarrow>
      parseRfc3339Seconds other (iso_text y mo d h mi s (offset_text sign oh om)) =
        Some (epoch_day (int y) (int mo) (int d) * 86400 + int h * 3600 + int mi * 60 + int s -
          (if sign = CHR ''-'' then - 1 else 1) * (int oh * 3600 + int om * 60))) \<and>
   (y < 10000 \<and> mo < 100 \<and> d < 100 \<and> h < 100 \<and> mi < 100 \<and> s < 100 \<and>
      (int d > daysInMonth (int y) (int mo) \<or> 23 < h) \<longrightarrow>
      parseRfc3339Seconds other (iso_text y mo d h mi s rest) = None) \<and>
   (1 \<le> m \<and> m \<le> 12 \<and> 1 \<le> k \<and> k \<le> daysInMonth x m \<and> next_day x m k = (x', m', k') \<longrightarrow>
      epoch_day x' m' k' = epoch_day x m k + 1) \<and>
   epoch_day 1970 1 1 = 0"
proof (intro conjI)
  have "y div 100 * 100 + y mod 100 = y" by simp
  then have year: "int (y div 100) * 100 + int (y mod 100) = int y" by linarith
  have day: "d < 100 \<and> d \<le> 31" if "real_date y mo d"
    using that days_below_32 [of "int y" "int mo"] by (simp add: real_date_def)
  show "real_date y mo d \<and> h < 24 \<and> mi < 60 \<and> s < 60 \<longrightarrow>
      parseRfc3339Seconds other (iso_text y mo d h mi s ''Z'') =
        Some (epoch_day (int y) (int mo) (int d) * 86400 + int h * 3600 + int mi * 60 + int s)"
  proof
    assume a: "real_date y mo d \<and> h < 24 \<and> mi < 60 \<and> s < 60"
    then have b: "y < 10000" "mo < 100" "d < 100" "h < 100" "mi < 100" "s < 100" using day by (auto simp: real_date_def)
    note f = iso_fields [OF b, of "''Z''"]
    have iso: "iso_format (iso_text y mo d h mi s ''Z'')" "RFC_3339 (iso_text y mo d h mi s ''Z'')"
      using f(8-10) by (simp_all add: iso_format_def RFC_3339_def fraction_part_def)
    have "iso_instant (iso_text y mo d h mi s ''Z'') =
        Some (((epoch_day (int y) (int mo) (int d) * 24 + int h) * 60 + int mi) * 60000 + int s * 1000)"
      unfolding iso_instant_def f(1-8) year using a day
      by (simp add: fraction_part_def zone_offset_def millis_def real_date_def)
    then show "parseRfc3339Seconds other (iso_text y mo d h mi s ''Z'') =
        Some (epoch_day (int y) (int mo) (int d) * 86400 + int h * 3600 + int mi * 60 + int s)"
      unfolding parseRfc3339Seconds_def f(1-8) year using a iso
      by (simp add: date_parse_def real_date_def Let_def)
  qed
  show "real_date y mo d \<and> h < 24 \<and> mi < 60 \<and> s < 60 \<and> sign \<in> set ''+-'' \<and> oh < 24 \<and> om < 60 \<longrightarrow>
      parseRfc3339Seconds other (iso_text y mo d h mi s (offset_text sign oh om)) =
        Some (epoch_day (int y) (int mo) (int d) * 86400 + int h * 3600 + int mi * 60 + int s -
          (if sign = CHR ''-'' then - 1 else 1) * (int oh * 3600 + int om * 60))"
  proof
    assume a: "real_date y mo d \<and> h < 24 \<and> mi < 60 \<and> s < 60 \<and> sign \<in> set ''+-'' \<and> oh < 24 \<and> om < 60"
    then have b: "y < 10000" "mo < 100" "d < 100" "h < 100" "mi < 100" "s < 100" using day by (auto simp: real_date_def)
    define zone where "zone = offset_text sign oh om"
    note f = iso_fields [OF b, of zone]
    have oo: "sign \<in> set ''+-''" "oh < 100" "om < 100" using a by auto
    note o' = offset_parts [OF oo, folded zone_def]
    have iso: "iso_format (iso_text y mo d h mi s zone)" "RFC_3339 (iso_text y mo d h mi s zone)"
      using f(8-10) o' oo(1) by (simp_all add: iso_format_def RFC_3339_def)
    define off where "off = (if sign = CHR ''-'' then - 1 else 1) * (int oh * 60 + int om)"
    have zo: "zone_offset zone = Some off"
      using a o' by (simp add: zone_offset_def off_def)
    have "iso_instant (iso_text y mo d h mi s zone) =
        Some (((epoch_day (int y) (int mo) (int d) * 24 + int h) * 60 + int mi - off) * 60000 + int s * 1000)"
      unfolding iso_instant_def f(1-8) year o'(1) using a day zo
      by (simp add: millis_def real_date_def)
    then show "parseRfc3339Seconds other (iso_text y mo d h mi s (offset_text sign oh om)) =
        Some (epoch_day (int y) (int mo) (int d) * 86400 + int h * 3600 + int mi * 60 + int s -
          (if sign = CHR ''-'' then - 1 else 1) * (int oh * 3600 + int om * 60))"
      unfolding parseRfc3339Seconds_def zone_def [symmetric] f(1-8) year using a iso
      by (simp add: date_parse_def real_date_def Let_def off_def)
  qed
  show "y < 10000 \<and> mo < 100 \<and> d < 100 \<and> h < 100 \<and> mi < 100 \<and> s < 100 \<and>
      (int d > daysInMonth (int y) (int mo) \<or> 23 < h) \<longrightarrow>
      parseRfc3339Seconds other (iso_text y mo d h mi s rest) = None"
  proof
    assume a: "y < 10000 \<and> mo < 100 \<and> d < 100 \<and> h < 100 \<and> mi < 100 \<and> s < 100 \<and>
      (int d > daysInMonth (int y) (int mo) \<or> 23 < h)"
    then have b: "y < 10000" "mo < 100" "d < 100" "h < 100" "mi < 100" "s < 100" by auto
    show "parseRfc3339Seconds other (iso_text y mo d h mi s rest) = None"
      unfolding parseRfc3339Seconds_def iso_fields [OF b] year Let_def using a by auto
  qed
  show "1 \<le> m \<and> m \<le> 12 \<and> 1 \<le> k \<and> k \<le> daysInMonth x m \<and> next_day x m k = (x', m', k') \<longrightarrow>
      epoch_day x' m' k' = epoch_day x m k + 1"
    using next_day_is_next [of m k x x' m' k'] by blast
  show "epoch_day 1970 1 1 = 0" by (simp add: epoch_day_def day_from_year_def days_before_month_def)
qed

theorem timestamps_follow_the_calendar_witness:
  "parseRfc3339Seconds (\<lambda>s. None) ''2024-02-29T12:00:00Z'' = Some (epoch_day 2024 2 29 * 86400 + 43200) \<and>
   parseRfc3339Seconds (\<lambda>s. None) ''1970-01-01T05:30:00+05:30'' = Some 0 \<and>
   parseRfc3339Seconds (\<lambda>s. Some 0) ''2023-02-29T12:00:00Z'' = None \<and>
   epoch_day 2024 3 1 = epoch_day 2024 2 29 + 1"
proof -
  have t: "iso_text 2024 2 29 12 0 0 ''Z'' = ''2024-02-29T12:00:00Z''"
    "iso_text 1970 1 1 5 30 0 (offset_text (CHR ''+'') 5 30) = ''1970-01-01T05:30:00+05:30''"
    "iso_text 2023 2 29 12 0 0 ''Z'' = ''2023-02-29T12:00:00Z''"
    by code_simp+
  have d: "daysInMonth 2024 2 = 29" "daysInMonth 2023 2 = 28" "daysInMonth 1970 1 = 31" "epoch_day 1970 1 1 = 0"
    by code_simp+
  show ?thesis
    using timestamps_follow_the_calendar [THEN conjunct1, rule_format, of 2024 2 29 12 0 0 "\<lambda>s. None"]
      timestamps_follow_the_calendar [THEN conjunct2, THEN conjunct1, rule_format, of 1970 1 1 5 30 0 "CHR ''+''" 5 30 "\<lambda>s. None"]
      timestamps_follow_the_calendar [THEN conjunct2, THEN conjunct2, THEN conjunct1, rule_format, of 2023 2 29 12 0 0 "\<lambda>s. Some 0" "''Z''"]
      timestamps_follow_the_calendar [THEN conjunct2, THEN conjunct2, THEN conjunct2, THEN conjunct1, rule_format, of 2 29 2024 2024 3 1]
    unfolding t by (simp add: real_date_def d next_day_def)
qed

end
