(* ===== verification/BridgeSchema.thy ===== *)
theory BridgeSchema
  imports CanonicalTypes Timestamps HistorySync
begin

text \<open>
  The adapter table of \<open>src/src/Bridge/schema.ts\<close>, one definition per entry, and the mapping of reachout
  time locks it calls (\<open>src/src/Compatibility/reachout.ts\<close>). A dropped event is \<open>None\<close>. An event object keeps the
  fields in the order they are written, those that hold \<open>undefined\<close> included. Diagnostics go to the
  logger only and are left out.
\<close>

text \<open>
  What the adapters take from the engine: the clock in milliseconds, the dates outside the format
  ECMAScript fixes, and the text of the numbers this model does not keep digits of (fractions, and
  integers from \<open>10 ^ 21\<close> on).
\<close>

record js_runtime =
  js_now :: int
  js_date_parse :: "js_string \<Rightarrow> int option"
  js_number_text :: "jv \<Rightarrow> js_string"

fun number_text :: "js_runtime \<Rightarrow> jv \<Rightarrow> js_string" where
  "number_text rt (VNum n) = (if \<bar>n\<bar> < 10 ^ 21 then show_int n else js_number_text rt (VNum n))"
| "number_text rt (VNonInt (Fraction f)) = js_number_text rt (VNonInt (Fraction f))"
| "number_text rt v = template v"

definition seconds :: "js_runtime \<Rightarrow> jv \<Rightarrow> jv option" where
  "seconds rt x = asUnixSeconds (js_date_parse rt) x"

definition onum :: "jv option \<Rightarrow> jv" where
  "onum o1 = (case o1 of None \<Rightarrow> VUndef | Some v \<Rightarrow> v)"

definition onum_or :: "jv option \<Rightarrow> int \<Rightarrow> jv" where
  "onum_or o1 n = (case o1 of None \<Rightarrow> VNum n | Some v \<Rightarrow> v)"

definition ostr_or :: "js_string option \<Rightarrow> js_string \<Rightarrow> jv" where
  "ostr_or o1 s = VStr (case o1 of None \<Rightarrow> s | Some t \<Rightarrow> t)"

definition first_some :: "'a option \<Rightarrow> 'a option \<Rightarrow> 'a option" where
  "first_some a b = (case a of None \<Rightarrow> b | Some x \<Rightarrow> Some x)"

definition vstrs :: "js_string list \<Rightarrow> jv" where
  "vstrs xs = VArr (map VStr xs)"

fun to_int :: "jv option \<Rightarrow> int option" where
  "to_int (Some (VNum n)) = Some n"
| "to_int _ = None"

subsection \<open>Discriminators\<close>

text \<open>\<open>toLowerCase\<close> on the characters of a byte: ASCII and the Latin-1 capitals.\<close>

definition lower_char :: "char \<Rightarrow> char" where
  "lower_char c =
     (let n = of_char c :: nat in
      if (65 \<le> n \<and> n \<le> 90) \<or> (192 \<le> n \<and> n \<le> 222 \<and> n \<noteq> 215) then char_of (n + 32) else c)"

definition normalizeDiscriminator :: "jv \<Rightarrow> js_string option" where
  "normalizeDiscriminator x =
     (case asString x of None \<Rightarrow> None | Some s \<Rightarrow> if s = [] then None else Some (map lower_char s))"

subsection \<open>Shared readings\<close>

definition obj_or_undefined :: "jv \<Rightarrow> jv" where
  "obj_or_undefined x = (if isObject x then x else VUndef)"

definition extractAction :: "jv \<Rightarrow> jv" where
  "extractAction data = obj_or_undefined (jprop data ''action'')"

definition resolveIsGroup :: "jv \<Rightarrow> js_string \<Rightarrow> bool" where
  "resolveIsGroup wireValue chatJid \<longleftrightarrow> asBoolOr wireValue False \<or> isJidGroup (Some chatJid)"

definition resolveParticipantAlt :: "js_string option \<Rightarrow> bool \<Rightarrow> js_string option" where
  "resolveParticipantAlt senderAlt isGroup = (if isGroup then senderAlt else None)"

definition resolveRemoteJidAlt :: "js_string option \<Rightarrow> js_string option \<Rightarrow> bool \<Rightarrow> bool \<Rightarrow> js_string option" where
  "resolveRemoteJidAlt senderAlt recipientAlt isGroup isFromMe =
     (if isGroup then None else if isFromMe then recipientAlt else senderAlt)"

definition parseEditAttribute :: "jv \<Rightarrow> jv" where
  "parseEditAttribute x = (if x \<in> set (map VStr [''1'', ''2'', ''3'', ''7'', ''8'']) then x else VUndef)"

text \<open>\<open>typeof x === 'string' ? x : asJidString(x)\<close>\<close>

definition string_or_jid :: "jv \<Rightarrow> js_string option" where
  "string_or_jid x = (if is_string x then str_opt x else asJidString x)"

definition noop :: "js_string \<Rightarrow> obj option" where
  "noop t = Some [(''type'', VStr ''noop''), (''bridgeType'', VStr t)]"

definition noop_with :: "js_string \<Rightarrow> jv \<Rightarrow> obj option" where
  "noop_with t d = Some [(''type'', VStr ''noop''), (''bridgeType'', VStr t), (''detail'', d)]"

definition bare :: "js_string \<Rightarrow> obj option" where
  "bare t = Some [(''type'', VStr t)]"

text \<open>\<open>x === true ? true : undefined\<close>\<close>

definition true_or_undefined :: "bool \<Rightarrow> jv" where
  "true_or_undefined b = (if b then VBool True else VUndef)"

subsection \<open>Connection lifecycle\<close>

definition temporary_ban :: "js_runtime \<Rightarrow> jv \<Rightarrow> obj option" where
  "temporary_ban rt data =
     Some [(''type'', VStr ''temporaryBan''), (''code'', onum (asNumber (jprop data ''code''))),
       (''expire'', onum (map_option VNum
          (absoluteFromDuration (js_now rt) (to_int (asDurationSeconds (jprop data ''expire''))))))]"

definition logged_out :: "jv \<Rightarrow> obj option" where
  "logged_out data =
     Some [(''type'', VStr ''loggedOut''), (''onConnect'', VBool (asBoolOr (jprop data ''on_connect'') False)),
       (''reason'', opt_val (asString (jprop data ''reason'')))]"

definition qr :: "jv \<Rightarrow> obj option" where
  "qr data =
     (if truthy (jprop data ''code'') then Some [(''type'', VStr ''qr''), (''code'', jprop data ''code'')] else None)"

definition pairing_code_refresh :: "jv \<Rightarrow> obj option" where
  "pairing_code_refresh data =
     noop_with ''pairing_code_refresh''
       (VStr (if truthy (jprop data ''force_manual'') then ''force_manual'' else ''automatic''))"

definition pair_passkey_confirmation :: "jv \<Rightarrow> obj option" where
  "pair_passkey_confirmation data =
     noop_with ''pair_passkey_confirmation''
       (VStr (if truthy (jprop data ''skip_handoff_ux'') then ''handoff_verified'' else ''confirmation_required''))"

definition pair_passkey_error :: "jv \<Rightarrow> obj option" where
  "pair_passkey_error data = noop_with ''pair_passkey_error'' (opt_val (asString (jprop data ''error'')))"

definition pair_success :: "jv \<Rightarrow> obj option" where
  "pair_success data =
     (let i = string_or_jid (jprop data ''id'') in
      if \<not> nonempty i then None
      else Some [(''type'', VStr ''pairSuccess''), (''id'', VStr (the i)),
        (''lid'', opt_val (string_or_jid (jprop data ''lid''))),
        (''platform'', opt_val (asString (jprop data ''platform''))),
        (''businessName'', opt_val (asString (jprop data ''business_name'')))])"

definition pair_error :: "jv \<Rightarrow> obj option" where
  "pair_error data =
     Some [(''type'', VStr ''pairError''),
       (''error'', ostr_or (asString (jprop data ''error'')) ''Unknown pairing error''),
       (''id'', opt_val (string_or_jid (jprop data ''id''))),
       (''lid'', opt_val (string_or_jid (jprop data ''lid''))),
       (''businessName'', opt_val (asString (jprop data ''business_name''))),
       (''platform'', opt_val (asString (jprop data ''platform'')))]"

definition connect_failure :: "jv \<Rightarrow> obj option" where
  "connect_failure data =
     (if isObject data
      then Some [(''type'', VStr ''connectFailure''), (''message'', opt_val (asString (jprop data ''message''))),
             (''reason'', onum (asNumber (jprop data ''reason'')))]
      else Some [(''type'', VStr ''connectFailure'')])"

definition stream_error :: "jv \<Rightarrow> obj option" where
  "stream_error data =
     Some [(''type'', VStr ''streamError''), (''code'', ostr_or (asString (jprop data ''code'')) ''unknown'')]"

definition pairing_code_error :: "jv \<Rightarrow> obj option" where
  "pairing_code_error data =
     Some [(''type'', VStr ''pairError''),
       (''error'', ostr_or (asString (jprop data ''error'')) ''pairing code rejected''),
       (''rejection'', onum (asNumber (jprop data ''rejection''))),
       (''backoff'', onum (asNumber (jprop data ''backoff'')))]"

definition server_ack :: "js_runtime \<Rightarrow> jv \<Rightarrow> obj option" where
  "server_ack rt data =
     (let i = asString (jprop data ''id'') in
      if \<not> nonempty i then None
      else Some [(''type'', VStr ''serverAck''), (''id'', VStr (the i)),
        (''class'', opt_val (asString (jprop data ''class''))),
        (''from'', opt_val (asJidString (jprop data ''from''))),
        (''timestamp'', onum (seconds rt (jprop data ''timestamp''))),
        (''error'', opt_val (asString (jprop data ''error'')))])"

subsection \<open>Messages and receipts\<close>

definition adaptMessageParts :: "js_runtime \<Rightarrow> jv \<Rightarrow> jv \<Rightarrow> obj option" where
  "adaptMessageParts rt info messageProto =
     (let src = obj_or_undefined (jprop info ''source'');
          chat = asJidString (jprop src ''chat'');
          i = asString (jprop info ''id'')
      in if src = VUndef \<or> \<not> nonempty chat \<or> \<not> nonempty i then None
      else
        let isGroup = resolveIsGroup (jprop src ''is_group'') (the chat);
            isFromMe = asBoolOr (jprop src ''is_from_me'') False;
            senderJid = (if isGroup then asJidString (jprop src ''sender'') else None);
            senderAlt = asJidString (jprop src ''sender_alt'');
            recipientAlt = asJidString (jprop src ''recipient_alt'')
        in case seconds rt (jprop info ''timestamp'') of
             None \<Rightarrow> None
           | Some timestamp \<Rightarrow>
               Some [(''type'', VStr ''message''), (''chatJid'', VStr (the chat)), (''senderJid'', opt_val senderJid),
                 (''isGroup'', VBool isGroup), (''isFromMe'', VBool isFromMe), (''id'', VStr (the i)), (''timestamp'', timestamp),
                 (''serverId'', opt_val (first_some (asString (jprop info ''newsletter_server_id''))
                    (map_option (number_text rt) (asNumber (jprop info ''newsletter_server_id''))))),
                 (''pushName'', opt_val (asString (jprop info ''push_name''))),
                 (''participantAlt'', opt_val (resolveParticipantAlt senderAlt isGroup)),
                 (''remoteJidAlt'', opt_val (resolveRemoteJidAlt senderAlt recipientAlt isGroup isFromMe)),
                 (''isViewOnce'', true_or_undefined (jprop info ''is_view_once'' = VBool True)),
                 (''isOffline'', true_or_undefined (asBoolOr (jprop info ''is_offline'') False)),
                 (''unavailableRequestId'', opt_val (asString (jprop info ''unavailable_request_id''))),
                 (''editAttribute'', parseEditAttribute (jprop info ''edit'')), (''messageProto'', messageProto)])"

definition adaptMessage :: "js_runtime \<Rightarrow> jv \<Rightarrow> obj option" where
  "adaptMessage rt data =
     (if \<not> isObject data then None
      else
        let info = obj_or_undefined (jprop data ''info''); messageProto = obj_or_undefined (jprop data ''message'')
        in if info = VUndef \<or> messageProto = VUndef then None else adaptMessageParts rt info messageProto)"

definition adaptBridgeMessageWire :: "js_runtime \<Rightarrow> jv \<Rightarrow> jv \<Rightarrow> obj option" where
  "adaptBridgeMessageWire rt messageProto info =
     (if \<not> isObject messageProto then None
      else
        let chat = asString (jprop info ''chat''); i = asString (jprop info ''id'')
        in if \<not> nonempty chat \<or> \<not> nonempty i then None
        else
          let isGroup = resolveIsGroup (jprop info ''isGroup'') (the chat);
              isFromMe = asBoolOr (jprop info ''isFromMe'') False;
              senderAlt = asString (jprop info ''senderAlt'');
              recipientAlt = asString (jprop info ''recipientAlt'')
          in case asNumber (jprop info ''timestamp'') of
               None \<Rightarrow> None
             | Some timestamp \<Rightarrow>
                 Some [(''type'', VStr ''message''), (''chatJid'', VStr (the chat)),
                   (''senderJid'', opt_val (if isGroup then asString (jprop info ''sender'') else None)),
                   (''isGroup'', VBool isGroup), (''isFromMe'', VBool isFromMe), (''id'', VStr (the i)), (''timestamp'', timestamp),
                   (''pushName'', opt_val (asString (jprop info ''pushName''))),
                   (''participantAlt'', opt_val (resolveParticipantAlt senderAlt isGroup)),
                   (''remoteJidAlt'', opt_val (resolveRemoteJidAlt senderAlt recipientAlt isGroup isFromMe)),
                   (''isViewOnce'', true_or_undefined (jprop info ''isViewOnce'' = VBool True)),
                   (''isOffline'', true_or_undefined (jprop info ''isOffline'' = VBool True)),
                   (''unavailableRequestId'', opt_val (asString (jprop info ''unavailableRequestId''))),
                   (''editAttribute'', parseEditAttribute (jprop info ''edit'')), (''messageProto'', messageProto)])"

definition undecryptable_message :: "js_runtime \<Rightarrow> jv \<Rightarrow> obj option" where
  "undecryptable_message rt data =
     (if \<not> isObject data then None
      else
        let info = obj_or_undefined (jprop data ''info'');
            src = obj_or_undefined (jprop info ''source'');
            chat = asJidString (jprop src ''chat'');
            i = asString (jprop info ''id'')
        in if info = VUndef \<or> src = VUndef \<or> \<not> nonempty chat \<or> \<not> nonempty i then None
        else
          let isGroup = resolveIsGroup (jprop src ''is_group'') (the chat);
              isFromMe = asBoolOr (jprop src ''is_from_me'') False;
              senderAlt = asJidString (jprop src ''sender_alt'');
              recipientAlt = asJidString (jprop src ''recipient_alt'')
          in case seconds rt (jprop info ''timestamp'') of
               None \<Rightarrow> None
             | Some timestamp \<Rightarrow>
                 Some [(''type'', VStr ''undecryptableMessage''), (''chatJid'', VStr (the chat)),
                   (''senderJid'', opt_val (if isGroup then asJidString (jprop src ''sender'') else None)),
                   (''id'', VStr (the i)), (''timestamp'', timestamp), (''isFromMe'', VBool isFromMe), (''isGroup'', VBool isGroup),
                   (''pushName'', opt_val (asString (jprop info ''push_name''))),
                   (''participantAlt'', opt_val (resolveParticipantAlt senderAlt isGroup)),
                   (''remoteJidAlt'', opt_val (resolveRemoteJidAlt senderAlt recipientAlt isGroup isFromMe)),
                   (''isUnavailable'', VBool (asBoolOr (jprop data ''is_unavailable'') False)),
                   (''unavailableType'', opt_val (asString (jprop data ''unavailable_type''))),
                   (''stanzaType'', opt_val (asString (jprop info ''type''))),
                   (''decryptFailMode'', opt_val (asString (jprop data ''decrypt_fail_mode''))), (''raw'', data)])"

definition RECEIPT_TYPE_MAP :: "(js_string \<times> js_string) list" where
  "RECEIPT_TYPE_MAP =
     [(''Delivered'', ''delivered''), (''Sent'', ''sent''), (''Sender'', ''sender''), (''Retry'', ''retry''),
      (''EncRekeyRetry'', ''enc-rekey-retry''), (''Read'', ''read''), (''ReadSelf'', ''read-self''), (''Played'', ''played''),
      (''PlayedSelf'', ''played-self''), (''Inactive'', ''inactive''), (''PeerMsg'', ''peer-msg''), (''HistorySync'', ''history-sync''),
      (''ServerError'', ''server-error''), (''delivered'', ''delivered''), (''sent'', ''sent''), (''sender'', ''sender''),
      (''retry'', ''retry''), (''enc_rekey_retry'', ''enc-rekey-retry''), (''read'', ''read''), (''read_self'', ''read-self''),
      (''played'', ''played''), (''played_self'', ''played-self''), (''inactive'', ''inactive''), (''peer_msg'', ''peer-msg''),
      (''history_sync'', ''history-sync''), (''server_error'', ''server-error'')]"

definition parseReceiptType :: "jv \<Rightarrow> js_string option \<times> js_string option" where
  "parseReceiptType raw =
     (if isObject raw \<and> is_string (jprop raw ''Other'') then (Some ''other'', str_opt (jprop raw ''Other''))
      else
        let norm = (if is_string raw then str_opt raw
              else if isObject raw \<and> is_string (jprop raw ''type'') then str_opt (jprop raw ''type'') else None)
        in case norm of
             None \<Rightarrow> (None, None)
           | Some n \<Rightarrow>
               (case map_of RECEIPT_TYPE_MAP n of Some mapped \<Rightarrow> (Some mapped, None) | None \<Rightarrow> (Some ''other'', Some n)))"

definition adaptReceipt :: "js_runtime \<Rightarrow> jv \<Rightarrow> obj option" where
  "adaptReceipt rt data =
     (if \<not> isObject data then None
      else
        let src = obj_or_undefined (jprop data ''source'');
            chat = asJidString (jprop src ''chat'');
            ids = asStringArray (jprop data ''message_ids'')
        in if src = VUndef \<or> \<not> nonempty chat \<or> ids = [] then None
        else
          let isGroup = resolveIsGroup (jprop src ''is_group'') (the chat);
              (receiptType, receiptTypeRaw) = parseReceiptType (jprop data ''type'')
          in case seconds rt (jprop data ''timestamp'') of
               None \<Rightarrow> None
             | Some timestamp \<Rightarrow>
                 Some ([(''type'', VStr ''receipt''), (''chatJid'', VStr (the chat)),
                   (''senderJid'', opt_val (if isGroup then asJidString (jprop src ''sender'') else None)),
                   (''isGroup'', VBool isGroup), (''isFromMe'', VBool (asBoolOr (jprop src ''is_from_me'') False)),
                   (''messageIds'', vstrs ids), (''timestamp'', timestamp), (''receiptType'', opt_val receiptType)] @
                   (case receiptTypeRaw of None \<Rightarrow> [] | Some r \<Rightarrow> [(''receiptTypeRaw'', VStr r)])))"

subsection \<open>Contacts and presence\<close>

definition adaptContactUpdate :: "jv \<Rightarrow> obj option" where
  "adaptContactUpdate data =
     (if \<not> isObject data then None
      else
        let i = asJidString (jprop data ''jid''); action = obj_or_undefined (jprop data ''action'');
            either = (\<lambda>a b. opt_val (first_some (asString (jprop action a)) (asString (jprop action b))))
        in if \<not> nonempty i then None
        else Some [(''type'', VStr ''contactUpdate''), (''jid'', VStr (the i)),
          (''fullName'', either ''fullName'' ''full_name''), (''firstName'', either ''firstName'' ''first_name''),
          (''lidJid'', either ''lidJid'' ''lid_jid''), (''pnJid'', either ''pnJid'' ''pn_jid''),
          (''username'', opt_val (asString (jprop action ''username'')))])"

text \<open>\<open>const jid = asJidString(data?.k); if (!jid) return null\<close>, then the event.\<close>

definition with_jid :: "js_string \<Rightarrow> jv \<Rightarrow> (js_string \<Rightarrow> obj) \<Rightarrow> obj option" where
  "with_jid k data f =
     (let i = asJidString (jprop data k) in if \<not> nonempty i then None else Some (f (the i)))"

definition picture_update :: "jv \<Rightarrow> obj option" where
  "picture_update data = with_jid ''jid'' data (\<lambda>jid.
     [(''type'', VStr ''pictureUpdate''), (''jid'', VStr jid), (''removed'', VBool (asBoolOr (jprop data ''removed'') False)),
      (''author'', opt_val (asJidString (jprop data ''author''))),
      (''pictureId'', opt_val (asString (jprop data ''picture_id'')))])"

definition presence :: "js_runtime \<Rightarrow> jv \<Rightarrow> obj option" where
  "presence rt data =
     (let from = asJidString (jprop data ''from''); status = jprop data ''status'' in
      if \<not> nonempty from then None
      else if status \<noteq> VStr ''available'' \<and> status \<noteq> VStr ''unavailable'' then None
      else Some [(''type'', VStr ''presence''), (''from'', VStr (the from)), (''unavailable'', VBool (status = VStr ''unavailable'')),
        (''lastSeen'', onum (seconds rt (jprop data ''last_seen'')))])"

definition chat_presence :: "jv \<Rightarrow> obj option" where
  "chat_presence data =
     (let src = obj_or_undefined (jprop data ''source'');
          chat = asJidString (jprop src ''chat''); sender = asJidString (jprop src ''sender'');
          rawState = asString (jprop data ''state'')
      in if src = VUndef \<or> \<not> nonempty chat \<or> \<not> nonempty sender then None
      else if rawState \<notin> {Some ''typing'', Some ''recording_audio'', Some ''idle''} then None
      else Some [(''type'', VStr ''chatPresence''), (''chatJid'', VStr (the chat)), (''senderJid'', VStr (the sender)),
        (''state'', VStr (if rawState = Some ''idle'' then ''paused'' else ''composing'')),
        (''media'', if rawState = Some ''recording_audio'' then VStr ''audio'' else VUndef)])"

subsection \<open>Chat state and labels\<close>

definition archive_update :: "jv \<Rightarrow> obj option" where
  "archive_update data = with_jid ''jid'' data (\<lambda>jid.
     [(''type'', VStr ''archiveUpdate''), (''jid'', VStr jid),
      (''archived'', VBool (asBoolOr (jprop (extractAction data) ''archived'') True))])"

definition pin_update :: "js_runtime \<Rightarrow> jv \<Rightarrow> obj option" where
  "pin_update rt data = with_jid ''jid'' data (\<lambda>jid.
     [(''type'', VStr ''pinUpdate''), (''jid'', VStr jid), (''timestamp'', onum (seconds rt (jprop data ''timestamp''))),
      (''pinned'', VBool (asBoolOr (jprop (extractAction data) ''pinned'') True))])"

definition mute_update :: "js_runtime \<Rightarrow> jv \<Rightarrow> obj option" where
  "mute_update rt data = with_jid ''jid'' data (\<lambda>jid.
     let action = extractAction data in
     [(''type'', VStr ''muteUpdate''), (''jid'', VStr jid), (''timestamp'', onum (seconds rt (jprop data ''timestamp''))),
      (''muted'', VBool (asBoolOr (jprop action ''muted'') True)),
      (''muteEndTimestamp'', onum (map_option VNum
         (first_some (asInt64 (jprop action ''muteEndTimestamp'')) (asInt64 (jprop action ''mute_end_timestamp'')))))])"

definition adaptStarUpdate :: "jv \<Rightarrow> obj option" where
  "adaptStarUpdate data =
     (if \<not> isObject data then None
      else
        let chatJid = asJidString (jprop data ''chat_jid''); messageId = asString (jprop data ''message_id'')
        in if \<not> nonempty chatJid \<or> \<not> nonempty messageId then None
        else Some [(''type'', VStr ''starUpdate''), (''chatJid'', VStr (the chatJid)), (''messageId'', VStr (the messageId)),
          (''fromMe'', VBool (asBoolOr (jprop data ''from_me'') False)),
          (''participantJid'', opt_val (asJidString (jprop data ''participant_jid''))),
          (''starred'', VBool (asBoolOr (jprop (extractAction data) ''starred'') False))])"

definition mark_chat_as_read_update :: "jv \<Rightarrow> obj option" where
  "mark_chat_as_read_update data = with_jid ''jid'' data (\<lambda>jid.
     [(''type'', VStr ''markChatAsReadUpdate''), (''jid'', VStr jid),
      (''read'', VBool (asBoolOr (jprop (extractAction data) ''read'') True))])"

definition lock_chat_update :: "jv \<Rightarrow> obj option" where
  "lock_chat_update data = with_jid ''jid'' data (\<lambda>jid.
     [(''type'', VStr ''lockChatUpdate''), (''jid'', VStr jid),
      (''locked'', VBool (asBoolOr (jprop (extractAction data) ''locked'') True))])"

definition action_timestamp :: "jv \<Rightarrow> obj" where
  "action_timestamp data =
     (case asString (jprop data ''action_timestamp'') of None \<Rightarrow> [] | Some t \<Rightarrow> [(''actionTimestamp'', VStr t)])"

fun is_integer :: "jv option \<Rightarrow> bool" where
  "is_integer (Some (VNum n)) = True"
| "is_integer _ = False"

definition label_sublist_update :: "jv \<Rightarrow> obj option" where
  "label_sublist_update data =
     (let chatJid = asJidString (jprop data ''chat_jid'');
          predefinedId = asNumber (jprop data ''predefined_id'');
          change = jprop data ''change'';
          subListId = (if isObject change \<and> isObject (jprop change ''Upsert'')
            then asNumber (jprop (jprop change ''Upsert'') ''sub_list_id'') else None)
      in if \<not> nonempty chatJid \<or> \<not> is_integer predefinedId \<or> (change \<noteq> VStr ''Remove'' \<and> \<not> is_integer subListId) then None
      else Some ([(''type'', VStr ''labelSublist''), (''predefinedId'', onum predefinedId), (''chatJid'', VStr (the chatJid)),
             (''change'', VStr (if change = VStr ''Remove'' then ''remove'' else ''upsert''))] @
             (if change = VStr ''Remove'' then [] else [(''subListId'', onum subListId)]) @ action_timestamp data @
             [(''fromFullSync'', VBool (asBoolOr (jprop data ''from_full_sync'') False))]))"

definition label_edit_update :: "js_runtime \<Rightarrow> jv \<Rightarrow> obj option" where
  "label_edit_update rt data =
     (let labelId = asString (jprop data ''label_id''); action = extractAction data;
          predefined = first_some (asNumber (jprop action ''predefinedId'')) (asNumber (jprop action ''predefined_id''))
      in if \<not> nonempty labelId then noop ''label_edit_update''
      else Some ([(''type'', VStr ''labelEdit'')] @ action_timestamp data @
             [(''labelId'', VStr (the labelId)), (''name'', ostr_or (asString (jprop action ''name'')) []),
              (''color'', onum_or (asNumber (jprop action ''color'')) 0),
              (''deleted'', VBool (asBoolOr (jprop action ''deleted'') False)),
              (''predefinedId'', opt_val (map_option (number_text rt) predefined))]))"

definition label_association_update :: "jv \<Rightarrow> obj option" where
  "label_association_update data =
     (let labelId = asString (jprop data ''label_id''); chatJid = asJidString (jprop data ''chat_jid'') in
      if \<not> nonempty labelId \<or> \<not> nonempty chatJid then noop ''label_association_update''
      else Some ([(''type'', VStr ''labelAssociation'')] @ action_timestamp data @
             [(''labelId'', VStr (the labelId)), (''chatJid'', VStr (the chatJid)),
              (''labeled'', VBool (asBoolOr (jprop (extractAction data) ''labeled'') True))]))"

definition message_label_association_update :: "jv \<Rightarrow> obj option" where
  "message_label_association_update data =
     (let labelId = asString (jprop data ''label_id''); chatJid = asJidString (jprop data ''chat_jid'');
          messageId = asString (jprop data ''message_id'')
      in if \<not> nonempty labelId \<or> \<not> nonempty chatJid \<or> \<not> nonempty messageId then noop ''message_label_association_update''
      else Some ([(''type'', VStr ''labelAssociation'')] @ action_timestamp data @
             [(''labelId'', VStr (the labelId)), (''chatJid'', VStr (the chatJid)), (''messageId'', VStr (the messageId)),
              (''labeled'', VBool (asBoolOr (jprop (extractAction data) ''labeled'') True))]))"

subsection \<open>Settings and account state\<close>

definition app_state_sync_failed :: "jv \<Rightarrow> obj option" where
  "app_state_sync_failed data =
     Some [(''type'', VStr ''appStateSyncFailed''), (''fatal'', vstrs (asStringArray (jprop data ''fatal''))),
       (''retryable'', vstrs (asStringArray (jprop data ''retryable''))),
       (''skipped'', vstrs (asStringArray (jprop data ''skipped''))),
       (''connected'', VBool (asBoolOr (jprop data ''connected'') False))]"

definition disable_link_previews_update :: "jv \<Rightarrow> obj option" where
  "disable_link_previews_update data =
     (let action = extractAction data;
          disabled = (case asBool (jprop action ''isPreviewsDisabled'') of
              Some b \<Rightarrow> b | None \<Rightarrow> asBoolOr (jprop data ''previews_disabled'') False)
      in Some [(''type'', VStr ''settingUpdate''), (''setting'', VStr ''disableLinkPreviews''),
           (''value'', VObj (omap_set ''isPreviewsDisabled'' (VBool disabled) (fields_of action)))])"

definition status_privacy_update :: "jv \<Rightarrow> obj option" where
  "status_privacy_update data =
     (if isObject (jprop data ''action'')
      then Some [(''type'', VStr ''settingUpdate''), (''setting'', VStr ''statusPrivacy''), (''value'', jprop data ''action'')]
      else None)"

definition unarchive_chats_setting_update :: "jv \<Rightarrow> obj option" where
  "unarchive_chats_setting_update data =
     (case asBool (jprop data ''unarchive_chats'') of
        None \<Rightarrow> None
      | Some b \<Rightarrow> Some [(''type'', VStr ''unarchiveChatsSetting''), (''unarchiveChats'', VBool b)])"

text \<open>\<open>value && typeof value === 'object'\<close>: an array is an object here.\<close>

fun is_js_object :: "jv \<Rightarrow> bool" where
  "is_js_object (VObj m) = True"
| "is_js_object (VArr xs) = True"
| "is_js_object (VToNumber r) = True"
| "is_js_object _ = False"

definition reachout_keys :: "js_string list" where
  "reachout_keys = [''xwa2_fetch_account_reachout_timelock'', ''xwa2_notify_account_reachout_timelock'']"

fun reachout_nested :: "jv \<Rightarrow> js_string list \<Rightarrow> jv option" where
  "reachout_nested v [] = None"
| "reachout_nested v (key # keys) =
     (if is_js_object (jprop v key) then Some (jprop v key)
      else if is_js_object (jprop (jprop v ''data'') key) then Some (jprop (jprop v ''data'') key)
      else reachout_nested v keys)"

definition extractReachoutPayload :: "jv \<Rightarrow> jv option" where
  "extractReachoutPayload v =
     (if \<not> is_js_object v then None
      else case reachout_nested v reachout_keys of
        Some wire \<Rightarrow> Some wire
      | None \<Rightarrow>
          (if has_own (fields_of v) ''is_active'' \<or> has_own (fields_of v) ''time_enforcement_ends'' \<or>
              has_own (fields_of v) ''enforcement_type''
           then Some v else None))"

text \<open>A \<open>Date\<close> holds at most \<open>8.64e15\<close> milliseconds; beyond that its time value is NaN.\<close>

definition reachout_end :: "jv \<Rightarrow> obj" where
  "reachout_end x =
     (case x of
        VStr s \<Rightarrow>
          (if s \<noteq> [] \<and> list_all is_digit s \<and> 0 < digits_val s \<and> int (digits_val s) * 1000 \<le> 8640000000000000
           then [(''timeEnforcementEnds'', date_object (int (digits_val s) * 1000))] else [])
      | _ \<Rightarrow> [])"

definition mapReachoutTimelock :: "jv \<Rightarrow> obj option" where
  "mapReachoutTimelock v =
     (case extractReachoutPayload v of
        None \<Rightarrow> None
      | Some wire \<Rightarrow>
          Some ((case asBool (jprop wire ''is_active'') of None \<Rightarrow> [] | Some b \<Rightarrow> [(''isActive'', VBool b)]) @
            reachout_end (jprop wire ''time_enforcement_ends'') @
            (if is_string (jprop wire ''enforcement_type'') \<and> truthy (jprop wire ''enforcement_type'')
             then [(''enforcementType'', jprop wire ''enforcement_type'')] else [])))"

definition reachout_timelock_update :: "jv \<Rightarrow> obj option" where
  "reachout_timelock_update data =
     (case mapReachoutTimelock (jprop data ''state'') of
        None \<Rightarrow> None
      | Some state \<Rightarrow> Some [(''type'', VStr ''reachoutTimelock''), (''state'', VObj state)])"

subsection \<open>Calls\<close>

definition call_outcome :: "js_runtime \<Rightarrow> jv \<Rightarrow> bool \<Rightarrow> js_string \<Rightarrow> obj option" where
  "call_outcome rt data offline actionType =
     (let from = asJidString (jprop data ''from''); callId = asString (jprop data ''call_id'') in
      if \<not> nonempty from \<or> \<not> nonempty callId then None
      else case seconds rt (jprop data ''timestamp'') of
        None \<Rightarrow> None
      | Some timestamp \<Rightarrow>
          Some [(''type'', VStr ''incomingCall''), (''from'', VStr (the from)), (''timestamp'', timestamp),
            (''offline'', VBool offline),
            (''action'', VObj [(''type'', VStr actionType), (''callId'', VStr (the callId))])])"

definition missed_call :: "js_runtime \<Rightarrow> jv \<Rightarrow> obj option" where
  "missed_call rt data = call_outcome rt data (jprop data ''reason'' = VStr ''offline'') ''timeout''"

definition call_ended_elsewhere :: "js_runtime \<Rightarrow> jv \<Rightarrow> obj option" where
  "call_ended_elsewhere rt data =
     call_outcome rt data False (if jprop data ''outcome'' = VStr ''accepted'' then ''accept'' else ''reject'')"

definition parseCallActionType :: "jv \<Rightarrow> js_string option" where
  "parseCallActionType raw =
     (case normalizeDiscriminator raw of
        None \<Rightarrow> None
      | Some norm \<Rightarrow>
          if norm = ''pre_accept'' then Some ''preaccept''
          else if norm = ''relay_latency'' then Some ''relaylatency''
          else if norm \<in> set [''offer'', ''preaccept'', ''transport'', ''relaylatency'', ''accept'', ''reject'', ''terminate'']
          then Some norm else None)"

definition call_details :: "jv \<Rightarrow> js_string \<Rightarrow> obj" where
  "call_details action actionType =
     (if actionType = ''offer''
      then [(''callerPn'', opt_val (asJidString (jprop action ''caller_pn''))),
            (''callerCountryCode'', opt_val (asString (jprop action ''caller_country_code''))),
            (''deviceClass'', opt_val (asString (jprop action ''device_class''))),
            (''joinable'', VBool (asBoolOr (jprop action ''joinable'') False)),
            (''isVideo'', VBool (asBoolOr (jprop action ''is_video'') False))] @
           (case jprop action ''audio'' of VArr xs \<Rightarrow> [(''audio'', vstrs (asStringArray (VArr xs)))] | _ \<Rightarrow> [])
      else if actionType = ''terminate''
      then [(''duration'', onum (asNumber (jprop action ''duration''))),
            (''audioDuration'', onum (asNumber (jprop action ''audio_duration'')))]
      else [])"

definition adaptIncomingCall :: "js_runtime \<Rightarrow> jv \<Rightarrow> obj option" where
  "adaptIncomingCall rt data =
     (if \<not> isObject data then None
      else
        let from = asJidString (jprop data ''from'');
            action = obj_or_undefined (jprop data ''action'');
            actionType = parseCallActionType (jprop action ''type'');
            callId = asString (jprop action ''call_id'');
            timestamp = seconds rt (jprop data ''timestamp'')
        in if \<not> nonempty from \<or> action = VUndef then None
        else if \<not> nonempty actionType \<or> \<not> nonempty callId then None
        else if \<not> nullish (jprop data ''timestamp'') \<and> timestamp = None then None
        else Some [(''type'', VStr ''incomingCall''),
            (''from'', ostr_or (asJidAddressString (jprop data ''from'')) (the from)),
            (''timestamp'', onum timestamp), (''offline'', VBool (asBoolOr (jprop data ''offline'') False)),
            (''stanzaId'', opt_val (asString (jprop data ''stanza_id''))),
            (''notify'', opt_val (asString (jprop data ''notify''))),
            (''platform'', opt_val (asString (jprop data ''platform''))),
            (''version'', opt_val (asString (jprop data ''version''))),
            (''action'', VObj ([(''type'', VStr (the actionType)), (''callId'', VStr (the callId)),
               (''callCreator'', opt_val (asJidAddressString (jprop action ''call_creator'')))] @
               call_details action (the actionType)))])"

subsection \<open>History and synchronisation\<close>

text \<open>A slot a sparse array never wrote reads as \<open>undefined\<close>.\<close>

definition array_val :: "'a sparse \<Rightarrow> ('a \<Rightarrow> jv) \<Rightarrow> jv" where
  "array_val a f = VArr (map (\<lambda>slot. case slot of None \<Rightarrow> VUndef | Some x \<Rightarrow> f x) a)"

definition history_sync :: "jv \<Rightarrow> obj option" where
  "history_sync data =
     (if \<not> isObject data then None
      else
        let processed = processHistoryMessage (fields_of data);
            metaSyncType = onum (asNumber (jprop data ''syncType''));
            metaProgress = onum (asNumber (jprop data ''progress''))
        in Some [(''type'', VStr ''historySync''), (''chats'', array_val (chats processed) VObj),
            (''contacts'', array_val (contacts processed) VObj), (''messages'', array_val (messages processed) (\<lambda>m. m)),
            (''lidPnMappings'', array_val (lidPnMappings processed) VObj),
            (''syncType'', jv_coalesce metaSyncType (jv_coalesce (syncType processed) VUndef)),
            (''progress'', jv_coalesce metaProgress (jv_coalesce (progress processed) VUndef)),
            (''pastParticipants'', pastParticipants processed),
            (''chunkOrder'', onum (asNumber (jprop data ''chunkOrder''))),
            (''peerDataRequestSessionId'', opt_val (asString (jprop data ''peerDataRequestSessionId''))),
            (''batchIndex'', onum (asNumber (jprop data ''batchIndex''))),
            (''isFinalBatch'', VBool (jprop data ''isFinalBatch'' \<noteq> VBool False))])"

definition offline_sync_completed :: "jv \<Rightarrow> obj option" where
  "offline_sync_completed data =
     Some [(''type'', VStr ''offlineSyncCompleted''), (''count'', onum_or (asNumber (jprop data ''count'')) 0)]"

definition dirty_state :: "jv \<Rightarrow> obj option" where
  "dirty_state data =
     (let dirtyType = asString (jprop data ''dirty_type'') in
      if \<not> nonempty dirtyType then None
      else Some [(''type'', VStr ''dirtyState''), (''dirtyType'', VStr (the dirtyType)),
        (''timestamp'', onum (asNumber (jprop data ''timestamp'')))])"

definition disappearing_mode_changed :: "jv \<Rightarrow> obj option" where
  "disappearing_mode_changed data =
     (let i = asJidString (jprop data ''from''); duration = asNumber (jprop data ''duration'') in
      if \<not> nonempty i \<or> duration = None then noop ''disappearing_mode_changed''
      else Some [(''type'', VStr ''disappearingModeChanged''), (''jid'', VStr (the i)), (''duration'', onum duration),
        (''settingTimestamp'', onum (asNumber (jprop data ''setting_timestamp'')))])"

definition live_reaction :: "jv \<Rightarrow> jv option" where
  "live_reaction r =
     (if \<not> isObject r then None
      else
        let code = asString (jprop r ''code''); count = asNumber (jprop r ''count'')
        in if \<not> nonempty code \<or> count = None then None
        else Some (VObj [(''code'', VStr (the code)), (''count'', onum count)]))"

definition live_message :: "js_runtime \<Rightarrow> jv \<Rightarrow> jv option" where
  "live_message rt m =
     (if \<not> isObject m then None
      else
        let serverId = first_some (asString (jprop m ''server_id'')) (map_option (number_text rt) (asNumber (jprop m ''server_id'')))
        in if \<not> nonempty serverId then None
        else Some (VObj [(''serverId'', VStr (the serverId)),
          (''reactions'', VArr (List.map_filter live_reaction (elems_of (jprop m ''reactions''))))]))"

definition newsletter_live_update :: "js_runtime \<Rightarrow> jv \<Rightarrow> obj option" where
  "newsletter_live_update rt data =
     (let newsletterJid = asJidString (jprop data ''newsletter_jid'') in
      if \<not> nonempty newsletterJid then noop ''newsletter_live_update''
      else Some [(''type'', VStr ''newsletterLiveUpdate''), (''newsletterJid'', VStr (the newsletterJid)),
        (''messages'', VArr (List.map_filter (live_message rt) (elems_of (jprop data ''messages''))))])"

definition jid_pair :: "js_string option \<Rightarrow> js_string option \<Rightarrow> jv list" where
  "jid_pair lid pn = (if nonempty lid \<and> nonempty pn then [VObj [(''lid'', VStr (the lid)), (''pn'', VStr (the pn))]] else [])"

definition contact_number_changed :: "jv \<Rightarrow> obj option" where
  "contact_number_changed data =
     (let mappings =
            jid_pair (asJidString (jprop data ''old_lid'')) (asJidString (jprop data ''old_jid'')) @
            jid_pair (asJidString (jprop data ''new_lid'')) (asJidString (jprop data ''new_jid''))
      in if mappings = [] then noop ''contact_number_changed''
         else Some [(''type'', VStr ''lidMappingUpdate''), (''mappings'', VArr mappings)])"

definition delete_chat_update :: "jv \<Rightarrow> obj option" where
  "delete_chat_update data =
     (case with_jid ''jid'' data (\<lambda>jid. [(''type'', VStr ''chatDelete''), (''jid'', VStr jid)]) of
        Some e \<Rightarrow> Some e | None \<Rightarrow> noop ''delete_chat_update'')"

definition clear_chat_update :: "jv \<Rightarrow> obj option" where
  "clear_chat_update data =
     (case with_jid ''jid'' data (\<lambda>jid. [(''type'', VStr ''chatClear''), (''jid'', VStr jid)]) of
        Some e \<Rightarrow> Some e | None \<Rightarrow> noop ''clear_chat_update'')"

definition delete_message_for_me_update :: "jv \<Rightarrow> obj option" where
  "delete_message_for_me_update data =
     (let chatJid = asJidString (jprop data ''chat_jid''); messageId = asString (jprop data ''message_id'') in
      if \<not> nonempty chatJid \<or> \<not> nonempty messageId then noop ''delete_message_for_me_update''
      else Some [(''type'', VStr ''messageDelete''), (''chatJid'', VStr (the chatJid)), (''messageId'', VStr (the messageId)),
        (''fromMe'', VBool (asBoolOr (jprop data ''from_me'') False)),
        (''participantJid'', opt_val (asJidString (jprop data ''participant_jid'')))])"

subsection \<open>Notifications and raw nodes\<close>

text \<open>\<open>attrs[k] = v\<close> for the attributes that are strings, numbers or booleans; \<open>__proto__\<close> is no own property.\<close>

definition attr_text :: "js_runtime \<Rightarrow> jv \<Rightarrow> js_string option" where
  "attr_text rt v =
     (case v of VStr s \<Rightarrow> Some s | VNum n \<Rightarrow> Some (number_text rt v) | VNonInt x \<Rightarrow> Some (number_text rt v)
      | VBool b \<Rightarrow> Some (template v) | _ \<Rightarrow> None)"

definition notification_attrs :: "js_runtime \<Rightarrow> obj \<Rightarrow> obj" where
  "notification_attrs rt as =
     foldl (\<lambda>m (k, v). case attr_text rt v of Some s \<Rightarrow> if k = ''__proto__'' then m else omap_set k (VStr s) m | None \<Rightarrow> m) [] as"

definition notification :: "js_runtime \<Rightarrow> jv \<Rightarrow> obj option" where
  "notification rt data =
     (if \<not> isObject data then noop ''notification''
      else Some [(''type'', VStr ''notification''), (''tag'', ostr_or (asString (jprop data ''tag'')) ''notification''),
        (''attrs'', VObj (notification_attrs rt (fields_of (jprop data ''attrs''))))])"

definition raw_node :: "jv \<Rightarrow> obj option" where
  "raw_node data =
     (if \<not> isObject data \<or> \<not> is_string (jprop data ''tag'') then None
      else Some [(''type'', VStr ''rawNode''), (''node'', data)])"

definition mex_notification :: "jv \<Rightarrow> obj option" where
  "mex_notification data =
     (let opName = asString (jprop data ''op_name''); payload = jprop data ''payload'' in
      if \<not> nonempty opName then None
      else Some [(''type'', VStr ''mexNotification''), (''opName'', VStr (the opName)),
        (''from'', opt_val (asJidString (jprop data ''from''))),
        (''stanzaId'', opt_val (asString (jprop data ''stanza_id''))),
        (''offline'', VBool (asBoolOr (jprop data ''offline'') False)),
        (''payload'', if isObject payload then payload else VObj [])])"

subsection \<open>Group actions\<close>

text \<open>A field that is set only when it has a value.\<close>

definition set_if :: "js_string \<Rightarrow> js_string option \<Rightarrow> obj" where
  "set_if k o1 = (if nonempty o1 then [(k, VStr (the o1))] else [])"

definition adaptGroupParticipant :: "jv \<Rightarrow> jv option" where
  "adaptGroupParticipant raw =
     (if \<not> isObject raw then None
      else
        let i = asJidString (jprop raw ''jid''); rawRole = asString (jprop raw ''type'');
            role = (if rawRole \<in> {Some ''participant'', Some ''admin'', Some ''superadmin''} then rawRole else None)
        in if \<not> nonempty i then None
        else Some (VObj ([(''jid'', VStr (the i)), (''phoneNumber'', opt_val (asJidString (jprop raw ''phone_number'')))] @
          set_if ''lid'' (asJidString (jprop raw ''lid'')) @ set_if ''username'' (asString (jprop raw ''username'')) @
          set_if ''displayName'' (asString (jprop raw ''display_name'')) @
          (case asNumber (jprop raw ''join_time'') of None \<Rightarrow> [] | Some n \<Rightarrow> [(''joinTime'', n)]) @
          set_if ''role'' role)))"

definition adaptGroupParticipants :: "jv \<Rightarrow> jv" where
  "adaptGroupParticipants raw = VArr (List.map_filter adaptGroupParticipant (elems_of raw))"

definition bare_participant :: "jv \<Rightarrow> jv option" where
  "bare_participant j = (let i = asJidString j in if nonempty i then Some (VObj [(''jid'', VStr (the i))]) else None)"

text \<open>The actions without fields, by their normalised discriminator.\<close>

definition plain_actions :: "(js_string \<times> js_string) list" where
  "plain_actions =
     [(''locked'', ''locked''), (''unlocked'', ''unlocked''), (''announce'', ''announce''), (''announcement'', ''announce''),
      (''not_announce'', ''notAnnounce''), (''not_announcement'', ''notAnnounce''), (''notannounce'', ''notAnnounce''),
      (''no_frequently_forwarded'', ''noFrequentlyForwarded''), (''nofrequentlyforwarded'', ''noFrequentlyForwarded''),
      (''frequently_forwarded_ok'', ''frequentlyForwardedOk''), (''frequentlyforwardedok'', ''frequentlyForwardedOk''),
      (''revoke'', ''revokeInvite''), (''revoke_invite'', ''revokeInvite''), (''revokeinvite'', ''revokeInvite''),
      (''create'', ''create''), (''suspended'', ''suspended''), (''unsuspended'', ''unsuspended''),
      (''auto_add_disabled'', ''autoAddDisabled''), (''is_capi_hosted_group'', ''capiHostedGroup''),
      (''group_safety_check'', ''groupSafetyCheck''), (''allow_admin_reports'', ''allowAdminReports''),
      (''not_allow_admin_reports'', ''notAllowAdminReports''), (''reports'', ''reports''),
      (''allow_non_admin_sub_group_creation'', ''allowNonAdminSubGroupCreation''),
      (''not_allow_non_admin_sub_group_creation'', ''notAllowNonAdminSubGroupCreation''),
      (''created_sub_group_suggestion'', ''createdSubGroupSuggestion''),
      (''revoked_sub_group_suggestions'', ''revokedSubGroupSuggestions''),
      (''growth_unlocked'', ''growthUnlocked''), (''growthunlocked'', ''growthUnlocked'')]"

definition participant_actions :: "(js_string \<times> js_string) list" where
  "participant_actions =
     [(''promote'', ''promote''), (''demote'', ''demote''), (''modify'', ''modify''),
      (''linked_group_promote'', ''linkedGroupPromote''), (''linked_group_demote'', ''linkedGroupDemote'')]"

definition act :: "js_string \<Rightarrow> obj \<Rightarrow> obj option" where
  "act t fs = Some ((''type'', VStr t) # fs)"

definition group_action_of :: "jv \<Rightarrow> js_string \<Rightarrow> js_string \<Rightarrow> obj option" where
  "group_action_of raw norm rawType =
     (let participants = (''participants'', adaptGroupParticipants (jprop raw ''participants''));
          str = (\<lambda>k. opt_val (asString (jprop raw k)));
          str_or = (\<lambda>k. ostr_or (asString (jprop raw k)) []);
          num = (\<lambda>k. onum (asNumber (jprop raw k)))
      in case map_of plain_actions norm of
           Some t \<Rightarrow> act t []
         | None \<Rightarrow>
      case map_of participant_actions norm of
           Some t \<Rightarrow> act t [participants]
         | None \<Rightarrow>
      if norm = ''add'' \<or> norm = ''remove'' then act norm [participants, (''reason'', str ''reason'')]
      else if norm = ''subject''
      then act norm [(''subject'', str_or ''subject''), (''subjectOwner'', opt_val (asJidString (jprop raw ''subject_owner''))),
             (''subjectTime'', num ''subject_time'')]
      else if norm = ''description'' then act norm [(''id'', str_or ''id''), (''description'', str ''description'')]
      else if norm = ''ephemeral''
      then (case asNumber (jprop raw ''expiration'') of
              None \<Rightarrow> None
            | Some expiration \<Rightarrow> act norm [(''expiration'', expiration), (''trigger'', num ''trigger'')])
      else if norm = ''membership_approval_mode'' \<or> norm = ''membershipapprovalmode''
      then act ''membershipApprovalMode'' [(''enabled'', VBool (asBoolOr (jprop raw ''enabled'') False))]
      else if norm = ''member_add_mode'' \<or> norm = ''memberaddmode'' then act ''memberAddMode'' [(''mode'', str_or ''mode'')]
      else if norm = ''invite'' then act norm [(''code'', str_or ''code'')]
      else if norm = ''delete'' then act norm [(''reason'', str ''reason'')]
      else if norm = ''link'' then act norm [(''linkType'', str_or ''link_type'')]
      else if norm = ''unlink'' then act norm [(''unlinkType'', str_or ''unlink_type''), (''unlinkReason'', str ''unlink_reason'')]
      else if norm = ''limit_sharing_enabled'' then act ''limitSharingEnabled'' [(''trigger'', num ''trigger'')]
      else if norm = ''change_number''
      then act ''changeNumber'' [(''newOwner'', opt_val (asJidString (jprop raw ''new_owner''))),
             (''subGroupSuggestions'', vstrs (List.map_filter asJidString (elems_of (jprop raw ''sub_group_suggestions''))))]
      else if norm = ''growth_locked'' \<or> norm = ''growthlocked''
      then (case asNumber (jprop raw ''expiration'') of
              None \<Rightarrow> None
            | Some expiration \<Rightarrow> act ''growthLocked'' [(''expiration'', expiration), (''lockType'', str_or ''lock_type'')])
      else if norm = ''membership_approval_request''
      then act ''membershipApprovalRequest'' [(''requestMethod'', str ''request_method''),
             (''parentGroupJid'', opt_val (asJidString (jprop raw ''parent_group_jid'')))]
      else if norm = ''created_membership_requests''
      then act ''createdMembershipRequests'' [(''requestMethod'', str ''request_method''),
             (''parentGroupJid'', opt_val (asJidString (jprop raw ''parent_group_jid''))),
             (''requests'', adaptGroupParticipants (jprop raw ''requests''))]
      else if norm = ''revoked_membership_requests''
      then act ''revokedMembershipRequests''
             [(''participants'', VArr (List.map_filter bare_participant (elems_of (jprop raw ''participants''))))]
      else act ''unknown'' [(''rawType'', VStr rawType)])"

definition adaptGroupAction :: "jv \<Rightarrow> obj option" where
  "adaptGroupAction raw =
     (if \<not> isObject raw then None
      else
        let rawType = (case asString (jprop raw ''type'') of None \<Rightarrow> ''unknown'' | Some s \<Rightarrow> s)
        in case normalizeDiscriminator (jprop raw ''type'') of
             None \<Rightarrow> act ''unknown'' [(''rawType'', VStr rawType)]
           | Some norm \<Rightarrow> group_action_of raw norm rawType)"

definition adaptGroupUpdate :: "js_runtime \<Rightarrow> jv \<Rightarrow> obj option" where
  "adaptGroupUpdate rt data =
     (if \<not> isObject data then None
      else
        let groupJid = asJidString (jprop data ''group_jid'') in
        if \<not> nonempty groupJid then None
        else case adaptGroupAction (jprop data ''action'') of
          None \<Rightarrow> None
        | Some action \<Rightarrow>
            (case seconds rt (jprop data ''timestamp'') of
               None \<Rightarrow> None
             | Some timestamp \<Rightarrow>
                 Some [(''type'', VStr ''groupUpdate''), (''groupJid'', VStr (the groupJid)),
                   (''notificationId'', opt_val (asString (jprop data ''notification_id''))),
                   (''actionIndex'', onum_or (asNumber (jprop data ''action_index'')) 0),
                   (''author'', opt_val (asJidString (jprop data ''participant''))),
                   (''authorPn'', opt_val (asJidString (jprop data ''participant_pn''))),
                   (''authorUsername'', opt_val (asString (jprop data ''participant_username''))),
                   (''authorCountryCode'', opt_val (asString (jprop data ''participant_country_code''))),
                   (''timestamp'', timestamp),
                   (''isLidAddressingMode'', VBool (asBoolOr (jprop data ''is_lid_addressing_mode'') False)),
                   (''action'', VObj action)]))"

subsection \<open>The table\<close>

definition noop_types :: "js_string list" where
  "noop_types =
     [''pair_passkey_request'', ''contact_removed'', ''quick_reply_update'', ''call_log_sync'', ''call_log_history'',
      ''favorite_sticker_update'', ''remove_recent_sticker_update'', ''favorites_update'', ''self_push_name_updated'',
      ''client_expiration_changed'', ''offline_sync_preview'', ''offline_sync_interrupted'', ''device_list_update'',
      ''identity_change'', ''business_status_update'', ''contact_sync_requested'', ''user_about_update'',
      ''user_status_mute_update'']"

definition bare_types :: "(js_string \<times> js_string) list" where
  "bare_types =
     [(''connected'', ''connected''), (''disconnected'', ''disconnected''), (''stream_replaced'', ''streamReplaced''),
      (''client_outdated'', ''clientOutdated''), (''qr_scanned_without_multidevice'', ''qrScannedWithoutMultidevice''),
      (''pairing_qr_codes_exhausted'', ''qrCodesExhausted'')]"

definition full_adapters :: "js_runtime \<Rightarrow> (js_string \<times> (jv \<Rightarrow> obj option)) list" where
  "full_adapters rt =
     [(''temporary_ban'', temporary_ban rt), (''logged_out'', logged_out), (''qr'', qr), (''pairing_code'', qr),
      (''pairing_code_refresh'', pairing_code_refresh), (''pair_passkey_confirmation'', pair_passkey_confirmation),
      (''pair_passkey_error'', pair_passkey_error), (''pair_success'', pair_success), (''pair_error'', pair_error),
      (''connect_failure'', connect_failure), (''stream_error'', stream_error), (''message'', adaptMessage rt),
      (''receipt'', adaptReceipt rt), (''server_ack'', server_ack rt), (''undecryptable_message'', undecryptable_message rt),
      (''contact_update'', adaptContactUpdate), (''contact_updated'', adaptContactUpdate), (''picture_update'', picture_update),
      (''presence'', presence rt), (''chat_presence'', chat_presence), (''group_update'', adaptGroupUpdate rt),
      (''archive_update'', archive_update), (''pin_update'', pin_update rt), (''mute_update'', mute_update rt),
      (''star_update'', adaptStarUpdate), (''mark_chat_as_read_update'', mark_chat_as_read_update),
      (''lock_chat_update'', lock_chat_update), (''label_sublist_update'', label_sublist_update),
      (''label_edit_update'', label_edit_update rt), (''label_association_update'', label_association_update),
      (''message_label_association_update'', message_label_association_update),
      (''app_state_sync_failed'', app_state_sync_failed), (''disable_link_previews_update'', disable_link_previews_update),
      (''pairing_code_error'', pairing_code_error), (''status_privacy_update'', status_privacy_update),
      (''unarchive_chats_setting_update'', unarchive_chats_setting_update),
      (''reachout_timelock_update'', reachout_timelock_update), (''incoming_call'', adaptIncomingCall rt),
      (''missed_call'', missed_call rt), (''call_ended_elsewhere'', call_ended_elsewhere rt), (''history_sync'', history_sync),
      (''offline_sync_completed'', offline_sync_completed), (''dirty_state'', dirty_state),
      (''disappearing_mode_changed'', disappearing_mode_changed), (''newsletter_live_update'', newsletter_live_update rt),
      (''contact_number_changed'', contact_number_changed), (''delete_chat_update'', delete_chat_update),
      (''clear_chat_update'', clear_chat_update), (''delete_message_for_me_update'', delete_message_for_me_update),
      (''notification'', notification rt), (''raw_node'', raw_node), (''mex_notification'', mex_notification)]"

definition ADAPTERS :: "js_runtime \<Rightarrow> (js_string \<times> (jv \<Rightarrow> obj option)) list" where
  "ADAPTERS rt = full_adapters rt @ map (\<lambda>(k, t). (k, \<lambda>data. bare t)) bare_types @ map (\<lambda>t. (t, \<lambda>data. noop t)) noop_types"

definition KNOWN_BRIDGE_EVENT_TYPES :: "js_string set" where
  "KNOWN_BRIDGE_EVENT_TYPES = fst ` set (ADAPTERS \<lparr>js_now = 0, js_date_parse = \<lambda>s. None, js_number_text = \<lambda>v. []\<rparr>)"

text \<open>The dispatch on an event's \<open>type\<close> and \<open>data\<close>; only the table's own entries answer.\<close>

definition adaptBridgeEvent :: "js_runtime \<Rightarrow> js_string \<Rightarrow> jv \<Rightarrow> obj option" where
  "adaptBridgeEvent rt eventType data =
     (case map_of (ADAPTERS rt) eventType of None \<Rightarrow> None | Some adapter \<Rightarrow> adapter data)"

end
