(* ===== verification/BridgeTyping.thy ===== *)
theory BridgeTyping
  imports BridgeSchema
begin

text \<open>
  Every event the adapters of \<open>BridgeSchema\<close> produce conforms to the contract of \<open>CanonicalTypes\<close>: one
  lemma per adapter over a shared bundle of typing facts, and the theorem for the whole table.
\<close>

named_theorems typing "what the readings of a payload conform to"

subsection \<open>Fields\<close>

definition fits :: "bool \<Rightarrow> ftype \<Rightarrow> jv \<Rightarrow> bool" where
  "fits optional t v \<longleftrightarrow> (optional \<and> v = VUndef) \<or> conforms t v"

lemma has_fields_Cons [typing]: "has_fields (Field k optional t # fs) v \<longleftrightarrow> fits optional t (jprop v k) \<and> has_fields fs v"
  by (simp add: fits_def)

declare has_fields.simps(2) [simp del]

lemma fits_string [typing]:
  "fits b TString (VStr s)" "fits True TString (opt_val o1)" "fits b TString (ostr_or o2 s)"
  by (auto simp: fits_def opt_val_def ostr_or_def split: option.split)

lemma fits_literal [typing]: "fits b (TLit ss) (VStr s) \<longleftrightarrow> s \<in> set ss"
  by (simp add: fits_def)

lemma fits_boolean [typing]: "fits b TBoolean (VBool v)" "fits True TBoolean (true_or_undefined v)"
  by (auto simp: fits_def true_or_undefined_def)

lemma fits_unknown [typing]: "fits b TUnknown v"
  by (simp add: fits_def)

lemma fits_object [typing]: "fits b (TObj fs) (VObj m) \<longleftrightarrow> has_fields fs (VObj m)"
  by (simp add: fits_def)

lemma fits_array [typing]: "fits b (TArray t) (VArr xs) \<longleftrightarrow> list_all (conforms t) xs"
  by (simp add: fits_def)

lemma fits_union [typing]: "fits b (TUnion ts) (VObj m) \<longleftrightarrow> conforms_one ts (VObj m)"
  by (simp add: fits_def)

lemma fits_absent [typing]: "fits True t VUndef"
  by (simp add: fits_def)

subsection \<open>Readings\<close>

lemma number_finite: "asNumber x = Some v \<Longrightarrow> is_finite v"
  by (cases x rule: asNumber.cases) (auto simp: is_finite_def)

lemma seconds_finite: "seconds rt x = Some v \<Longrightarrow> is_finite v"
  by (auto simp: seconds_def asUnixSeconds_def is_finite_def dest: number_finite split: option.splits jv.splits)

lemma fits_number [typing]:
  "fits True TNumber (onum (asNumber x))" "fits True TNumber (onum (seconds rt x))"
  "fits True TNumber (onum (map_option VNum o1))" "fits b TNumber (onum_or (asNumber x) n)" "fits b TNumber (VNum n)"
  by (auto simp: fits_def onum_def onum_or_def is_finite_def dest: number_finite seconds_finite split: option.split)

lemma fits_finite: "asNumber x = Some v \<Longrightarrow> fits b TNumber v" "seconds rt x = Some v \<Longrightarrow> fits b TNumber v"
  by (simp_all add: fits_def number_finite seconds_finite)

lemma fits_strings [typing]: "fits b (TArray TString) (vstrs xs)"
  by (simp add: fits_def vstrs_def list_all_iff)

lemma onum_Some [simp]: "onum (Some y) = y"
  by (simp add: onum_def)

lemma fits_integer [typing]: "is_integer o1 \<Longrightarrow> fits b TNumber (onum o1)"
  by (cases o1 rule: is_integer.cases) (auto simp: fits_def is_finite_def)

text \<open>A step that may drop the event.\<close>

lemma dropped [simp]:
  "(if c then None else X) = Some e \<longleftrightarrow> \<not> c \<and> X = Some e"
  "(if c then X else None) = Some e \<longleftrightarrow> c \<and> X = Some e"
  "(case x of None \<Rightarrow> None | Some y \<Rightarrow> f y) = Some e \<longleftrightarrow> (\<exists>y. x = Some y \<and> f y = Some e)"
  by (auto split: option.split)

lemmas event_fields = oget_def has_own_def

subsection \<open>The adapters\<close>

lemma noop_typed: "noop t = Some e \<Longrightarrow> conforms canonical_event (VObj e)"
  by (rule canonical_eventI [of canonical_noop])
    (simp add: canonical_event_types_def, auto simp: noop_def canonical_noop_def event_fields typing)

lemma noop_with_typed: "noop_with t d = Some e \<Longrightarrow> fits True TString d \<Longrightarrow> conforms canonical_event (VObj e)"
  by (rule canonical_eventI [of canonical_noop])
    (simp add: canonical_event_types_def, auto simp: noop_with_def canonical_noop_def event_fields typing)

lemma fits_edit [typing]: "fits True (TLit [''1'', ''2'', ''3'', ''7'', ''8'']) (parseEditAttribute x)"
  by (auto simp: fits_def parseEditAttribute_def)

lemma some_eq_typed: "x = None \<or> (\<exists>e. x = Some e \<and> conforms canonical_event (VObj e)) \<Longrightarrow> x = Some e \<Longrightarrow> conforms canonical_event (VObj e)"
  by auto

lemma temporary_ban_typed: "temporary_ban rt d = Some e \<Longrightarrow> conforms canonical_event (VObj e)"
  by (rule canonical_eventI [of canonical_temporary_ban])
    (simp add: canonical_event_types_def,
     auto simp: temporary_ban_def canonical_temporary_ban_def event_fields typing Let_def fits_finite)

lemma logged_out_typed: "logged_out d = Some e \<Longrightarrow> conforms canonical_event (VObj e)"
  by (rule canonical_eventI [of canonical_logged_out])
    (simp add: canonical_event_types_def,
     auto simp: logged_out_def canonical_logged_out_def event_fields typing Let_def fits_finite)

lemma qr_typed: "is_string (jprop d ''code'') \<Longrightarrow> qr d = Some e \<Longrightarrow> conforms canonical_event (VObj e)"
  by (rule canonical_eventI [of canonical_qr])
    (simp add: canonical_event_types_def,
     auto simp: qr_def canonical_qr_def event_fields typing Let_def fits_finite fits_def [of False TString "jprop d ''code''"])

lemma pair_success_typed: "pair_success d = Some e \<Longrightarrow> conforms canonical_event (VObj e)"
  by (rule canonical_eventI [of canonical_pair_success])
    (simp add: canonical_event_types_def,
     auto simp: pair_success_def canonical_pair_success_def event_fields typing Let_def fits_finite)

lemma pair_error_typed: "pair_error d = Some e \<Longrightarrow> conforms canonical_event (VObj e)"
  by (rule canonical_eventI [of canonical_pair_error])
    (simp add: canonical_event_types_def,
     auto simp: pair_error_def canonical_pair_error_def event_fields typing Let_def fits_finite)

lemma connect_failure_typed: "connect_failure d = Some e \<Longrightarrow> conforms canonical_event (VObj e)"
  by (rule canonical_eventI [of canonical_connect_failure])
    (simp add: canonical_event_types_def,
     auto simp: connect_failure_def canonical_connect_failure_def event_fields typing Let_def fits_finite split: if_splits)

lemma stream_error_typed: "stream_error d = Some e \<Longrightarrow> conforms canonical_event (VObj e)"
  by (rule canonical_eventI [of canonical_stream_error])
    (simp add: canonical_event_types_def,
     auto simp: stream_error_def canonical_stream_error_def event_fields typing Let_def fits_finite)

lemma pairing_code_error_typed: "pairing_code_error d = Some e \<Longrightarrow> conforms canonical_event (VObj e)"
  by (rule canonical_eventI [of canonical_pair_error])
    (simp add: canonical_event_types_def,
     auto simp: pairing_code_error_def canonical_pair_error_def event_fields typing Let_def fits_finite)

lemma server_ack_typed: "server_ack rt d = Some e \<Longrightarrow> conforms canonical_event (VObj e)"
  by (rule canonical_eventI [of canonical_server_ack])
    (simp add: canonical_event_types_def,
     auto simp: server_ack_def canonical_server_ack_def event_fields typing Let_def fits_finite)

lemma adaptMessageParts_typed: "isObject p \<Longrightarrow> adaptMessageParts rt i p = Some e \<Longrightarrow> conforms canonical_event (VObj e)"
  by (rule canonical_eventI [of canonical_message])
    (simp add: canonical_event_types_def,
     auto simp: adaptMessageParts_def canonical_message_def event_fields typing Let_def fits_finite fits_def [of False "TObj []"])

lemma adaptBridgeMessageWire_typed: "adaptBridgeMessageWire rt p i = Some e \<Longrightarrow> conforms canonical_event (VObj e)"
  by (rule canonical_eventI [of canonical_message])
    (simp add: canonical_event_types_def,
     auto simp: adaptBridgeMessageWire_def canonical_message_def event_fields typing Let_def fits_finite fits_def [of False "TObj []"])

lemma undecryptable_message_typed: "undecryptable_message rt d = Some e \<Longrightarrow> conforms canonical_event (VObj e)"
  by (rule canonical_eventI [of canonical_undecryptable_message])
    (simp add: canonical_event_types_def,
     auto simp: undecryptable_message_def canonical_undecryptable_message_def event_fields typing Let_def fits_finite)

lemma adaptContactUpdate_typed: "adaptContactUpdate d = Some e \<Longrightarrow> conforms canonical_event (VObj e)"
  by (rule canonical_eventI [of canonical_contact_update])
    (simp add: canonical_event_types_def,
     auto simp: adaptContactUpdate_def canonical_contact_update_def event_fields typing Let_def fits_finite)

lemma picture_update_typed: "picture_update d = Some e \<Longrightarrow> conforms canonical_event (VObj e)"
  by (rule canonical_eventI [of canonical_picture_update])
    (simp add: canonical_event_types_def,
     auto simp: picture_update_def canonical_picture_update_def event_fields typing Let_def fits_finite with_jid_def)

lemma presence_typed: "presence rt d = Some e \<Longrightarrow> conforms canonical_event (VObj e)"
  by (rule canonical_eventI [of canonical_presence])
    (simp add: canonical_event_types_def,
     auto simp: presence_def canonical_presence_def event_fields typing Let_def fits_finite)

lemma chat_presence_typed: "chat_presence d = Some e \<Longrightarrow> conforms canonical_event (VObj e)"
  by (rule canonical_eventI [of canonical_chat_presence])
    (simp add: canonical_event_types_def,
     auto simp: chat_presence_def canonical_chat_presence_def event_fields typing Let_def fits_finite)

lemma archive_update_typed: "archive_update d = Some e \<Longrightarrow> conforms canonical_event (VObj e)"
  by (rule canonical_eventI [of canonical_archive_update])
    (simp add: canonical_event_types_def,
     auto simp: archive_update_def canonical_archive_update_def event_fields typing Let_def fits_finite with_jid_def)

lemma pin_update_typed: "pin_update rt d = Some e \<Longrightarrow> conforms canonical_event (VObj e)"
  by (rule canonical_eventI [of canonical_pin_update])
    (simp add: canonical_event_types_def,
     auto simp: pin_update_def canonical_pin_update_def event_fields typing Let_def fits_finite with_jid_def)

lemma mute_update_typed: "mute_update rt d = Some e \<Longrightarrow> conforms canonical_event (VObj e)"
  by (rule canonical_eventI [of canonical_mute_update])
    (simp add: canonical_event_types_def,
     auto simp: mute_update_def canonical_mute_update_def event_fields typing Let_def fits_finite with_jid_def)

lemma mark_chat_as_read_update_typed: "mark_chat_as_read_update d = Some e \<Longrightarrow> conforms canonical_event (VObj e)"
  by (rule canonical_eventI [of canonical_mark_chat_as_read_update])
    (simp add: canonical_event_types_def,
     auto simp: mark_chat_as_read_update_def canonical_mark_chat_as_read_update_def event_fields typing Let_def fits_finite with_jid_def)

lemma lock_chat_update_typed: "lock_chat_update d = Some e \<Longrightarrow> conforms canonical_event (VObj e)"
  by (rule canonical_eventI [of canonical_lock_chat_update])
    (simp add: canonical_event_types_def,
     auto simp: lock_chat_update_def canonical_lock_chat_update_def event_fields typing Let_def fits_finite with_jid_def)

lemma adaptStarUpdate_typed: "adaptStarUpdate d = Some e \<Longrightarrow> conforms canonical_event (VObj e)"
  by (rule canonical_eventI [of canonical_star_update])
    (simp add: canonical_event_types_def,
     auto simp: adaptStarUpdate_def canonical_star_update_def event_fields typing Let_def fits_finite)

lemma app_state_sync_failed_typed: "app_state_sync_failed d = Some e \<Longrightarrow> conforms canonical_event (VObj e)"
  by (rule canonical_eventI [of canonical_app_state_sync_failed])
    (simp add: canonical_event_types_def,
     auto simp: app_state_sync_failed_def canonical_app_state_sync_failed_def event_fields typing Let_def fits_finite)

lemma unarchive_chats_setting_update_typed: "unarchive_chats_setting_update d = Some e \<Longrightarrow> conforms canonical_event (VObj e)"
  by (rule canonical_eventI [of canonical_unarchive_chats_setting])
    (simp add: canonical_event_types_def,
     auto simp: unarchive_chats_setting_update_def canonical_unarchive_chats_setting_def event_fields typing Let_def fits_finite)

lemma offline_sync_completed_typed: "offline_sync_completed d = Some e \<Longrightarrow> conforms canonical_event (VObj e)"
  by (rule canonical_eventI [of canonical_offline_sync_completed])
    (simp add: canonical_event_types_def,
     auto simp: offline_sync_completed_def canonical_offline_sync_completed_def event_fields typing Let_def fits_finite)

lemma dirty_state_typed: "dirty_state d = Some e \<Longrightarrow> conforms canonical_event (VObj e)"
  by (rule canonical_eventI [of canonical_dirty_state])
    (simp add: canonical_event_types_def,
     auto simp: dirty_state_def canonical_dirty_state_def event_fields typing Let_def fits_finite)

lemma or_noop:
  assumes "(if c then noop t else X) = Some e"
    and "\<not> c \<Longrightarrow> X = Some e \<Longrightarrow> conforms canonical_event (VObj e)"
  shows "conforms canonical_event (VObj e)"
  using assms noop_typed by (cases c) simp_all

lemma else_noop:
  assumes "(case x of None \<Rightarrow> noop t | Some y \<Rightarrow> Some y) = Some e"
    and "x = Some e \<Longrightarrow> conforms canonical_event (VObj e)"
  shows "conforms canonical_event (VObj e)"
  using assms noop_typed by (cases x) simp_all

lemma in_events: "canonical_label_edit \<in> set canonical_event_types" "canonical_label_association \<in> set canonical_event_types"
  "canonical_label_sublist \<in> set canonical_event_types"
  by (simp_all add: canonical_event_types_def)

lemma label_edit_update_typed: "label_edit_update rt d = Some e \<Longrightarrow> conforms canonical_event (VObj e)"
  unfolding label_edit_update_def Let_def
  by (cases "asString (jprop d ''action_timestamp'')"; erule or_noop; rule canonical_eventI [OF in_events(1)];
      auto simp: action_timestamp_def canonical_label_edit_def event_fields typing fits_finite)

lemma label_association_update_typed: "label_association_update d = Some e \<Longrightarrow> conforms canonical_event (VObj e)"
  unfolding label_association_update_def Let_def
  by (cases "asString (jprop d ''action_timestamp'')"; erule or_noop; rule canonical_eventI [OF in_events(2)];
      auto simp: action_timestamp_def canonical_label_association_def event_fields typing fits_finite)

lemma message_label_association_update_typed: "message_label_association_update d = Some e \<Longrightarrow> conforms canonical_event (VObj e)"
  unfolding message_label_association_update_def Let_def
  by (cases "asString (jprop d ''action_timestamp'')"; erule or_noop; rule canonical_eventI [OF in_events(2)];
      auto simp: action_timestamp_def canonical_label_association_def event_fields typing fits_finite)

lemma label_sublist_update_typed: "label_sublist_update d = Some e \<Longrightarrow> conforms canonical_event (VObj e)"
  unfolding label_sublist_update_def Let_def
  by (cases "asString (jprop d ''action_timestamp'')"; cases "jprop d ''change'' = VStr ''Remove''"; simp only: dropped if_True if_False; elim conjE; rule canonical_eventI [OF in_events(3)];
      auto simp: action_timestamp_def canonical_label_sublist_def event_fields typing fits_finite)

lemma disappearing_mode_changed_typed: "disappearing_mode_changed d = Some e \<Longrightarrow> conforms canonical_event (VObj e)"
  unfolding disappearing_mode_changed_def Let_def
  by (erule or_noop, rule canonical_eventI [of canonical_disappearing_mode_changed])
    (simp add: canonical_event_types_def, auto simp: canonical_disappearing_mode_changed_def event_fields typing fits_finite)

lemma delete_message_for_me_update_typed: "delete_message_for_me_update d = Some e \<Longrightarrow> conforms canonical_event (VObj e)"
  unfolding delete_message_for_me_update_def Let_def
  by (erule or_noop, rule canonical_eventI [of canonical_message_delete])
    (simp add: canonical_event_types_def, auto simp: canonical_message_delete_def event_fields typing fits_finite split: if_splits)

lemma delete_chat_update_typed: "delete_chat_update d = Some e \<Longrightarrow> conforms canonical_event (VObj e)"
  unfolding delete_chat_update_def Let_def
  by (erule else_noop, rule canonical_eventI [of canonical_chat_delete])
    (simp add: canonical_event_types_def, auto simp: canonical_chat_delete_def event_fields typing fits_finite with_jid_def Let_def)

lemma clear_chat_update_typed: "clear_chat_update d = Some e \<Longrightarrow> conforms canonical_event (VObj e)"
  unfolding clear_chat_update_def Let_def
  by (erule else_noop, rule canonical_eventI [of canonical_chat_clear])
    (simp add: canonical_event_types_def, auto simp: canonical_chat_clear_def event_fields typing fits_finite with_jid_def Let_def)

subsection \<open>Receipts, settings and calls\<close>

definition receipt_types :: "js_string list" where
  "receipt_types = [''delivered'', ''sent'', ''sender'', ''retry'', ''enc-rekey-retry'', ''read'', ''read-self'', ''played'',
     ''played-self'', ''inactive'', ''peer-msg'', ''history-sync'', ''server-error'', ''other'']"

lemma receipt_type_known: "fst (parseReceiptType raw) = Some t \<Longrightarrow> t \<in> set receipt_types"
proof -
  assume a: "fst (parseReceiptType raw) = Some t"
  have known: "snd ` set RECEIPT_TYPE_MAP \<subseteq> set receipt_types" "''other'' \<in> set receipt_types" by code_simp+
  have mapped: "t \<in> set receipt_types" if "map_of RECEIPT_TYPE_MAP n = Some t" for n
    using map_of_SomeD [OF that] known(1) by force
  show ?thesis
    using a known(2) mapped by (auto simp: parseReceiptType_def Let_def split: if_splits option.splits)
qed

lemma fits_receipt_type [typing]: "fits True (TLit receipt_types) (opt_val (fst (parseReceiptType raw)))"
  using receipt_type_known [of raw] by (auto simp: opt_val_def fits_def split: option.split)

lemma adaptReceipt_typed:
  assumes "adaptReceipt rt d = Some e" shows "conforms canonical_event (VObj e)"
proof (rule canonical_eventI [of canonical_receipt])
  show "conforms canonical_receipt (VObj e)"
    by (cases "snd (parseReceiptType (jprop d ''type''))")
      (use assms in \<open>auto simp: adaptReceipt_def canonical_receipt_def event_fields typing Let_def fits_finite case_prod_beta
        simp flip: receipt_types_def\<close>)
qed (simp add: canonical_event_types_def)

lemma adaptMessage_typed: "adaptMessage rt d = Some e \<Longrightarrow> conforms canonical_event (VObj e)"
  using adaptMessageParts_typed [of "jprop d ''message''" rt]
  by (auto simp: adaptMessage_def Let_def obj_or_undefined_def split: if_splits)

lemma setting_typed:
  assumes "isObject v" and "s = ''disableLinkPreviews'' \<or> s = ''statusPrivacy''"
  shows "conforms canonical_event (VObj [(''type'', VStr ''settingUpdate''), (''setting'', VStr s), (''value'', v)])"
proof (rule canonical_eventI [of canonical_setting_update])
  show "conforms canonical_setting_update (VObj [(''type'', VStr ''settingUpdate''), (''setting'', VStr s), (''value'', v)])"
    unfolding canonical_setting_update_def
    by (rule conforms_union [of "setting s (TObj [])"])
      (use assms in \<open>auto simp: setting_def event_fields typing fits_def [of False "TObj []"]\<close>)
qed (simp add: canonical_event_types_def)

lemma disable_link_previews_update_typed: "disable_link_previews_update d = Some e \<Longrightarrow> conforms canonical_event (VObj e)"
  by (simp add: disable_link_previews_update_def Let_def) (use setting_typed in force)

lemma status_privacy_update_typed: "status_privacy_update d = Some e \<Longrightarrow> conforms canonical_event (VObj e)"
  using setting_typed [of "jprop d ''action''" "''statusPrivacy''"] by (auto simp: status_privacy_update_def)

lemma fits_date [typing]: "fits b TDate (date_object n)"
  by (simp add: fits_def date_object_def is_date_def event_fields)

lemma reachout_state_typed: "mapReachoutTimelock v = Some s \<Longrightarrow> conforms reachout_state (VObj s)"
proof -
  assume "mapReachoutTimelock v = Some s"
  then obtain wire where s: "s = (case asBool (jprop wire ''is_active'') of None \<Rightarrow> [] | Some b \<Rightarrow> [(''isActive'', VBool b)]) @
            reachout_end (jprop wire ''time_enforcement_ends'') @
            (if is_string (jprop wire ''enforcement_type'') \<and> truthy (jprop wire ''enforcement_type'')
             then [(''enforcementType'', jprop wire ''enforcement_type'')] else [])"
    by (auto simp: mapReachoutTimelock_def)
  obtain o1 where e: "reachout_end (jprop wire ''time_enforcement_ends'') = (case o1 of None \<Rightarrow> [] | Some n \<Rightarrow> [(''timeEnforcementEnds'', date_object n)])"
  proof -
    have "reachout_end x = [] \<or> (\<exists>n. reachout_end x = [(''timeEnforcementEnds'', date_object n)])" for x
      by (auto simp: reachout_end_def split: jv.split)
    then show ?thesis using that [of None] that [of "Some n" for n] by fastforce
  qed
  show ?thesis
    unfolding s e
    by (cases "asBool (jprop wire ''is_active'')"; cases o1; cases "is_string (jprop wire ''enforcement_type'') \<and> truthy (jprop wire ''enforcement_type'')")
      (auto simp: reachout_state_def event_fields typing fits_def [of True TString])
qed

lemma reachout_timelock_update_typed: "reachout_timelock_update d = Some e \<Longrightarrow> conforms canonical_event (VObj e)"
  using reachout_state_typed
  by (intro canonical_eventI [of canonical_reachout_timelock], simp add: canonical_event_types_def)
    (auto simp: reachout_timelock_update_def canonical_reachout_timelock_def event_fields typing fits_def [of False reachout_state])

lemma call_outcome_typed:
  assumes "t \<in> set call_action_types" and "call_outcome rt d off t = Some e"
  shows "conforms canonical_event (VObj e)"
proof (rule canonical_eventI [of canonical_incoming_call])
  show "conforms canonical_incoming_call (VObj e)"
    using assms
    by (auto simp: call_outcome_def canonical_incoming_call_def canonical_call_action_def event_fields typing Let_def fits_finite)
qed (simp add: canonical_event_types_def)

lemma missed_call_typed: "missed_call rt d = Some e \<Longrightarrow> conforms canonical_event (VObj e)"
  using call_outcome_typed [of "''timeout''" rt d] by (simp add: missed_call_def call_action_types_def)

lemma call_ended_elsewhere_typed: "call_ended_elsewhere rt d = Some e \<Longrightarrow> conforms canonical_event (VObj e)"
  using call_outcome_typed [of "''accept''" rt d] call_outcome_typed [of "''reject''" rt d]
  by (auto simp: call_ended_elsewhere_def call_action_types_def split: if_splits)

lemma parsed_call_type: "nonempty (parseCallActionType raw) \<Longrightarrow> the (parseCallActionType raw) \<in> set call_action_types"
  by (cases "normalizeDiscriminator raw") (auto simp: parseCallActionType_def call_action_types_def nonempty_def)

lemma call_action_typed:
  assumes "t \<in> set call_action_types"
  shows "conforms canonical_call_action (VObj ([(''type'', VStr t), (''callId'', VStr c), (''callCreator'', opt_val o1)] @ call_details a t))"
proof -
  have "\<exists>xs. call_details a t = xs \<and> (xs = [] \<or>
      (\<exists>v w. xs = [(''duration'', onum (asNumber v)), (''audioDuration'', onum (asNumber w))]) \<or>
      (\<exists>p q r b1 b2. xs = [(''callerPn'', opt_val p), (''callerCountryCode'', opt_val q), (''deviceClass'', opt_val r),
         (''joinable'', VBool b1), (''isVideo'', VBool b2)]) \<or>
      (\<exists>p q r b1 b2 as. xs = [(''callerPn'', opt_val p), (''callerCountryCode'', opt_val q), (''deviceClass'', opt_val r),
         (''joinable'', VBool b1), (''isVideo'', VBool b2), (''audio'', vstrs as)]))"
    by (auto simp: call_details_def split: jv.split)
  then show ?thesis
    using assms by (elim exE conjE disjE) (simp_all add: canonical_call_action_def event_fields typing)
qed

lemma adaptIncomingCall_typed: "adaptIncomingCall rt d = Some e \<Longrightarrow> conforms canonical_event (VObj e)"
  using call_action_typed [OF parsed_call_type]
  by (intro canonical_eventI [of canonical_incoming_call], simp add: canonical_event_types_def)
    (auto simp: adaptIncomingCall_def canonical_incoming_call_def event_fields typing Let_def fits_finite fits_def [of False canonical_call_action]
      simp del: append.simps)

subsection \<open>History, notifications and groups\<close>

lemma list_all_map_filter: "(\<And>x y. f x = Some y \<Longrightarrow> P y) \<Longrightarrow> list_all P (List.map_filter f xs)"
  by (auto simp: List.map_filter_def list_all_iff)

lemma history_meta: "syncType (processHistoryMessage m) = oget m ''syncType''" "progress (processHistoryMessage m) = oget m ''progress''"
  by (simp_all add: processHistoryMessage_def Let_def case_prod_beta)

text \<open>A number the payload may leave out or null.\<close>

definition optional_number :: "jv \<Rightarrow> bool" where
  "optional_number v \<longleftrightarrow> nullish v \<or> is_finite v"

lemma fits_overlay: "optional_number v \<Longrightarrow> fits True TNumber (jv_coalesce (onum (asNumber v)) (jv_coalesce v VUndef))"
  by (cases "asNumber v")
    (auto simp: optional_number_def fits_def jv_coalesce_def nullish_def onum_def is_finite_def dest: number_finite)

lemma fits_slots [typing]: "fits b (TArray TUnknown) (array_val a f)"
  by (simp add: fits_def array_val_def list_all_iff)

lemma history_sync_typed:
  assumes "optional_number (jprop d ''syncType'')" "optional_number (jprop d ''progress'')" and "history_sync d = Some e"
  shows "conforms canonical_event (VObj e)"
proof (rule canonical_eventI [of canonical_history_sync])
  have o1: "oget (fields_of d) k = jprop d k" for k by (cases d) auto
  show "conforms canonical_history_sync (VObj e)"
    using assms
    by (auto simp: history_sync_def canonical_history_sync_def event_fields [of "(k, v) # m" for k v m] typing Let_def history_meta o1 fits_overlay)
qed (simp add: canonical_event_types_def)

lemma live_reaction_typed:
  "live_reaction r = Some v \<Longrightarrow> conforms (TObj [req ''code'' TString, req ''count'' TNumber]) v"
  by (auto simp: live_reaction_def Let_def event_fields typing fits_finite)

lemma live_message_typed:
  "live_message rt m = Some v \<Longrightarrow>
    conforms (TObj [req ''serverId'' TString, req ''reactions'' (TArray (TObj [req ''code'' TString, req ''count'' TNumber]))]) v"
  using list_all_map_filter [of live_reaction "conforms (TObj [req ''code'' TString, req ''count'' TNumber])", OF live_reaction_typed]
  by (auto simp: live_message_def Let_def event_fields typing simp del: conforms.simps(12))
    (simp_all add: event_fields typing)

lemma live_messages_typed:
  "list_all (conforms (TObj [req ''serverId'' TString, req ''reactions'' (TArray (TObj [req ''code'' TString, req ''count'' TNumber]))]))
     (List.map_filter (live_message rt) xs)"
  by (rule list_all_map_filter) (rule live_message_typed)

lemma newsletter_live_update_typed: "newsletter_live_update rt d = Some e \<Longrightarrow> conforms canonical_event (VObj e)"
  unfolding newsletter_live_update_def Let_def
  by (erule or_noop, intro canonical_eventI [of canonical_newsletter_live_update], simp add: canonical_event_types_def)
    (use live_messages_typed in \<open>auto simp: canonical_newsletter_live_update_def event_fields typing\<close>)

lemma jid_pairs_typed: "list_all (conforms (TObj [req ''lid'' TString, req ''pn'' TString])) (jid_pair a b)"
  by (simp add: jid_pair_def event_fields typing)

lemma contact_number_changed_typed: "contact_number_changed d = Some e \<Longrightarrow> conforms canonical_event (VObj e)"
  unfolding contact_number_changed_def Let_def
  by (erule or_noop, intro canonical_eventI [of canonical_lid_mapping_update], simp add: canonical_event_types_def)
    (use jid_pairs_typed in \<open>auto simp: canonical_lid_mapping_update_def event_fields typing\<close>)

lemma list_all_set: "list_all P m \<Longrightarrow> P (k, v) \<Longrightarrow> list_all P (omap_set k v m)"
  by (induction m) auto

lemma notification_attrs_typed: "list_all (\<lambda>p. conforms TString (snd p)) (notification_attrs rt as)"
proof -
  have "list_all (\<lambda>p. conforms TString (snd p)) (foldl (\<lambda>m (k, v). case attr_text rt v of
      Some s \<Rightarrow> if k = ''__proto__'' then m else omap_set k (VStr s) m | None \<Rightarrow> m) m0 as)"
    if "list_all (\<lambda>p. conforms TString (snd p)) m0" for m0
    using that by (induction as arbitrary: m0) (auto simp: list_all_set split: option.split)
  then show ?thesis by (simp add: notification_attrs_def)
qed

lemma notification_typed: "notification rt d = Some e \<Longrightarrow> conforms canonical_event (VObj e)"
  unfolding notification_def
  by (erule or_noop, intro canonical_eventI [of canonical_notification], simp add: canonical_event_types_def)
    (use notification_attrs_typed in \<open>auto simp: canonical_notification_def event_fields typing fits_def [of False "TDict TString"]\<close>)

lemma raw_node_typed:
  "conforms (TDict TString) (jprop d ''attrs'') \<Longrightarrow> raw_node d = Some e \<Longrightarrow> conforms canonical_event (VObj e)"
  by (rule canonical_eventI [of canonical_raw_node])
    (simp add: canonical_event_types_def, auto simp: raw_node_def canonical_raw_node_def binary_node_def event_fields typing fits_def)

lemma fits_payload [typing]: "fits b (TDict TUnknown) (if isObject x then x else VObj [])"
  by (cases x) (auto simp: fits_def list_all_iff)

lemma mex_notification_typed: "mex_notification d = Some e \<Longrightarrow> conforms canonical_event (VObj e)"
  by (rule canonical_eventI [of canonical_mex_notification])
    (simp add: canonical_event_types_def, auto simp: mex_notification_def canonical_mex_notification_def event_fields typing Let_def)

text \<open>A participant has its two first fields and, in order, those of the others it carries.\<close>

lemma adaptGroupParticipant_typed: "adaptGroupParticipant raw = Some v \<Longrightarrow> conforms canonical_participant v"
proof -
  assume a: "adaptGroupParticipant raw = Some v"
  define role where "role = (let r = asString (jprop raw ''type'') in
     if r \<in> {Some ''participant'', Some ''admin'', Some ''superadmin''} then r else None)"
  have role: "role \<in> {None, Some ''participant'', Some ''admin'', Some ''superadmin''}" by (auto simp: role_def Let_def)
  obtain i where v: "v = VObj ([(''jid'', VStr i), (''phoneNumber'', opt_val (asJidString (jprop raw ''phone_number'')))] @
          set_if ''lid'' (asJidString (jprop raw ''lid'')) @ set_if ''username'' (asString (jprop raw ''username'')) @
          set_if ''displayName'' (asString (jprop raw ''display_name'')) @
          (case asNumber (jprop raw ''join_time'') of None \<Rightarrow> [] | Some n \<Rightarrow> [(''joinTime'', n)]) @ set_if ''role'' role)"
    using a by (auto simp: adaptGroupParticipant_def role_def Let_def)
  have get: "omap_get (set_if k o1 @ m) k' = (if k' = k \<and> nonempty o1 then Some (VStr (the o1)) else omap_get m k')" for k o1 m k'
    by (simp add: set_if_def)
  have getn: "omap_get ((case o1 of None \<Rightarrow> [] | Some n \<Rightarrow> [(k, n)]) @ m) k' =
      (if k' = k \<and> o1 \<noteq> None then o1 else omap_get m k')" for k o1 m k'
    by (simp split: option.split)
  have last: "omap_get (set_if ''role'' role) k' = (if k' = ''role'' \<and> nonempty role then Some (VStr (the role)) else None)" for k'
    by (simp add: set_if_def)
  show ?thesis
    unfolding v canonical_participant_def
    by (simp add: typing oget_def get getn last del: map_of_append)
      (use role in \<open>auto simp: typing fits_finite nonempty_def\<close>)
qed

lemma participants_typed: "conforms (TArray canonical_participant) (adaptGroupParticipants raw)"
  by (simp add: adaptGroupParticipants_def list_all_map_filter adaptGroupParticipant_typed)

lemma bare_participants_typed: "list_all (conforms canonical_participant) (List.map_filter bare_participant xs)"
  by (rule list_all_map_filter)
    (auto simp: bare_participant_def Let_def canonical_participant_def event_fields typing split: if_splits)

lemma if_caseE:
  assumes "(if c then x else y) = Some a" and "c \<Longrightarrow> x = Some a \<Longrightarrow> P" and "\<not> c \<Longrightarrow> y = Some a \<Longrightarrow> P"
  shows P
  using assms by (cases c) simp_all

lemma bind_caseE:
  assumes "(case x of None \<Rightarrow> None | Some y \<Rightarrow> f y) = Some a" and "\<And>y. x = Some y \<Longrightarrow> f y = Some a \<Longrightarrow> P"
  shows P
  using assms by (cases x) simp_all

text \<open>An action is of the arm of the union that has its literal.\<close>

lemma action_arm:
  assumes "TObj (tag t # fs) \<in> set group_action_arms" and "has_fields fs (VObj ((''type'', VStr t) # m))" and "act t m = Some a"
  shows "conforms canonical_group_action (VObj a)"
proof -
  have "conforms (TObj (tag t # fs)) (VObj a)"
    using assms(2,3) by (auto simp: act_def event_fields typing)
  then show ?thesis using assms(1) by (simp only: canonical_group_action_def conforms_union)
qed

lemma plain_action_typed: "map_of plain_actions norm = Some t \<Longrightarrow> act t [] = Some a \<Longrightarrow> conforms canonical_group_action (VObj a)"
proof (rule action_arm [of t "[]" "[]"])
  assume "map_of plain_actions norm = Some t"
  then have "t \<in> snd ` set plain_actions" using map_of_SomeD by force
  moreover have "TObj [tag s] \<in> set group_action_arms" if "s \<in> snd ` set plain_actions" for s
    using that by (auto simp: plain_actions_def group_action_arms_def)
  ultimately show "TObj [tag t] \<in> set group_action_arms" by blast
qed simp_all

lemma participant_action_typed:
  assumes "map_of participant_actions norm = Some t" and "act t [(''participants'', adaptGroupParticipants raw)] = Some a"
  shows "conforms canonical_group_action (VObj a)"
proof (rule action_arm [of t "[req ''participants'' (TArray canonical_participant)]" "[(''participants'', adaptGroupParticipants raw)]"])
  have "t \<in> snd ` set participant_actions" using map_of_SomeD [OF assms(1)] by force
  moreover have "TObj [tag s, req ''participants'' (TArray canonical_participant)] \<in> set group_action_arms"
    if "s \<in> snd ` set participant_actions" for s
    using that by (auto simp: participant_actions_def group_action_arms_def)
  ultimately show "TObj [tag t, req ''participants'' (TArray canonical_participant)] \<in> set group_action_arms" by blast
  show "has_fields [req ''participants'' (TArray canonical_participant)] (VObj [(''type'', VStr t), (''participants'', adaptGroupParticipants raw)])"
    using participants_typed by (simp add: event_fields typing fits_def)
qed (rule assms)

lemma group_action_arm_mem [simp]:
  "TObj [tag ''add'', req ''participants'' (TArray canonical_participant), opt ''reason'' TString] \<in> set group_action_arms"
  "TObj [tag ''remove'', req ''participants'' (TArray canonical_participant), opt ''reason'' TString] \<in> set group_action_arms"
  "TObj [tag ''subject'', req ''subject'' TString, opt ''subjectOwner'' TString, opt ''subjectTime'' TNumber] \<in> set group_action_arms"
  "TObj [tag ''description'', req ''id'' TString, opt ''description'' TString] \<in> set group_action_arms"
  "TObj [tag ''ephemeral'', req ''expiration'' TNumber, opt ''trigger'' TNumber] \<in> set group_action_arms"
  "TObj [tag ''membershipApprovalMode'', req ''enabled'' TBoolean] \<in> set group_action_arms"
  "TObj [tag ''memberAddMode'', req ''mode'' TString] \<in> set group_action_arms"
  "TObj [tag ''invite'', req ''code'' TString] \<in> set group_action_arms"
  "TObj [tag ''delete'', opt ''reason'' TString] \<in> set group_action_arms"
  "TObj [tag ''link'', req ''linkType'' TString] \<in> set group_action_arms"
  "TObj [tag ''unlink'', req ''unlinkType'' TString, opt ''unlinkReason'' TString] \<in> set group_action_arms"
  "TObj [tag ''limitSharingEnabled'', opt ''trigger'' TNumber] \<in> set group_action_arms"
  "TObj [tag ''changeNumber'', opt ''newOwner'' TString, req ''subGroupSuggestions'' (TArray TString)] \<in> set group_action_arms"
  "TObj [tag ''growthLocked'', req ''expiration'' TNumber, req ''lockType'' TString] \<in> set group_action_arms"
  "TObj [tag ''membershipApprovalRequest'', opt ''requestMethod'' TString, opt ''parentGroupJid'' TString] \<in> set group_action_arms"
  "TObj [tag ''createdMembershipRequests'', opt ''requestMethod'' TString, opt ''parentGroupJid'' TString,
        req ''requests'' (TArray canonical_participant)] \<in> set group_action_arms"
  "TObj [tag ''revokedMembershipRequests'', req ''participants'' (TArray canonical_participant)] \<in> set group_action_arms"
  "TObj [tag ''unknown'', req ''rawType'' TString] \<in> set group_action_arms"
  by (simp_all add: group_action_arms_def)

lemma participants_fit [typing]:
  "fits b (TArray canonical_participant) (adaptGroupParticipants x)"
  "fits b (TArray canonical_participant) (VArr (List.map_filter bare_participant xs))"
  using participants_typed bare_participants_typed by (simp_all add: fits_def)

lemma group_action_typed: "group_action_of raw norm rawType = Some a \<Longrightarrow> conforms canonical_group_action (VObj a)"
proof -
  assume a: "group_action_of raw norm rawType = Some a"
  consider t where "map_of plain_actions norm = Some t" "act t [] = Some a"
    | t where "map_of participant_actions norm = Some t" "act t [(''participants'', adaptGroupParticipants (jprop raw ''participants''))] = Some a"
    | "map_of plain_actions norm = None" "map_of participant_actions norm = None"
    using a by (cases "map_of plain_actions norm"; cases "map_of participant_actions norm") (auto simp: group_action_of_def Let_def)
  then show ?thesis
  proof cases
    case 1
    then show ?thesis by (rule plain_action_typed)
  next
    case 2
    then show ?thesis by (rule participant_action_typed)
  next
    case 3
    note arms = action_arm [OF group_action_arm_mem(1)] action_arm [OF group_action_arm_mem(2)]
      action_arm [OF group_action_arm_mem(3)] action_arm [OF group_action_arm_mem(4)] action_arm [OF group_action_arm_mem(5)]
      action_arm [OF group_action_arm_mem(6)] action_arm [OF group_action_arm_mem(7)] action_arm [OF group_action_arm_mem(8)]
      action_arm [OF group_action_arm_mem(9)] action_arm [OF group_action_arm_mem(10)] action_arm [OF group_action_arm_mem(11)]
      action_arm [OF group_action_arm_mem(12)] action_arm [OF group_action_arm_mem(13)] action_arm [OF group_action_arm_mem(14)]
      action_arm [OF group_action_arm_mem(15)] action_arm [OF group_action_arm_mem(16)] action_arm [OF group_action_arm_mem(17)]
      action_arm [OF group_action_arm_mem(18)]
    from a [unfolded group_action_of_def Let_def 3 option.case] show ?thesis
      apply (elim if_caseE bind_caseE disjE)
      apply (simp_all only:)
      apply (erule arms [rotated], simp add: event_fields typing fits_finite bare_participants_typed)+
      done
  qed
qed

lemma adaptGroupAction_typed: "adaptGroupAction raw = Some a \<Longrightarrow> conforms canonical_group_action (VObj a)"
proof -
  assume a: "adaptGroupAction raw = Some a"
  have unknown: "act ''unknown'' [(''rawType'', VStr s)] = Some a \<Longrightarrow> conforms canonical_group_action (VObj a)" for s
    by (rule action_arm [OF group_action_arm_mem(18)]) (simp_all add: event_fields typing)
  show ?thesis
    using a unknown group_action_typed by (cases "normalizeDiscriminator (jprop raw ''type'')") (auto simp: adaptGroupAction_def Let_def)
qed

lemma adaptGroupUpdate_typed: "adaptGroupUpdate rt d = Some e \<Longrightarrow> conforms canonical_event (VObj e)"
  by (rule canonical_eventI [of canonical_group_update_event])
    (simp add: canonical_event_types_def,
     auto simp: adaptGroupUpdate_def canonical_group_update_event_def event_fields typing Let_def fits_finite
       fits_def [of False canonical_group_action] adaptGroupAction_typed)

subsection \<open>The table\<close>

text \<open>What the table passes on without looking at it, as the bridge declares it.\<close>

definition declared :: "js_string \<Rightarrow> jv \<Rightarrow> bool" where
  "declared eventType data \<longleftrightarrow>
     (if eventType = ''qr'' \<or> eventType = ''pairing_code'' then is_string (jprop data ''code'')
      else if eventType = ''history_sync'' then optional_number (jprop data ''syncType'') \<and> optional_number (jprop data ''progress'')
      else if eventType = ''raw_node'' then conforms (TDict TString) (jprop data ''attrs'')
      else True)"

definition adapter_typed :: "js_string \<times> (jv \<Rightarrow> obj option) \<Rightarrow> bool" where
  "adapter_typed p \<longleftrightarrow> (\<forall>data e. declared (fst p) data \<longrightarrow> snd p data = Some e \<longrightarrow> conforms canonical_event (VObj e))"

lemma bare_arms:
  "canonical_connected \<in> set canonical_event_types" "canonical_disconnected \<in> set canonical_event_types"
  "canonical_stream_replaced \<in> set canonical_event_types" "canonical_client_outdated \<in> set canonical_event_types"
  "canonical_qr_scanned_without_multidevice \<in> set canonical_event_types" "canonical_qr_codes_exhausted \<in> set canonical_event_types"
  by (simp_all add: canonical_event_types_def)

lemma bare_typed: "(k, t) \<in> set bare_types \<Longrightarrow> conforms canonical_event (VObj [(''type'', VStr t)])"
proof -
  assume "(k, t) \<in> set bare_types"
  then have "t \<in> {''connected'', ''disconnected'', ''streamReplaced'', ''clientOutdated'', ''qrScannedWithoutMultidevice'', ''qrCodesExhausted''}"
    by (auto simp: bare_types_def)
  then have "TObj [tag t] \<in> set canonical_event_types"
    using bare_arms [unfolded canonical_connected_def canonical_disconnected_def canonical_stream_replaced_def
        canonical_client_outdated_def canonical_qr_scanned_without_multidevice_def canonical_qr_codes_exhausted_def]
    by (elim insertE emptyE) simp_all
  then show ?thesis by (rule canonical_eventI) (simp add: event_fields typing)
qed

lemma passkey_typed:
  "pairing_code_refresh d = Some e \<Longrightarrow> conforms canonical_event (VObj e)"
  "pair_passkey_confirmation d = Some e \<Longrightarrow> conforms canonical_event (VObj e)"
  "pair_passkey_error d = Some e \<Longrightarrow> conforms canonical_event (VObj e)"
  unfolding pairing_code_refresh_def pair_passkey_confirmation_def pair_passkey_error_def
  by (erule noop_with_typed, simp add: typing)+

lemmas adapters_typed = temporary_ban_typed logged_out_typed pair_success_typed pair_error_typed connect_failure_typed
  stream_error_typed pairing_code_error_typed server_ack_typed undecryptable_message_typed adaptContactUpdate_typed
  picture_update_typed presence_typed chat_presence_typed archive_update_typed pin_update_typed mute_update_typed
  mark_chat_as_read_update_typed lock_chat_update_typed adaptStarUpdate_typed app_state_sync_failed_typed
  unarchive_chats_setting_update_typed offline_sync_completed_typed dirty_state_typed label_edit_update_typed
  label_association_update_typed message_label_association_update_typed label_sublist_update_typed
  disappearing_mode_changed_typed delete_message_for_me_update_typed delete_chat_update_typed clear_chat_update_typed
  adaptReceipt_typed adaptMessage_typed disable_link_previews_update_typed status_privacy_update_typed
  reachout_timelock_update_typed missed_call_typed call_ended_elsewhere_typed adaptIncomingCall_typed
  newsletter_live_update_typed contact_number_changed_typed notification_typed mex_notification_typed adaptGroupUpdate_typed
  passkey_typed

lemma full_adapters_typed: "list_all adapter_typed (full_adapters rt)"
  unfolding full_adapters_def list.pred_inject(2) adapter_typed_def fst_conv snd_conv
  by (intro conjI allI impI; (erule adapters_typed)?; auto simp: declared_def intro: qr_typed history_sync_typed raw_node_typed)

lemma table_typed: "list_all adapter_typed (ADAPTERS rt)"
  using full_adapters_typed [of rt] bare_typed noop_typed
  by (auto simp: ADAPTERS_def adapter_typed_def list_all_iff bare_def)


definition plain_runtime :: js_runtime where
  "plain_runtime = \<lparr>js_now = 0, js_date_parse = \<lambda>s. None, js_number_text = \<lambda>v. []\<rparr>"


end
