(* ===== verification/MessageRoutes.thy ===== *)
theory MessageRoutes
  imports BridgeTyping
begin

text \<open>
  The two routes a message takes through \<open>src/src/Bridge/schema.ts\<close>, the event object and the packed
  envelope, agree; and the events that need a time never get an invented one.
\<close>

subsection \<open>The packed envelope\<close>

text \<open>The packed form of an event's envelope: JIDs rendered, the time read, the other fields as they are.\<close>

definition packed_info :: "js_runtime \<Rightarrow> jv \<Rightarrow> jv" where
  "packed_info rt info =
     (let src = obj_or_undefined (jprop info ''source'') in
      VObj [(''chat'', opt_val (asJidString (jprop src ''chat''))), (''id'', jprop info ''id''),
        (''isGroup'', jprop src ''is_group''), (''isFromMe'', jprop src ''is_from_me''),
        (''sender'', opt_val (asJidString (jprop src ''sender''))),
        (''senderAlt'', opt_val (asJidString (jprop src ''sender_alt''))),
        (''recipientAlt'', opt_val (asJidString (jprop src ''recipient_alt''))),
        (''timestamp'', onum (seconds rt (jprop info ''timestamp''))), (''pushName'', jprop info ''push_name''),
        (''isViewOnce'', jprop info ''is_view_once''), (''isOffline'', jprop info ''is_offline''),
        (''unavailableRequestId'', jprop info ''unavailable_request_id''), (''edit'', jprop info ''edit'')])"

lemma asString_opt_val [simp]: "asString (opt_val o1) = o1"
  by (cases o1) (simp_all add: opt_val_def asString_def)

lemma asNumber_idem: "asNumber x = Some v \<Longrightarrow> asNumber v = Some v"
  by (cases x rule: asNumber.cases) auto

lemma asNumber_onum_seconds [simp]: "asNumber (onum (seconds rt x)) = seconds rt x"
  by (cases "seconds rt x")
    (auto simp: onum_def seconds_def asUnixSeconds_def dest: asNumber_idem split: option.splits jv.splits)

lemma true_only: "(b = VBool True) = asBoolOr b False"
  by (cases b) (auto simp: asBoolOr_def)

lemma packed_fields:
  "jprop (packed_info rt info) ''chat'' = opt_val (asJidString (jprop (obj_or_undefined (jprop info ''source'')) ''chat''))"
  "jprop (packed_info rt info) ''id'' = jprop info ''id''"
  "jprop (packed_info rt info) ''isGroup'' = jprop (obj_or_undefined (jprop info ''source'')) ''is_group''"
  "jprop (packed_info rt info) ''isFromMe'' = jprop (obj_or_undefined (jprop info ''source'')) ''is_from_me''"
  "jprop (packed_info rt info) ''sender'' = opt_val (asJidString (jprop (obj_or_undefined (jprop info ''source'')) ''sender''))"
  "jprop (packed_info rt info) ''senderAlt'' = opt_val (asJidString (jprop (obj_or_undefined (jprop info ''source'')) ''sender_alt''))"
  "jprop (packed_info rt info) ''recipientAlt'' = opt_val (asJidString (jprop (obj_or_undefined (jprop info ''source'')) ''recipient_alt''))"
  "jprop (packed_info rt info) ''timestamp'' = onum (seconds rt (jprop info ''timestamp''))"
  "jprop (packed_info rt info) ''pushName'' = jprop info ''push_name''"
  "jprop (packed_info rt info) ''isViewOnce'' = jprop info ''is_view_once''"
  "jprop (packed_info rt info) ''isOffline'' = jprop info ''is_offline''"
  "jprop (packed_info rt info) ''unavailableRequestId'' = jprop info ''unavailable_request_id''"
  "jprop (packed_info rt info) ''edit'' = jprop info ''edit''"
  by (simp_all add: packed_info_def Let_def oget_def)

lemma no_chat [simp]: "asJidString VUndef = None"
  by (simp add: asJidString_def asBridgeJid_def isBridgeJid_def)

text \<open>
  C38: The two message routes agree. A message adapted from its event object and the same message adapted from the
  packed form of its envelope are the same canonical message, field by field and in the same order,
  except that only the object route carries the newsletter's server id; and one route drops a
  message exactly when the other does.
\<close>

theorem message_routes_agree:
  "isObject messageProto \<longrightarrow>
     adaptBridgeMessageWire rt messageProto (packed_info rt info) =
       map_option (omap_del ''serverId'') (adaptMessageParts rt info messageProto)"
proof
  assume p: "isObject messageProto"
  define src where "src = obj_or_undefined (jprop info ''source'')"
  have chat: "src = VUndef \<Longrightarrow> \<not> nonempty (asJidString (jprop src ''chat''))" by (simp add: nonempty_def)
  show "adaptBridgeMessageWire rt messageProto (packed_info rt info) =
       map_option (omap_del ''serverId'') (adaptMessageParts rt info messageProto)"
    using p chat
    unfolding adaptBridgeMessageWire_def adaptMessageParts_def packed_fields src_def [symmetric] asString_opt_val asNumber_onum_seconds true_only Let_def
    by (auto split: option.split)
qed

definition info_example :: jv where
  "info_example = VObj [(''source'', VObj [(''chat'', VObj [(''user'', VStr ''7''), (''server'', VStr ''lid'')])]), (''id'', VStr ''A''),
     (''timestamp'', VNum 5), (''newsletter_server_id'', VStr ''99'')]"

theorem message_routes_agree_witness:
  "adaptBridgeMessageWire plain_runtime (VObj []) (packed_info plain_runtime info_example) =
     map_option (omap_del ''serverId'') (adaptMessageParts plain_runtime info_example (VObj []))"
  by (rule message_routes_agree [rule_format]) simp

subsection \<open>Times\<close>

text \<open>Where an event that must have a time has it.\<close>

definition timed_events :: "js_string list" where
  "timed_events = [''message'', ''undecryptable_message'', ''receipt'', ''group_update'', ''missed_call'', ''call_ended_elsewhere'']"

definition time_of :: "js_string \<Rightarrow> jv \<Rightarrow> jv" where
  "time_of eventType data =
     (if eventType = ''message'' \<or> eventType = ''undecryptable_message'' then jprop (jprop data ''info'') ''timestamp''
      else jprop data ''timestamp'')"

lemma obj_or_undefined_id: "obj_or_undefined x \<noteq> VUndef \<Longrightarrow> obj_or_undefined x = x"
  by (simp add: obj_or_undefined_def split: if_splits)

lemma timed_lookup:
  "adaptBridgeEvent rt ''message'' data = adaptMessage rt data"
  "adaptBridgeEvent rt ''undecryptable_message'' data = undecryptable_message rt data"
  "adaptBridgeEvent rt ''receipt'' data = adaptReceipt rt data"
  "adaptBridgeEvent rt ''group_update'' data = adaptGroupUpdate rt data"
  "adaptBridgeEvent rt ''missed_call'' data = missed_call rt data"
  "adaptBridgeEvent rt ''call_ended_elsewhere'' data = call_ended_elsewhere rt data"
  by (simp_all add: adaptBridgeEvent_def ADAPTERS_def full_adapters_def)

lemma time_parts: "adaptMessageParts rt i p = Some e \<Longrightarrow> seconds rt (jprop i ''timestamp'') = Some (oget e ''timestamp'')"
  by (auto simp: adaptMessageParts_def Let_def oget_def)

lemma time_message: "adaptMessage rt data = Some e \<Longrightarrow> seconds rt (jprop (jprop data ''info'') ''timestamp'') = Some (oget e ''timestamp'')"
  using time_parts [of rt "jprop data ''info''"] obj_or_undefined_id [of "jprop data ''info''"]
  by (auto simp: adaptMessage_def Let_def)

lemma time_undecryptable:
  "undecryptable_message rt data = Some e \<Longrightarrow> seconds rt (jprop (jprop data ''info'') ''timestamp'') = Some (oget e ''timestamp'')"
  using obj_or_undefined_id [of "jprop data ''info''"] by (auto simp: undecryptable_message_def Let_def oget_def)

lemma time_data:
  "adaptReceipt rt data = Some e \<Longrightarrow> seconds rt (jprop data ''timestamp'') = Some (oget e ''timestamp'')"
  "adaptGroupUpdate rt data = Some e \<Longrightarrow> seconds rt (jprop data ''timestamp'') = Some (oget e ''timestamp'')"
  "call_outcome rt data off t = Some e \<Longrightarrow> seconds rt (jprop data ''timestamp'') = Some (oget e ''timestamp'')"
  by (auto simp: adaptReceipt_def adaptGroupUpdate_def call_outcome_def Let_def oget_def case_prod_beta)

lemma time_read:
  assumes "eventType \<in> set timed_events" "adaptBridgeEvent rt eventType data = Some e"
  shows "seconds rt (time_of eventType data) = Some (oget e ''timestamp'')"
proof -
  have t: "time_of ''message'' data = jprop (jprop data ''info'') ''timestamp''"
    "time_of ''undecryptable_message'' data = jprop (jprop data ''info'') ''timestamp''"
    "time_of ''receipt'' data = jprop data ''timestamp''" "time_of ''group_update'' data = jprop data ''timestamp''"
    "time_of ''missed_call'' data = jprop data ''timestamp''" "time_of ''call_ended_elsewhere'' data = jprop data ''timestamp''"
    by (simp_all add: time_of_def)
  have "eventType = ''message'' \<or> eventType = ''undecryptable_message'' \<or> eventType = ''receipt'' \<or>
    eventType = ''group_update'' \<or> eventType = ''missed_call'' \<or> eventType = ''call_ended_elsewhere''"
    using assms(1) unfolding timed_events_def by simp
  then show ?thesis
  proof (elim disjE)
    assume 1: "eventType = ''message''"
    show ?thesis unfolding 1 t using assms(2) [unfolded 1 timed_lookup] by (rule time_message)
  next
    assume 2: "eventType = ''undecryptable_message''"
    show ?thesis unfolding 2 t using assms(2) [unfolded 2 timed_lookup] by (rule time_undecryptable)
  next
    assume 3: "eventType = ''receipt''"
    show ?thesis unfolding 3 t using assms(2) [unfolded 3 timed_lookup] by (rule time_data(1))
  next
    assume 4: "eventType = ''group_update''"
    show ?thesis unfolding 4 t using assms(2) [unfolded 4 timed_lookup] by (rule time_data(2))
  next
    assume 5: "eventType = ''missed_call''"
    show ?thesis unfolding 5 t using assms(2) [unfolded 5 timed_lookup missed_call_def] by (rule time_data(3))
  next
    assume 6: "eventType = ''call_ended_elsewhere''"
    show ?thesis unfolding 6 t using assms(2) [unfolded 6 timed_lookup call_ended_elsewhere_def] by (rule time_data(3))
  qed
qed

lemma time_source:
  assumes "seconds rt x = Some v"
  shows "(v = x \<and> is_finite x) \<or> (\<exists>s t. x = VStr s \<and> v = VNum t \<and> parseRfc3339Seconds (js_date_parse rt) s = Some t)"
  using assms by (cases x rule: asNumber.cases) (auto simp: seconds_def asUnixSeconds_def is_finite_def)

text \<open>
  C39: A time is never invented. A message, an undecryptable message, a receipt, a group update or a call outcome
  that is let through has as its time the one its payload carries, a finite number as it is or a
  time stamp read from its text, and one whose time is missing, malformed, not finite or a
  date that does not exist is dropped, whatever else it holds; it is never dated at the epoch.
\<close>

theorem times_are_never_invented:
  "(eventType \<in> set timed_events \<and> adaptBridgeEvent rt eventType data = Some e \<longrightarrow>
      seconds rt (time_of eventType data) = Some (oget e ''timestamp'')) \<and>
   (eventType \<in> set timed_events \<and> seconds rt (time_of eventType data) = None \<longrightarrow> adaptBridgeEvent rt eventType data = None) \<and>
   (seconds rt x = Some v \<longrightarrow> (v = x \<and> is_finite x) \<or>
      (\<exists>s t. x = VStr s \<and> v = VNum t \<and> parseRfc3339Seconds (js_date_parse rt) s = Some t))"
proof -
  have "adaptBridgeEvent rt eventType data = None"
    if "eventType \<in> set timed_events" "seconds rt (time_of eventType data) = None"
    using time_read [OF that(1)] that(2) by (cases "adaptBridgeEvent rt eventType data") auto
  then show ?thesis using time_read time_source by blast
qed

theorem times_are_never_invented_witness:
  "seconds plain_runtime (VNum 5) = Some (VNum 5) \<and>
   adaptBridgeEvent plain_runtime ''message'' (VObj [(''info'', VObj [(''id'', VStr ''A'')]), (''message'', VObj [])]) = None"
proof -
  have "adaptBridgeEvent plain_runtime ''missed_call'' (VObj [(''from'', VObj [(''user'', VStr ''7''), (''server'', VStr ''lid'')]),
      (''call_id'', VStr ''C''), (''timestamp'', VNum 5)]) =
    Some [(''type'', VStr ''incomingCall''), (''from'', VStr ''7@lid''), (''timestamp'', VNum 5), (''offline'', VBool False),
      (''action'', VObj [(''type'', VStr ''timeout''), (''callId'', VStr ''C'')])]"
    by code_simp
  then show ?thesis
    using times_are_never_invented [THEN conjunct1, rule_format, of "''missed_call''" plain_runtime]
      times_are_never_invented [THEN conjunct2, THEN conjunct1, rule_format, of "''message''" plain_runtime
        "VObj [(''info'', VObj [(''id'', VStr ''A'')]), (''message'', VObj [])]"]
    by (simp add: timed_events_def time_of_def oget_def) (simp add: seconds_def asUnixSeconds_def)
qed

end
