(* ===== verification/Boom.thy ===== *)
theory Boom
  imports JsVal
begin

text \<open>
  The error type of the library when \<open>@hapi/boom\<close> is not installed: \<open>src/src/Utils/boom.ts\<close>. A thrown
  \<open>TypeError\<close> or \<open>Error\<close> of the constructor is the left summand. Status codes are integers; the stack trace
  and the constructor reference are left out.
\<close>

record boom_output =
  statusCode :: int
  payload :: obj

record js_error =
  message :: js_string
  own_data :: "jv option"
  boom_mark :: bool
  isServer :: bool
  response :: "boom_output option"
  decorated :: obj

record boom_options =
  opt_statusCode :: "int option"
  opt_data :: jv
  opt_message :: js_string
  opt_override :: "bool option"
  opt_decorate :: obj

definition no_options :: boom_options where
  "no_options = \<lparr>opt_statusCode = None, opt_data = VUndef, opt_message = [], opt_override = None, opt_decorate = []\<rparr>"

definition plain_error :: "js_string \<Rightarrow> js_error" where
  "plain_error m = \<lparr>message = m, own_data = None, boom_mark = False, isServer = False, response = None, decorated = []\<rparr>"

definition STATUS_MESSAGES :: "(int \<times> js_string) list" where
  "STATUS_MESSAGES =
     [(100, ''Continue''), (101, ''Switching Protocols''), (102, ''Processing''), (200, ''OK''), (201, ''Created''),
      (202, ''Accepted''), (203, ''Non-Authoritative Information''), (204, ''No Content''), (205, ''Reset Content''),
      (206, ''Partial Content''), (207, ''Multi-Status''), (300, ''Multiple Choices''), (301, ''Moved Permanently''),
      (302, ''Moved Temporarily''), (303, ''See Other''), (304, ''Not Modified''), (305, ''Use Proxy''),
      (307, ''Temporary Redirect''), (400, ''Bad Request''), (401, ''Unauthorized''), (402, ''Payment Required''),
      (403, ''Forbidden''), (404, ''Not Found''), (405, ''Method Not Allowed''), (406, ''Not Acceptable''),
      (407, ''Proxy Authentication Required''), (408, ''Request Time-out''), (409, ''Conflict''), (410, ''Gone''),
      (411, ''Length Required''), (412, ''Precondition Failed''), (413, ''Request Entity Too Large''),
      (414, ''Request-URI Too Large''), (415, ''Unsupported Media Type''), (416, ''Requested Range Not Satisfiable''),
      (417, ''Expectation Failed''), (418, ''I'' @ [CHR 0x27] @ ''m a teapot''), (422, ''Unprocessable Entity''), (423, ''Locked''),
      (424, ''Failed Dependency''), (425, ''Too Early''), (426, ''Upgrade Required''), (428, ''Precondition Required''),
      (429, ''Too Many Requests''), (431, ''Request Header Fields Too Large''), (451, ''Unavailable For Legal Reasons''),
      (500, ''Internal Server Error''), (501, ''Not Implemented''), (502, ''Bad Gateway''), (503, ''Service Unavailable''),
      (504, ''Gateway Time-out''), (505, ''HTTP Version Not Supported''), (506, ''Variant Also Negotiates''),
      (507, ''Insufficient Storage''), (509, ''Bandwidth Limit Exceeded''), (510, ''Not Extended''),
      (511, ''Network Authentication Required'')]"

definition status_message :: "int \<Rightarrow> js_string" where
  "status_message code = (case map_of STATUS_MESSAGES code of None \<Rightarrow> ''Unknown'' | Some m \<Rightarrow> m)"

text \<open>The payload rebuilt from the status code and the message of the error.\<close>

definition reformatBoom :: "bool \<Rightarrow> js_string \<Rightarrow> boom_output \<Rightarrow> boom_output" where
  "reformatBoom debug msg out =
     (let p1 = omap_set ''error'' (VStr (status_message (statusCode out)))
            (omap_set ''statusCode'' (VNum (statusCode out)) (payload out))
      in out\<lparr>payload :=
        (if statusCode out = 500 \<and> \<not> debug then omap_set ''message'' (VStr ''An internal server error occurred'') p1
         else if msg \<noteq> [] then omap_set ''message'' (VStr msg) p1 else p1)\<rparr>)"

definition initializeBoom :: "js_error \<Rightarrow> int \<Rightarrow> js_string \<Rightarrow> js_string + js_error" where
  "initializeBoom error code msg =
     (case parse_int10 (show_int code) of
        None \<Rightarrow> Inl (''First argument must be a number (400+): '' @ show_int code)
      | Some c \<Rightarrow>
          if c < 400 then Inl (''First argument must be a number (400+): '' @ show_int code)
          else
            let out0 = \<lparr>statusCode = c, payload = []\<rparr>;
                out1 = (if msg = [] \<and> message error = [] then reformatBoom False [] out0 else out0);
                msg1 = (if msg = [] \<and> message error = [] then str_of (oget (payload out1) ''error'') else msg);
                text = (if msg1 \<noteq> [] then msg1 @ (if message error \<noteq> [] then '': '' @ message error else [])
                        else message error);
                out2 = (if msg1 \<noteq> [] then out1\<lparr>payload := omap_set ''message'' (VStr text) (payload out1)\<rparr> else out1)
            in Inr (error\<lparr>message := text, boom_mark := True, isServer := (500 \<le> c),
                 own_data := (if own_data error = None then Some VNull else own_data error),
                 response := Some (reformatBoom False text out2)\<rparr>))"

definition boomifyFallback :: "js_error \<Rightarrow> boom_options \<Rightarrow> js_string + js_error" where
  "boomifyFallback error options =
     (let e1 = error\<lparr>own_data := (if opt_data options \<noteq> VUndef then Some (opt_data options) else own_data error),
            decorated := object_assign (decorated error) (opt_decorate options)\<rparr>
      in if \<not> boom_mark e1
         then initializeBoom e1 (case opt_statusCode options of None \<Rightarrow> 500 | Some c \<Rightarrow> c) (opt_message options)
         else if opt_override options = Some False \<or>
                 (opt_statusCode options \<in> {None, Some 0} \<and> opt_message options = [])
         then Inr e1
         else
           (case (opt_statusCode options, response e1) of
              (Some c, _) \<Rightarrow> initializeBoom e1 c (opt_message options)
            | (None, Some out) \<Rightarrow> initializeBoom e1 (statusCode out) (opt_message options)
            | (None, None) \<Rightarrow> Inl ''Cannot read properties of undefined''))"

text \<open>\<open>new Boom(message, options)\<close> and \<open>new Boom(error, options)\<close>\<close>

definition new_boom :: "js_string \<Rightarrow> boom_options \<Rightarrow> js_string + js_error" where
  "new_boom text options =
     (case initializeBoom ((plain_error text)\<lparr>own_data := Some (if nullish (opt_data options) then VNull else opt_data options)\<rparr>)
        (case opt_statusCode options of None \<Rightarrow> 500 | Some c \<Rightarrow> c) [] of
        Inl e \<Rightarrow> Inl e
      | Inr b \<Rightarrow> Inr (b\<lparr>decorated := object_assign (decorated b) (opt_decorate options)\<rparr>))"

definition boom_of_error :: "js_error \<Rightarrow> boom_options \<Rightarrow> js_string + js_error" where
  "boom_of_error error options = boomifyFallback error options"

definition isBoomFallback :: "js_error option \<Rightarrow> int option \<Rightarrow> bool" where
  "isBoomFallback obj code \<longleftrightarrow>
     (case obj of
        None \<Rightarrow> False
      | Some e \<Rightarrow> boom_mark e \<and>
          (case code of None \<Rightarrow> True
           | Some c \<Rightarrow> (case response e of None \<Rightarrow> False | Some out \<Rightarrow> statusCode out = c)))"

text \<open>The error as a value of an event.\<close>

definition error_val :: "js_error \<Rightarrow> jv" where
  "error_val e =
     VObj [(''message'', VStr (message e)), (''data'', (case own_data e of None \<Rightarrow> VUndef | Some d \<Rightarrow> d)),
       (''isBoom'', VBool (boom_mark e)), (''isServer'', VBool (isServer e)),
       (''output'', (case response e of None \<Rightarrow> VUndef
          | Some out \<Rightarrow> VObj [(''statusCode'', VNum (statusCode out)), (''payload'', VObj (payload out))]))]"

subsection \<open>Well-formed errors\<close>

text \<open>What every error of the library promises its reader.\<close>

definition boom_ok :: "js_error \<Rightarrow> bool" where
  "boom_ok e \<longleftrightarrow> boom_mark e \<and> message e \<noteq> [] \<and> own_data e \<noteq> None \<and>
     (case response e of
        None \<Rightarrow> False
      | Some out \<Rightarrow> 400 \<le> statusCode out \<and> (isServer e \<longleftrightarrow> 500 \<le> statusCode out) \<and>
          oget (payload out) ''statusCode'' = VNum (statusCode out) \<and>
          oget (payload out) ''error'' = VStr (status_message (statusCode out)) \<and>
          oget (payload out) ''message'' =
            VStr (if statusCode out = 500 then ''An internal server error occurred'' else message e))"

lemma parse_show_int: "0 \<le> n \<Longrightarrow> parse_int10 (show_int n) = Some n"
  using parse_int10_show_nat [of "nat n"] by (simp add: show_int_def)

lemma status_message_nonempty: "status_message code \<noteq> []"
proof -
  have "list_all (\<lambda>p. snd p \<noteq> []) STATUS_MESSAGES" by (simp add: STATUS_MESSAGES_def)
  then show ?thesis
    by (auto simp: status_message_def list_all_iff split: option.split dest!: map_of_SomeD)
qed

lemma reformat_fields:
  "statusCode (reformatBoom debug msg out) = statusCode out"
  "oget (payload (reformatBoom debug msg out)) ''statusCode'' = VNum (statusCode out)"
  "oget (payload (reformatBoom debug msg out)) ''error'' = VStr (status_message (statusCode out))"
  "msg \<noteq> [] \<Longrightarrow> oget (payload (reformatBoom False msg out)) ''message'' =
     VStr (if statusCode out = 500 then ''An internal server error occurred'' else msg)"
  by (auto simp: reformatBoom_def Let_def omap_simps)

lemma initialized_ok:
  assumes "initializeBoom e c m = Inr b"
  shows "boom_ok b" "response b \<noteq> None" "statusCode (the (response b)) = the (parse_int10 (show_int c))"
proof -
  obtain n where n: "parse_int10 (show_int c) = Some n" "400 \<le> n"
    using assms by (auto simp: initializeBoom_def split: option.splits if_splits)
  show "boom_ok b" "response b \<noteq> None" "statusCode (the (response b)) = the (parse_int10 (show_int c))"
    using assms n(2) status_message_nonempty [of n]
    by (auto simp: initializeBoom_def n(1) boom_ok_def Let_def reformat_fields split: if_splits)
qed

lemma initialize_total: "400 \<le> c \<Longrightarrow> \<exists>b. initializeBoom e c m = Inr b"
  by (simp add: initializeBoom_def parse_show_int Let_def)

end
