(* ===== verification/DateText.thy ===== *)
theory DateText
  imports Timestamps
begin

text \<open>
  \<open>Date.prototype.toISOString\<close> as ECMAScript defines it, for the messages that print a deadline, and its
  round trip through the time stamp reader of \<open>src/src/Bridge/primitives.ts\<close>.
\<close>

definition year_from_day :: "int \<Rightarrow> int" where
  "year_from_day day =
     (let y = 1970 + day * 400 div 146097 in
      if day < day_from_year y then y - 1 else if day_from_year (y + 1) \<le> day then y + 1 else y)"

text \<open>The month and day of month, from the days past the start of the year.\<close>

fun month_day :: "int \<Rightarrow> int \<Rightarrow> int list \<Rightarrow> int \<times> int" where
  "month_day y r [] = (12, r + 1)"
| "month_day y r (m # ms) = (if r < daysInMonth y m then (m, r + 1) else month_day y (r - daysInMonth y m) ms)"

definition pad_digits :: "nat \<Rightarrow> nat \<Rightarrow> js_string" where
  "pad_digits k n = replicate (k - length (show_nat n)) CHR ''0'' @ show_nat n"

text \<open>The largest time value of a \<open>Date\<close>, in milliseconds; beyond it \<open>toISOString\<close> throws a \<open>RangeError\<close>.\<close>

definition MAX_TIME_VALUE :: int where
  "MAX_TIME_VALUE = 8640000000000000"

definition year_text :: "int \<Rightarrow> js_string" where
  "year_text y =
     (if 0 \<le> y \<and> y \<le> 9999 then pad2 (nat y div 100) @ pad2 (nat y mod 100)
      else (if y < 0 then ''-'' else ''+'') @ pad_digits 6 (nat \<bar>y\<bar>))"

definition toISOString :: "int \<Rightarrow> js_string option" where
  "toISOString ms =
     (if MAX_TIME_VALUE < \<bar>ms\<bar> then None
      else
        let day = ms div 86400000; t = nat (ms mod 86400000); y = year_from_day day;
            (m, d) = month_day y (day - day_from_year y) [1..12]
        in Some (year_text y @ ''-'' @ pad2 (nat m) @ ''-'' @ pad2 (nat d) @ ''T'' @
             pad2 (t div 3600000) @ '':'' @ pad2 (t div 60000 mod 60) @ '':'' @ pad2 (t div 1000 mod 60) @ ''.'' @
             pad_digits 3 (t mod 1000) @ ''Z''))"

subsection \<open>The calendar fields are those of the day\<close>

lemma div_bounds: "0 < (n::int) \<Longrightarrow> n * (a div n) \<le> a \<and> a < n * (a div n) + n"
  using pos_mod_bound [of n a] pos_mod_sign [of n a] mult_div_mod_eq [of n a] by linarith

lemma year_from_day_bounds: "day_from_year (year_from_day d) \<le> d" "d < day_from_year (year_from_day d + 1)"
proof -
  define y where "y = 1970 + d * 400 div 146097"
  have e: "146097 * (y - 1970) \<le> d * 400" "d * 400 < 146097 * (y - 1970) + 146097"
    using div_bounds [of 146097 "d * 400"] by (simp_all add: y_def)
  have lo: "day_from_year (y - 1) \<le> d"
    using div_bounds [of 4 "y - 1970"] div_bounds [of 100 "y - 1902"] div_bounds [of 400 "y - 1602"] e
    by (simp add: day_from_year_def)
  have hi: "d < day_from_year (y + 2)"
    using div_bounds [of 4 "y - 1967"] div_bounds [of 100 "y - 1899"] div_bounds [of 400 "y - 1599"] e
    by (simp add: day_from_year_def)
  show "day_from_year (year_from_day d) \<le> d" "d < day_from_year (year_from_day d + 1)"
    using lo hi by (auto simp: year_from_day_def Let_def y_def [symmetric] add.commute)
qed

lemma month_day_found:
  assumes "1 \<le> m" "m \<le> 12" "0 \<le> r" "days_before_month y m + r < days_before_month y 13"
    and "month_day y r [m..12] = (m', d')"
  shows "1 \<le> m' \<and> m' \<le> 12 \<and> 1 \<le> d' \<and> d' \<le> daysInMonth y m' \<and> days_before_month y m' + (d' - 1) = days_before_month y m + r"
  using assms
proof (induction "nat (12 - m)" arbitrary: m r)
  case 0
  then have "m = 12" by simp
  then show ?case using 0 month_end [of 12 y] by (auto split: if_splits)
next
  case (Suc k)
  have list: "[m..12] = m # [m + 1..12]" using Suc.prems by (simp add: upto_rec1)
  show ?case
  proof (cases "r < daysInMonth y m")
    case True
    then show ?thesis using Suc.prems by (auto simp: list)
  next
    case False
    have "days_before_month y (m + 1) = days_before_month y m + daysInMonth y m"
      using Suc.prems by (intro month_end) simp
    moreover have "month_day y (r - daysInMonth y m) [m + 1..12] = (m', d')" using Suc.prems False by (simp add: list)
    ultimately show ?thesis using Suc.hyps(1) [of "m + 1" "r - daysInMonth y m"] Suc.hyps(2) Suc.prems False by auto
  qed
qed

lemma year_day:
  assumes "month_day (year_from_day day) (day - day_from_year (year_from_day day)) [1..12] = (m, d)"
  shows "1 \<le> m \<and> m \<le> 12 \<and> 1 \<le> d \<and> d \<le> daysInMonth (year_from_day day) m \<and> epoch_day (year_from_day day) m d = day"
proof -
  define y where "y = year_from_day day"
  have "days_before_month y 13 = day_from_year (y + 1) - day_from_year y" using year_days [of y] year_length [of y] by simp
  moreover have "days_before_month y 1 = 0" by (simp add: days_before_month_def)
  ultimately show ?thesis
    using month_day_found [of 1 "day - day_from_year y" y m d] year_from_day_bounds [of day] assms
    by (simp add: y_def [symmetric] epoch_day_def)
qed

lemma year_of_four_digits:
  assumes "day_from_year 0 \<le> day" "day < day_from_year 10000"
  shows "0 \<le> year_from_day day" "year_from_day day \<le> 9999"
proof -
  have mono: "day_from_year a \<le> day_from_year b" if "a \<le> b" for a b
    using that
  proof (induction "nat (b - a)" arbitrary: b)
    case (Suc k)
    then have "day_from_year a \<le> day_from_year (b - 1)" by simp
    then show ?case using year_length [of "b - 1"] by simp
  qed simp
  show "0 \<le> year_from_day day"
    using year_from_day_bounds(2) [of day] assms(1) mono [of "year_from_day day + 1" 0] by linarith
  show "year_from_day day \<le> 9999"
    using year_from_day_bounds(1) [of day] assms(2) mono [of 10000 "year_from_day day"] by linarith
qed

subsection \<open>Round trip\<close>

lemma three_digits:
  assumes "n < 1000"
  shows "length (pad_digits 3 n) = 3" "list_all is_digit (pad_digits 3 n)"
proof -
  have "length (show_nat n) \<le> 3"
    using assms by (simp add: show_nat.simps [of n] show_nat.simps [of "n div 10"] show_nat.simps [of "n div 10 div 10"])
  then show "length (pad_digits 3 n) = 3" by (simp add: pad_digits_def)
  show "list_all is_digit (pad_digits 3 n)"
    using show_nat_digits [of n] by (auto simp: pad_digits_def list_all_iff is_digit_def)
qed

lemma sexagesimal: "(q::nat) = q div 60 div 60 * 3600 + q div 60 mod 60 * 60 + q mod 60"
proof -
  define a where "a = q div 60"
  have "q = 60 * a + q mod 60" "a = 60 * (a div 60) + a mod 60" by (simp_all add: a_def)
  then show ?thesis unfolding a_def [symmetric] by linarith
qed

lemma digit_value: "is_digit c \<Longrightarrow> 0 \<le> (of_char c :: int) - 48 \<and> (of_char c :: int) - 48 \<le> 9"
  using of_nat_of_char [of c, where ?'a = int] by (auto simp: is_digit_def)

lemma fraction_text:
  assumes "n < 1000"
  defines "rest \<equiv> ''.'' @ pad_digits 3 n @ ''Z''"
  shows "fraction_part rest = (Some (pad_digits 3 n), ''Z'')" "0 \<le> millis (Some (pad_digits 3 n))" "millis (Some (pad_digits 3 n)) < 1000"
proof -
  obtain a b c where abc: "pad_digits 3 n = [a, b, c]" "is_digit a" "is_digit b" "is_digit c"
    using three_digits [OF assms(1)] by (auto simp: length_Suc_conv eval_nat_numeral)
  then show "fraction_part rest = (Some (pad_digits 3 n), ''Z'')"
    by (simp add: fraction_part_def rest_def, simp add: is_digit_def)
  show "0 \<le> millis (Some (pad_digits 3 n))" "millis (Some (pad_digits 3 n)) < 1000"
    using digit_value [OF abc(2)] digit_value [OF abc(3)] digit_value [OF abc(4)]
    by (simp_all add: abc(1) millis_def digit_at_def digits2_def)
qed

text \<open>The instants whose year has four digits.\<close>

definition four_digit_years :: "int \<Rightarrow> bool" where
  "four_digit_years ms \<longleftrightarrow> day_from_year 0 * 86400000 \<le> ms \<and> ms < day_from_year 10000 * 86400000"

lemma iso_string_read_back:
  assumes "four_digit_years ms"
  shows "\<exists>s. toISOString ms = Some s \<and> parseRfc3339Seconds other s = Some (ms div 1000)"
proof -
  define day where "day = ms div 86400000"
  define t where "t = nat (ms mod 86400000)"
  define y where "y = year_from_day day"
  obtain m d where md: "month_day y (day - day_from_year y) [1..12] = (m, d)" by fastforce
  note cal = year_day [OF md [unfolded y_def]]
  have t: "t < 86400000" "ms = day * 86400000 + int t"
    by (simp_all add: t_def day_def nat_less_iff)
  have range: "day_from_year 0 \<le> day" "day < day_from_year 10000"
    using assms div_bounds [of 86400000 ms] by (simp_all add: four_digit_years_def day_def)
  have year: "0 \<le> y" "y \<le> 9999" using year_of_four_digits [OF range] by (simp_all add: y_def)
  define h where "h = t div 3600000"
  define mi where "mi = t div 60000 mod 60"
  define s where "s = t div 1000 mod 60"
  have clock: "h < 24" "mi < 60" "s < 60" "t mod 1000 < 1000" using t(1) by (simp_all add: h_def mi_def s_def less_mult_imp_div_less)
  have parts: "int t div 1000 = int h * 3600 + int mi * 60 + int s"
  proof -
    have "t div 1000 = h * 3600 + mi * 60 + s"
      unfolding h_def mi_def s_def
      using div_mult2_eq [of t 1000 60] div_mult2_eq [of t 60000 60] sexagesimal [of "t div 1000"] by simp
    from arg_cong [OF this, of int] show ?thesis by (simp add: zdiv_int)
  qed
  define rest where "rest = ''.'' @ pad_digits 3 (t mod 1000) @ ''Z''"
  note frac = fraction_text [OF clock(4), folded rest_def]
  have d31: "d \<le> 31" using cal days_below_32 [of y m] by (simp add: y_def)
  have printed: "toISOString ms = Some (iso_text (nat y) (nat m) (nat d) h mi s rest)"
  proof -
    have "\<bar>ms\<bar> \<le> MAX_TIME_VALUE" using assms by (auto simp: four_digit_years_def day_from_year_def MAX_TIME_VALUE_def abs_le_iff)
    then show ?thesis
      using md year by (simp add: toISOString_def Let_def day_def [symmetric] t_def [symmetric] y_def [symmetric] year_text_def
          iso_text_def h_def mi_def s_def rest_def)
  qed
  have b: "nat y < 10000" "nat m < 100" "nat d < 100" "h < 100" "mi < 100" "s < 100" using year cal d31 clock by auto
  note f = iso_fields [OF b, of rest]
  have whole: "int (nat y div 100) * 100 + int (nat y mod 100) = y" using year
    by (metis div_mult_mod_eq int_nat_eq of_nat_add of_nat_mult of_nat_numeral)
  have shape: "iso_format (iso_text (nat y) (nat m) (nat d) h mi s rest)" "RFC_3339 (iso_text (nat y) (nat m) (nat d) h mi s rest)"
    using f(8-10) frac(1) three_digits(1) [OF clock(4)] by (auto simp: iso_format_def RFC_3339_def)
  have "iso_instant (iso_text (nat y) (nat m) (nat d) h mi s rest) =
      Some (((epoch_day y m d * 24 + int h) * 60 + int mi) * 60000 + int s * 1000 + millis (Some (pad_digits 3 (t mod 1000))))"
    unfolding iso_instant_def f(1-8) whole using frac(1) clock cal d31 by (simp add: zone_offset_def)
  moreover have "(((epoch_day y m d * 24 + int h) * 60 + int mi) * 60000 + int s * 1000 + millis (Some (pad_digits 3 (t mod 1000)))) div 1000 = ms div 1000"
  proof -
    have whole_second: "(k * 1000 + f) div 1000 = k" if "0 \<le> f" "f < 1000" for k f :: int
      using that by (simp add: div_add1_eq)
    have "((epoch_day y m d * 24 + int h) * 60 + int mi) * 60000 + int s * 1000 = (day * 86400 + int t div 1000) * 1000"
      using cal parts by (simp add: y_def)
    moreover have "ms = (day * 86400 + int t div 1000) * 1000 + int t mod 1000" using t(2) by simp
    ultimately show ?thesis using whole_second frac(2,3) by (metis pos_mod_bound pos_mod_sign zero_less_numeral)
  qed
  ultimately have "parseRfc3339Seconds other (iso_text (nat y) (nat m) (nat d) h mi s rest) = Some (ms div 1000)"
    using shape f(1-7) whole cal clock by (simp add: parseRfc3339Seconds_def date_parse_def y_def)
  then show ?thesis using printed by blast
qed

end
