(* ===== verification/Dispatchers.thy ===== *)
theory Dispatchers
  imports BridgeTyping GroupNotif TerminalClose Boom DateText
begin

text \<open>
  The dispatch table of \<open>src/src/Socket/events-core.ts\<close>: what each canonical event makes the socket do, as the
  list of effects in program order. A dispatcher reads the event, the configuration and the history
  state before its first effect, so its effects are a function of those; an effect that throws (a
  consumer's listener, or \<open>Throw\<close> for the code itself) ends the dispatcher there, see \<open>Dispatch\<close>. Objects
  are plain values with their own properties: the defaults of a protocol message's prototype are not
  modelled. Log lines are left out.
\<close>

subsection \<open>Effects and environment\<close>

datatype effect =
    Emit js_string jv
  | WsEmit js_string jv
  | SetUser jv
  | Callback js_string jv
  | CloseOwner js_error
  | ClearPaused
  | ArmPaused
  | BootstrapDone
  | RecentDone
  | TakeIds nat
  | ResolveCreate canonical_group_update bool
  | Report js_string
  | Throw

text \<open>
  The socket's configuration and what it calls: the consumer's \<open>shouldIgnoreJid\<close>, the callbacks that are
  given and the answer of \<open>isAutoReconnectEnabled\<close> (\<open>None\<close> without that callback), the user, the 64-bit
  library and the protocol message constructors, which may throw. The time value of a date made of a
  number of seconds that is not an integer comes from the runtime.
\<close>

record env =
  runtime :: js_runtime
  ignores :: "(js_string \<Rightarrow> bool) option"
  callbacks :: "js_string list"
  auto_reconnect :: "bool option"
  current_user :: "(js_string option \<times> js_string option) option"
  long_fromValue :: "jv \<Rightarrow> jv"
  message_fromObject :: "jv \<Rightarrow> jv option"
  webMessageInfo_fromObject :: "obj \<Rightarrow> obj option"
  web_collections :: "js_string list"
  inexact_millis :: "jv \<Rightarrow> int option"

record history_status =
  initialBootstrapComplete :: bool
  recentSyncComplete :: bool
  pausedTimeout :: "nat option"

definition spread_if :: "bool \<Rightarrow> js_string \<Rightarrow> jv \<Rightarrow> obj" where
  "spread_if c k v = (if c then [(k, v)] else [])"

definition calls :: "env \<Rightarrow> js_string \<Rightarrow> jv \<Rightarrow> effect list" where
  "calls s name x = (if name \<in> set (callbacks s) then [Callback name x] else [])"

definition shouldIgnoreJid :: "env \<Rightarrow> jv \<Rightarrow> bool" where
  "shouldIgnoreJid s chat = (case ignores s of None \<Rightarrow> False | Some p \<Rightarrow> p (str_of chat))"

text \<open>\<open>new Date(seconds * 1000)\<close>: its time value, if it is a valid date.\<close>

definition date_millis :: "env \<Rightarrow> jv \<Rightarrow> int option" where
  "date_millis s x =
     (case x of
        VNum n \<Rightarrow> if \<bar>n * 1000\<bar> \<le> MAX_TIME_VALUE then Some (n * 1000) else None
      | VNonInt (Fraction f) \<Rightarrow> inexact_millis s x
      | _ \<Rightarrow> None)"

definition date_val :: "int option \<Rightarrow> jv" where
  "date_val ms = (case ms of Some m \<Rightarrow> date_object m | None \<Rightarrow> VObj [(''getTime'', VToNumber (VNonInt NaN))])"

subsection \<open>Stanza callbacks\<close>

definition DEF_CALLBACK_PREFIX :: js_string where "DEF_CALLBACK_PREFIX = ''CB:''"

definition DEF_TAG_PREFIX :: js_string where "DEF_TAG_PREFIX = ''TAG:''"

definition attr_events :: "js_string \<Rightarrow> jv \<Rightarrow> jv \<Rightarrow> js_string \<times> jv \<Rightarrow> effect list" where
  "attr_events l0 l2 node attr =
     (let key = fst attr; val = template (snd attr) in
      (if truthy l2 then [WsEmit (DEF_CALLBACK_PREFIX @ l0 @ '','' @ key @ '':'' @ val @ '','' @ template l2) node] else []) @
      [WsEmit (DEF_CALLBACK_PREFIX @ l0 @ '','' @ key @ '':'' @ val) node,
       WsEmit (DEF_CALLBACK_PREFIX @ l0 @ '','' @ key) node])"

definition emitCBEvents :: "jv \<Rightarrow> effect list" where
  "emitCBEvents node =
     (let l0 = template (jprop node ''tag''); l1 = fields_of (jprop node ''attrs'');
          l2 = (case jprop node ''content'' of VArr (x # xs) \<Rightarrow> jprop x ''tag'' | VArr [] \<Rightarrow> VUndef | _ \<Rightarrow> VStr []);
          i = oget l1 ''id''
      in (if truthy i then [WsEmit (DEF_TAG_PREFIX @ template i) node] else []) @
         concat (map (attr_events l0 l2 node) l1) @
         (if truthy l2 then [WsEmit (DEF_CALLBACK_PREFIX @ l0 @ '',,'' @ template l2) node] else []) @
         [WsEmit (DEF_CALLBACK_PREFIX @ l0) node])"

subsection \<open>Messages\<close>

definition STATUS_SERVER_ACK :: int where "STATUS_SERVER_ACK = 2"

definition wa_message_key :: "obj \<Rightarrow> obj" where
  "wa_message_key m =
     [(''remoteJid'', oget m ''chatJid''), (''fromMe'', oget m ''isFromMe''), (''id'', oget m ''id'')] @
     spread_if (oget m ''serverId'' \<noteq> VUndef) ''server_id'' (oget m ''serverId'') @
     spread_if (oget m ''senderJid'' \<noteq> VUndef) ''participant'' (oget m ''senderJid'') @
     spread_if (truthy (oget m ''participantAlt'')) ''participantAlt'' (oget m ''participantAlt'') @
     spread_if (truthy (oget m ''remoteJidAlt'')) ''remoteJidAlt'' (oget m ''remoteJidAlt'') @
     spread_if (truthy (oget m ''isViewOnce'')) ''isViewOnce'' (VBool True) @
     spread_if (truthy (oget m ''editAttribute'')) ''editAttribute'' (oget m ''editAttribute'')"

text \<open>\<open>None\<close> when \<open>Message.fromObject\<close> throws.\<close>

definition canonicalMessageToWAMessage :: "env \<Rightarrow> obj \<Rightarrow> obj option" where
  "canonicalMessageToWAMessage s m =
     (let msg = (if oget m ''messageProto'' = VUndef then Some [] else map_option (\<lambda>p. [(''message'', p)]) (message_fromObject s (oget m ''messageProto'')))
      in map_option (\<lambda>msg.
           map (\<lambda>c. (c, VArr [])) (web_collections s) @
           [(''key'', VObj (wa_message_key m))] @ msg @
           [(''messageTimestamp'', long_fromValue s (oget m ''timestamp''))] @
           spread_if (oget m ''pushName'' \<noteq> VUndef) ''pushName'' (oget m ''pushName'') @
           [(''status'', VNum STATUS_SERVER_ACK)]) msg)"

definition MESSAGE_UPSERT_APPEND :: js_string where "MESSAGE_UPSERT_APPEND = ''append''"

definition MESSAGE_UPSERT_NOTIFY :: js_string where "MESSAGE_UPSERT_NOTIFY = ''notify''"

text \<open>The type and the request id of an upsert.\<close>

type_synonym upsert_metadata = "js_string \<times> jv"

definition messageUpsertMetadata :: "obj \<Rightarrow> upsert_metadata" where
  "messageUpsertMetadata m =
     (if truthy (oget m ''isOffline'') then MESSAGE_UPSERT_APPEND else MESSAGE_UPSERT_NOTIFY, oget m ''unavailableRequestId'')"

definition upsert_payload :: "obj list \<Rightarrow> upsert_metadata \<Rightarrow> jv" where
  "upsert_payload msgs meta =
     VObj ([(''messages'', VArr (map VObj msgs)), (''type'', VStr (fst meta))] @
       spread_if (truthy (snd meta)) ''requestId'' (snd meta))"

definition emitMessageUpsert :: "obj list \<Rightarrow> upsert_metadata \<Rightarrow> effect" where
  "emitMessageUpsert msgs meta = Emit ''messages.upsert'' (upsert_payload msgs meta)"

definition hasMessageSideEffects :: "obj \<Rightarrow> bool" where
  "hasMessageSideEffects m \<longleftrightarrow>
     \<not> nullish (jprop (oget m ''messageProto'') ''reactionMessage'') \<or> \<not> nullish (jprop (oget m ''messageProto'') ''protocolMessage'')"

definition emitInboundPushName :: "obj \<Rightarrow> effect list" where
  "emitInboundPushName evt =
     (let i = jv_coalesce (oget evt ''senderJid'') (oget evt ''chatJid'') in
      if \<not> truthy (oget evt ''pushName'') \<or> truthy (oget evt ''isFromMe'') then []
      else if isJidBroadcast (str_opt i) then []
      else [Emit ''contacts.update'' (VArr [VObj [(''id'', i), (''notify'', oget evt ''pushName'')]])])"

definition TYPE_REVOKE :: int where "TYPE_REVOKE = 0"

definition TYPE_MESSAGE_EDIT :: int where "TYPE_MESSAGE_EDIT = 14"

definition TYPE_GROUP_MEMBER_LABEL_CHANGE :: int where "TYPE_GROUP_MEMBER_LABEL_CHANGE = 30"

definition STUB_REVOKE :: int where "STUB_REVOKE = 1"

definition STUB_CIPHERTEXT :: int where "STUB_CIPHERTEXT = 2"

text \<open>\<open>toNumber\<close> on a value, and \<open>Math.floor(x / 1000)\<close>.\<close>

fun low_bits :: "jv \<Rightarrow> int option" where
  "low_bits (VNum n) = Some (n mod 2 ^ 32)"
| "low_bits (VNonInt (Fraction f)) = Some ((if 0 \<le> f then f else f + 1) mod 2 ^ 32)"
| "low_bits (VNonInt x) = Some 0"
| "low_bits x = None"

fun to_number :: "jv \<Rightarrow> jv" where
  "to_number (VNum n) = VNum n"
| "to_number (VNonInt x) = VNonInt x"
| "to_number (VToNumber r) = r"
| "to_number (VObj m) =
     (case low_bits (oget m ''low'') of
        Some low \<Rightarrow> (case jv_coalesce (oget m ''high'') (VNum 0) of VNum high \<Rightarrow> VNum (high * 2 ^ 32 + low) | _ \<Rightarrow> VNonInt NaN)
      | None \<Rightarrow> VNum 0)"
| "to_number _ = VNum 0"

fun floor_seconds :: "jv \<Rightarrow> jv" where
  "floor_seconds (VNum n) = VNum (n div 1000)"
| "floor_seconds (VNonInt (Fraction f)) = VNum (f div 1000)"
| "floor_seconds x = x"

definition reaction_effects :: "obj \<Rightarrow> obj \<Rightarrow> effect list" where
  "reaction_effects evt key =
     (let r = jprop (oget evt ''messageProto'') ''reactionMessage'' in
      if truthy (jprop r ''key'')
      then [Emit ''messages.reaction'' (VArr [VObj [(''key'', jprop r ''key''),
              (''reaction'', VObj (omap_set ''key'' (VObj key) (fields_of r)))]])]
      else [])"

definition label_effects :: "obj \<Rightarrow> effect list" where
  "label_effects evt =
     (let p = jprop (oget evt ''messageProto'') ''protocolMessage''; label = jprop (jprop p ''memberLabel'') ''label'' in
      if jprop p ''type'' = VNum TYPE_GROUP_MEMBER_LABEL_CHANGE \<and> truthy label \<and> truthy (oget evt ''senderJid'')
      then [Emit ''group.member-tag.update'' (VObj
             [(''groupId'', oget evt ''chatJid''), (''label'', label), (''participant'', oget evt ''senderJid''),
              (''participantAlt'', oget evt ''participantAlt''), (''messageTimestamp'', oget evt ''timestamp'')])]
      else [])"

definition protocol_effects :: "obj \<Rightarrow> obj \<Rightarrow> effect list" where
  "protocol_effects evt waMsg =
     (let p = jprop (oget evt ''messageProto'') ''protocolMessage''; i = jprop (jprop p ''key'') ''id'';
          key = fields_of (oget waMsg ''key'')
      in if \<not> (truthy p \<and> truthy i) then []
         else if jprop p ''type'' = VNum TYPE_REVOKE
         then [Emit ''messages.update'' (VArr [VObj [(''key'', VObj (omap_set ''id'' i key)),
                 (''update'', VObj [(''message'', VNull), (''messageStubType'', VNum STUB_REVOKE), (''key'', VObj key)])]])]
         else if jprop p ''type'' = VNum TYPE_MESSAGE_EDIT \<and> truthy (jprop p ''editedMessage'')
         then
           let ts = jprop p ''timestampMs'';
               edited = (if \<not> nullish ts then floor_seconds (to_number ts)
                         else jv_coalesce (oget evt ''timestamp'') (oget waMsg ''messageTimestamp''))
           in [Emit ''messages.update'' (VArr [VObj [(''key'', VObj (omap_set ''id'' i key)),
                 (''update'', VObj [(''message'', VObj [(''editedMessage'', VObj [(''message'', jprop p ''editedMessage'')])]),
                    (''messageTimestamp'', edited)])]])]
         else [])"

definition d_message :: "env \<Rightarrow> obj \<Rightarrow> effect list" where
  "d_message s evt =
     (if shouldIgnoreJid s (oget evt ''chatJid'') then []
      else emitInboundPushName evt @
        (case canonicalMessageToWAMessage s evt of
           None \<Rightarrow> [Throw]
         | Some waMsg \<Rightarrow>
             [emitMessageUpsert [waMsg] (messageUpsertMetadata evt)] @
             reaction_effects evt (fields_of (oget waMsg ''key'')) @ label_effects evt @ protocol_effects evt waMsg))"

definition d_receipt :: "obj \<Rightarrow> effect list" where
  "d_receipt evt =
     (let participant = (if truthy (oget evt ''isGroup'') then oget evt ''senderJid'' else VUndef);
          t = oget evt ''receiptType'';
          field = (if t = VStr ''read'' \<or> t = VStr ''read-self'' then ''readTimestamp''
                   else if t = VStr ''played'' \<or> t = VStr ''played-self'' then ''playedTimestamp'' else ''receiptTimestamp'')
      in [Emit ''message-receipt.update'' (VArr (map (\<lambda>i. VObj
            [(''key'', VObj [(''remoteJid'', oget evt ''chatJid''), (''id'', i), (''fromMe'', oget evt ''isFromMe''), (''participant'', participant)]),
             (''receipt'', VObj [(field, oget evt ''timestamp'')])]) (elems_of (oget evt ''messageIds''))))])"

definition set_key_field :: "js_string \<Rightarrow> jv \<Rightarrow> obj \<Rightarrow> obj" where
  "set_key_field k v msg = omap_set ''key'' (VObj (omap_set k v (fields_of (oget msg ''key'')))) msg"

definition d_undecryptableMessage :: "env \<Rightarrow> obj \<Rightarrow> effect list" where
  "d_undecryptableMessage s evt =
     (if shouldIgnoreJid s (oget evt ''chatJid'') then [] else emitInboundPushName evt) @
     (if oget evt ''decryptFailMode'' = VStr ''hide'' then []
      else
        case webMessageInfo_fromObject s
          [(''key'', VObj [(''remoteJid'', oget evt ''chatJid''), (''fromMe'', oget evt ''isFromMe''), (''id'', oget evt ''id''),
              (''participant'', oget evt ''senderJid'')]),
           (''messageTimestamp'', oget evt ''timestamp''), (''pushName'', oget evt ''pushName''),
           (''messageStubType'', VNum STUB_CIPHERTEXT),
           (''messageStubParameters'', VArr (if truthy (oget evt ''unavailableType'') then [oget evt ''unavailableType''] else []))]
        of None \<Rightarrow> [Throw]
         | Some stub \<Rightarrow>
             let s1 = (if truthy (oget evt ''participantAlt'') then set_key_field ''participantAlt'' (oget evt ''participantAlt'') stub else stub);
                 s2 = (if truthy (oget evt ''remoteJidAlt'') then set_key_field ''remoteJidAlt'' (oget evt ''remoteJidAlt'') s1 else s1);
                 s3 = (if truthy (oget evt ''stanzaType'') then omap_set ''stanzaType'' (oget evt ''stanzaType'') s2 else s2)
             in [emitMessageUpsert [s3] (MESSAGE_UPSERT_NOTIFY, VUndef)])"

subsection \<open>Contacts and presence\<close>

definition d_contactUpdate :: "obj \<Rightarrow> effect list" where
  "d_contactUpdate evt =
     (let name = jv_coalesce (oget evt ''fullName'') (oget evt ''firstName'') in
      [Emit ''contacts.update'' (VArr [VObj ([(''id'', oget evt ''jid'')] @ spread_if (truthy name) ''name'' name @
         spread_if (truthy (oget evt ''lidJid'')) ''lid'' (oget evt ''lidJid'') @
         spread_if (truthy (oget evt ''pnJid'')) ''phoneNumber'' (oget evt ''pnJid''))])])"

definition d_pictureUpdate :: "obj \<Rightarrow> effect list" where
  "d_pictureUpdate evt =
     [Emit ''contacts.update'' (VArr [VObj [(''id'', oget evt ''jid''),
        (''imgUrl'', if truthy (oget evt ''removed'') then VNull else VStr ''changed'')]])]"

definition d_presence :: "obj \<Rightarrow> effect list" where
  "d_presence evt =
     [Emit ''presence.update'' (VObj [(''id'', oget evt ''from''),
        (''presences'', VObj [(template (oget evt ''from''), VObj
           [(''lastKnownPresence'', VStr (if truthy (oget evt ''unavailable'') then ''unavailable'' else ''available'')),
            (''lastSeen'', oget evt ''lastSeen'')])])])]"

definition d_chatPresence :: "obj \<Rightarrow> effect list" where
  "d_chatPresence evt =
     (let mapped = (if oget evt ''state'' = VStr ''composing''
                    then (if oget evt ''media'' = VStr ''audio'' then ''recording'' else ''composing'') else ''paused'')
      in [Emit ''presence.update'' (VObj [(''id'', oget evt ''chatJid''),
            (''presences'', VObj [(template (oget evt ''senderJid''), VObj [(''lastKnownPresence'', VStr mapped)])])])])"

subsection \<open>Groups\<close>

text \<open>A group notification event read as the record of \<open>GroupNotif\<close>; its times and indexes are whole numbers.\<close>

fun whole :: "jv \<Rightarrow> int" where
  "whole (VNum n) = n"
| "whole _ = 0"

definition read_participant :: "jv \<Rightarrow> participant" where
  "read_participant p =
     \<lparr>jid = str_of (jprop p ''jid''), phoneNumber = str_opt (jprop p ''phoneNumber''), lid = str_opt (jprop p ''lid''),
      username = str_opt (jprop p ''username''), role = str_opt (jprop p ''role'')\<rparr>"

definition read_action :: "jv \<Rightarrow> group_action" where
  "read_action a =
     (let t = str_of (jprop a ''type''); ps = map read_participant (elems_of (jprop a ''participants'')) in
      if t = ''add'' then Add ps
      else if t = ''remove'' then Remove ps
      else if t = ''promote'' then Promote ps
      else if t = ''demote'' then Demote ps
      else if t = ''modify'' then Modify ps
      else if t = ''subject'' then Subject (str_of (jprop a ''subject''))
      else if t = ''description'' then Description (str_opt (jprop a ''description''))
      else if t = ''locked'' then Locked
      else if t = ''unlocked'' then Unlocked
      else if t = ''announce'' then Announce
      else if t = ''notAnnounce'' then NotAnnounce
      else if t = ''ephemeral'' then Ephemeral (whole (jprop a ''expiration''))
      else if t = ''membershipApprovalMode'' then MembershipApprovalMode (truthy (jprop a ''enabled''))
      else if t = ''memberAddMode'' then MemberAddMode (str_of (jprop a ''mode''))
      else if t = ''invite'' then Invite (str_of (jprop a ''code''))
      else if t = ''membershipApprovalRequest'' then MembershipApprovalRequest (str_opt (jprop a ''requestMethod''))
      else if t = ''createdMembershipRequests''
      then CreatedMembershipRequests (str_opt (jprop a ''requestMethod'')) (map read_participant (elems_of (jprop a ''requests'')))
      else if t = ''revokedMembershipRequests'' then RevokedMembershipRequests ps
      else OtherAction t)"

definition read_group_update :: "obj \<Rightarrow> canonical_group_update" where
  "read_group_update evt =
     \<lparr>groupJid = str_of (oget evt ''groupJid''), notificationId = str_opt (oget evt ''notificationId''),
      actionIndex = nat (whole (oget evt ''actionIndex'')), author = str_opt (oget evt ''author''),
      authorPn = str_opt (oget evt ''authorPn''), authorUsername = str_opt (oget evt ''authorUsername''),
      timestamp = whole (oget evt ''timestamp''), isLidAddressingMode = truthy (oget evt ''isLidAddressingMode''),
      action = read_action (oget evt ''action'')\<rparr>"

definition from_me :: "env \<Rightarrow> canonical_group_update \<Rightarrow> bool" where
  "from_me s n \<longleftrightarrow> nonempty (author n) \<and>
     (case current_user s of None \<Rightarrow> False | Some (i, l) \<Rightarrow> author n = i \<or> author n = l)"

definition join_request_val :: "join_request \<Rightarrow> jv" where
  "join_request_val r =
     VObj (jr_common r @ [(''participant'', VStr (jr_participant r)), (''participantPn'', opt_val (jr_participantPn r)),
       (''action'', VStr (jr_action r)), (''method'', opt_val (jr_method r))])"

definition domain_effect :: "domain_event \<Rightarrow> effect" where
  "domain_effect d =
     (case d of
        GroupsUpdateEvent change \<Rightarrow> Emit ''groups.update'' (VArr [VObj change])
      | ParticipantsUpdate p \<Rightarrow> Emit ''group-participants.update'' (VObj p))"

definition d_groupUpdate :: "env \<Rightarrow> nat \<Rightarrow> obj \<Rightarrow> effect list" where
  "d_groupUpdate s fallback evt =
     (let n = read_group_update evt; fromMe = from_me s n in
      if action n = OtherAction ''create'' then [ResolveCreate n fromMe]
      else
        let (stubs, fallback1) = buildGroupNotificationStubMessages (web_collections s) n fromMe fallback;
            updates = buildGroupNotificationChatUpdates n
        in [TakeIds fallback1] @
           (if stubs \<noteq> [] then [emitMessageUpsert (map snd stubs) (MESSAGE_UPSERT_APPEND, VUndef)] else []) @
           (case buildGroupNotificationDomainEvent n of None \<Rightarrow> [] | Some d \<Rightarrow> [domain_effect d]) @
           map (\<lambda>r. Emit ''group.join-request'' (join_request_val r)) (buildGroupJoinRequestEvents n) @
           (if updates \<noteq> [] then [Emit ''chats.update'' (VArr (map VObj updates))] else []))"

text \<open>What follows when the metadata of a created group has been fetched; the fetch may fail, which is logged.\<close>

definition group_created :: "env \<Rightarrow> nat \<Rightarrow> canonical_group_update \<Rightarrow> bool \<Rightarrow> obj \<Rightarrow> effect list" where
  "group_created s fallback n fromMe metadata =
     (let (stub, fallback1) = buildGroupCreateStubMessage (web_collections s) n metadata fromMe fallback in
      [Emit ''chats.upsert'' (VArr [VObj [(''id'', oget metadata ''id''), (''name'', oget metadata ''subject''),
         (''conversationTimestamp'', oget metadata ''creation'')]]),
       Emit ''groups.upsert'' (VArr [VObj (object_assign metadata [(''author'', opt_val (author n)), (''authorPn'', opt_val (authorPn n)),
         (''authorUsername'', opt_val (authorUsername n))])]),
       TakeIds fallback1,
       emitMessageUpsert [stub] (MESSAGE_UPSERT_APPEND, VUndef)])"

subsection \<open>Chat state, labels and settings\<close>

definition chat_change :: "obj \<Rightarrow> (js_string \<times> jv) list \<Rightarrow> effect list" where
  "chat_change evt fs = [Emit ''chats.update'' (VArr [VObj ((''id'', oget evt ''jid'') # fs)])]"

definition d_archiveUpdate :: "obj \<Rightarrow> effect list" where
  "d_archiveUpdate evt = chat_change evt [(''archived'', oget evt ''archived'')]"

definition d_pinUpdate :: "obj \<Rightarrow> effect list" where
  "d_pinUpdate evt = chat_change evt [(''pinned'', if truthy (oget evt ''pinned'') then oget evt ''timestamp'' else VNull)]"

definition d_muteUpdate :: "obj \<Rightarrow> effect list" where
  "d_muteUpdate evt =
     chat_change evt [(''muteEndTime'', if truthy (oget evt ''muted'') then jv_coalesce (oget evt ''muteEndTimestamp'') (VNum 0) else VNull)]"

definition d_starUpdate :: "obj \<Rightarrow> effect list" where
  "d_starUpdate evt =
     [Emit ''messages.update'' (VArr [VObj
        [(''key'', VObj [(''remoteJid'', oget evt ''chatJid''), (''id'', oget evt ''messageId''), (''fromMe'', oget evt ''fromMe''),
            (''participant'', oget evt ''participantJid'')]),
         (''update'', VObj [(''starred'', oget evt ''starred'')])]])]"

definition d_markChatAsReadUpdate :: "obj \<Rightarrow> effect list" where
  "d_markChatAsReadUpdate evt = chat_change evt [(''unreadCount'', VNum (if truthy (oget evt ''read'') then 0 else - 1))]"

definition d_lockChatUpdate :: "obj \<Rightarrow> effect list" where
  "d_lockChatUpdate evt = [Emit ''chats.lock'' (VObj [(''id'', oget evt ''jid''), (''locked'', oget evt ''locked'')])]"

definition d_labelSublist :: "obj \<Rightarrow> effect list" where
  "d_labelSublist evt = [Emit ''labels.sublist'' (VObj (omap_del ''type'' evt))]"

definition action_time :: "obj \<Rightarrow> obj" where
  "action_time evt = spread_if (oget evt ''actionTimestamp'' \<noteq> VUndef) ''actionTimestamp'' (oget evt ''actionTimestamp'')"

definition d_labelEdit :: "obj \<Rightarrow> effect list" where
  "d_labelEdit evt =
     [Emit ''labels.edit'' (VObj ([(''id'', oget evt ''labelId'')] @ action_time evt @
        [(''name'', oget evt ''name''), (''color'', oget evt ''color''), (''deleted'', oget evt ''deleted''),
         (''predefinedId'', oget evt ''predefinedId'')]))]"

definition LABEL_CHAT :: js_string where "LABEL_CHAT = ''label_jid''"

definition LABEL_MESSAGE :: js_string where "LABEL_MESSAGE = ''label_message''"

definition d_labelAssociation :: "obj \<Rightarrow> effect list" where
  "d_labelAssociation evt =
     [Emit ''labels.association'' (VObj (action_time evt @
        [(''association'', VObj
           (if truthy (oget evt ''messageId'')
            then [(''type'', VStr LABEL_MESSAGE), (''chatId'', oget evt ''chatJid''), (''messageId'', oget evt ''messageId''),
              (''labelId'', oget evt ''labelId'')]
            else [(''type'', VStr LABEL_CHAT), (''chatId'', oget evt ''chatJid''), (''labelId'', oget evt ''labelId'')])),
         (''type'', VStr (if truthy (oget evt ''labeled'') then ''add'' else ''remove''))]))]"

definition d_appStateSyncFailed :: "obj \<Rightarrow> effect list" where
  "d_appStateSyncFailed evt =
     [Emit ''app-state-sync.failed'' (VObj [(''fatal'', oget evt ''fatal''), (''retryable'', oget evt ''retryable''),
        (''skipped'', oget evt ''skipped''), (''connected'', oget evt ''connected'')])]"

definition d_settingUpdate :: "obj \<Rightarrow> effect list" where
  "d_settingUpdate evt = [Emit ''settings.update'' (VObj (omap_del ''type'' evt))]"

definition d_unarchiveChatsSetting :: "obj \<Rightarrow> effect list" where
  "d_unarchiveChatsSetting evt =
     [Emit ''creds.update'' (VObj [(''accountSettings'', VObj [(''unarchiveChats'', oget evt ''unarchiveChats'')])])]"

subsection \<open>Connection\<close>

definition dr_connectionReplaced :: nat where "dr_connectionReplaced = 440"

definition CLIENT_OUTDATED_STATUS :: nat where "CLIENT_OUTDATED_STATUS = 405"

definition RATE_LIMITED_STREAM_ERROR :: js_string where "RATE_LIMITED_STREAM_ERROR = ''429''"

definition connection_update :: "obj \<Rightarrow> effect" where
  "connection_update update = Emit ''connection.update'' (VObj update)"

text \<open>What \<open>publish\<close> emits, at the time it is called.\<close>

definition close_update :: "int \<Rightarrow> js_error \<Rightarrow> obj" where
  "close_update now error =
     [(''connection'', VStr ''close''), (''lastDisconnect'', VObj [(''error'', error_val error), (''date'', date_object now)])]"

definition emitClose :: "env \<Rightarrow> js_string \<Rightarrow> nat \<Rightarrow> jv \<Rightarrow> effect list" where
  "emitClose s reason status details =
     [ClearPaused,
      case new_boom reason (no_options\<lparr>opt_statusCode := Some (int status), opt_data := details\<rparr>) of
        Inl e \<Rightarrow> Throw
      | Inr error \<Rightarrow> if ''onTerminalClose'' \<in> set (callbacks s) then CloseOwner error
                     else connection_update (close_update (js_now (runtime s)) error)]"

definition emitRetrying :: "effect list" where
  "emitRetrying = [connection_update [(''connection'', VStr ''connecting''), (''qr'', VUndef), (''receivedPendingNotifications'', VBool False)]]"

definition describeTempBan :: "env \<Rightarrow> jv \<Rightarrow> js_string" where
  "describeTempBan s code =
     (if code = VNum 101 then ''sent_to_too_many_people''
      else if code = VNum 102 then ''blocked_by_users''
      else if code = VNum 103 then ''created_too_many_groups''
      else if code = VNum 104 then ''sent_too_many_same_message''
      else if code = VNum 106 then ''broadcast_list''
      else if \<not> nullish code then ''code_'' @ number_text (runtime s) code else ''unknown'')"

text \<open>The failure tables know only natural numbers; any other number is in none of them, like 0.\<close>

definition reason_code :: "jv \<Rightarrow> nat option" where
  "reason_code r = (case r of VUndef \<Rightarrow> None | VNum n \<Rightarrow> Some (nat n) | _ \<Rightarrow> Some 0)"

definition d_disconnected :: "env \<Rightarrow> effect list" where
  "d_disconnected s =
     (if auto_reconnect s = Some False then emitClose s ''Connection closed'' dr_connectionClosed VUndef else emitRetrying)"

definition d_qr :: "obj \<Rightarrow> effect list" where
  "d_qr evt = [connection_update [(''qr'', oget evt ''code'')]]"

definition d_pairSuccess :: "env \<Rightarrow> obj \<Rightarrow> effect list" where
  "d_pairSuccess s evt =
     [SetUser (VObj [(''id'', oget evt ''id''), (''lid'', oget evt ''lid'')])] @
     calls s ''onPairSuccess'' (VObj [(''platform'', oget evt ''platform''), (''businessName'', oget evt ''businessName'')]) @
     [Emit ''creds.update'' (VObj [(''registered'', VBool True),
        (''me'', VObj [(''id'', oget evt ''id''), (''lid'', oget evt ''lid''), (''name'', oget evt ''businessName'')]),
        (''platform'', oget evt ''platform'')])]"

definition d_loggedOut :: "env \<Rightarrow> obj \<Rightarrow> effect list" where
  "d_loggedOut s evt =
     emitClose s (if truthy (oget evt ''reason'') then ''Logged out: '' @ template (oget evt ''reason'') else ''Logged out'')
       dr_loggedOut VUndef"

definition d_connectFailure :: "env \<Rightarrow> obj \<Rightarrow> effect list" where
  "d_connectFailure s evt =
     (let r = reason_code (oget evt ''reason'') in
      if isReconnectableConnectFailure r \<and> auto_reconnect s \<noteq> Some False then emitRetrying
      else emitClose s (template (jv_coalesce (oget evt ''message'') (VStr ''Connection failure''))) (mapConnectFailureToDisconnect r) VUndef)"

definition d_streamError :: "env \<Rightarrow> obj \<Rightarrow> effect list" where
  "d_streamError s evt =
     (if oget evt ''code'' = VStr RATE_LIMITED_STREAM_ERROR then (if auto_reconnect s \<noteq> Some False then emitRetrying else []) else [])"

definition d_temporaryBan :: "env \<Rightarrow> obj \<Rightarrow> effect list" where
  "d_temporaryBan s evt =
     (let reason = describeTempBan s (oget evt ''code'');
          details = VObj [(''code'', oget evt ''code''), (''expire'', oget evt ''expire'')];
          text0 = ''Temporary ban ('' @ reason @ '')''
      in if truthy (oget evt ''expire'')
         then (case date_millis s (oget evt ''expire'') of
                 None \<Rightarrow> [Throw]
               | Some ms \<Rightarrow>
                   (case toISOString ms of
                      None \<Rightarrow> [Throw]
                    | Some printed \<Rightarrow> emitClose s (text0 @ ''; expires at '' @ printed) dr_forbidden details))
         else emitClose s text0 dr_forbidden details)"

subsection \<open>Calls and notifications\<close>

definition d_incomingCall :: "env \<Rightarrow> obj \<Rightarrow> effect list" where
  "d_incomingCall s evt =
     (let act0 = oget evt ''action''; isGroup = isJidGroup (str_opt (oget evt ''from''));
          some = (\<lambda>k. spread_if (truthy (jprop act0 k)) k (jprop act0 k));
          given = (\<lambda>k. spread_if (jprop act0 k \<noteq> VUndef) k (jprop act0 k));
          stanza = (\<lambda>k. spread_if (truthy (oget evt k)) k (oget evt k))
      in calls s ''onIncomingCall'' (VObj evt) @
         [Emit ''call'' (VArr [VObj (
            [(''chatId'', oget evt ''from''), (''from'', jv_coalesce (jprop act0 ''callCreator'') (oget evt ''from''))] @
            some ''callCreator'' @
            [(''id'', jprop act0 ''callId''), (''date'', date_val (date_millis s (oget evt ''timestamp''))),
             (''status'', jprop act0 ''type''), (''offline'', oget evt ''offline''), (''isGroup'', VBool isGroup)] @
            spread_if isGroup ''groupJid'' (oget evt ''from'') @ some ''callerPn'' @
            spread_if (jprop act0 ''type'' = VStr ''offer'') ''isVideo'' (VBool (truthy (jprop act0 ''isVideo''))) @
            some ''callerCountryCode'' @ some ''deviceClass'' @ given ''joinable'' @ some ''audio'' @ given ''duration'' @
            given ''audioDuration'' @ stanza ''stanzaId'' @ stanza ''notify'' @ stanza ''platform'' @ stanza ''version'')])])"

text \<open>An object that is neither \<open>null\<close> nor an array.\<close>

definition as_record :: "jv \<Rightarrow> jv option" where
  "as_record v = (case v of VObj m \<Rightarrow> Some v | VToNumber r \<Rightarrow> Some v | _ \<Rightarrow> None)"

definition extractMessageCappingPayload :: "jv \<Rightarrow> jv option" where
  "extractMessageCappingPayload v =
     (case as_record v of
        None \<Rightarrow> None
      | Some root \<Rightarrow>
          let d = (case as_record (jprop root ''data'') of None \<Rightarrow> root | Some x \<Rightarrow> x) in
          (case as_record (jprop d ''xwa2_notify_new_chat_messages_capping_info_update'') of
             Some nested \<Rightarrow> Some nested
           | None \<Rightarrow>
               if list_ex (has_own (fields_of root)) [''total_quota'', ''used_quota'', ''capping_status'', ''mv_status'', ''ote_status'']
               then Some root else None))"

definition d_mexNotification :: "obj \<Rightarrow> effect list" where
  "d_mexNotification evt =
     (if oget evt ''opName'' = VStr ''NotificationUserReachoutTimelockUpdate'' then []
      else if oget evt ''opName'' = VStr ''MessageCappingInfoNotification''
      then (case extractMessageCappingPayload (oget evt ''payload'') of
              None \<Rightarrow> [] | Some p \<Rightarrow> [Emit ''message-capping.update'' p])
      else [])"

definition STATUS_ERROR :: int where "STATUS_ERROR = 0"

definition d_serverAck :: "obj \<Rightarrow> effect list" where
  "d_serverAck evt =
     (if oget evt ''class'' = VStr ''message'' \<and> truthy (oget evt ''error'')
      then [Emit ''messages.update'' (VArr [VObj
              [(''key'', VObj [(''remoteJid'', oget evt ''from''), (''fromMe'', VBool True), (''id'', oget evt ''id'')]),
               (''update'', VObj [(''status'', VNum STATUS_ERROR), (''messageStubParameters'', VArr [oget evt ''error''])])]])]
      else [])"

definition d_lidMappingUpdate :: "obj \<Rightarrow> effect list" where
  "d_lidMappingUpdate evt = map (Emit ''lid-mapping.update'') (elems_of (oget evt ''mappings''))"

definition d_messageDelete :: "obj \<Rightarrow> effect list" where
  "d_messageDelete evt =
     [Emit ''messages.delete'' (VObj [(''keys'', VArr [VObj
        ([(''remoteJid'', oget evt ''chatJid''), (''id'', oget evt ''messageId''), (''fromMe'', oget evt ''fromMe'')] @
         spread_if (truthy (oget evt ''participantJid'')) ''participant'' (oget evt ''participantJid''))])])]"

definition newsletter_reaction :: "obj \<Rightarrow> jv \<Rightarrow> jv \<Rightarrow> effect" where
  "newsletter_reaction evt msg r =
     Emit ''newsletter.reaction'' (VObj [(''id'', oget evt ''newsletterJid''), (''server_id'', jprop msg ''serverId''),
       (''reaction'', VObj [(''code'', jprop r ''code''), (''count'', jprop r ''count''), (''removed'', VBool (jprop r ''count'' = VNum 0))])])"

definition d_newsletterLiveUpdate :: "obj \<Rightarrow> effect list" where
  "d_newsletterLiveUpdate evt =
     concat (map (\<lambda>msg. map (newsletter_reaction evt msg) (elems_of (jprop msg ''reactions''))) (elems_of (oget evt ''messages'')))"

fun positive :: "jv \<Rightarrow> bool" where
  "positive (VNum n) = (0 < n)"
| "positive (VNonInt (Fraction f)) = (0 \<le> f)"
| "positive (VNonInt Infinity) = True"
| "positive _ = False"

definition d_disappearingModeChanged :: "obj \<Rightarrow> effect list" where
  "d_disappearingModeChanged evt =
     chat_change evt [(''ephemeralExpiration'', if positive (oget evt ''duration'') then oget evt ''duration'' else VNull),
       (''ephemeralSettingTimestamp'', oget evt ''settingTimestamp'')]"

subsection \<open>History sync\<close>

definition SYNC_INITIAL_BOOTSTRAP :: int where "SYNC_INITIAL_BOOTSTRAP = 0"

definition SYNC_RECENT :: int where "SYNC_RECENT = 3"

definition SYNC_ON_DEMAND :: int where "SYNC_ON_DEMAND = 6"

definition status_event :: "int \<Rightarrow> js_string \<Rightarrow> bool \<Rightarrow> effect" where
  "status_event kind status explicit =
     Emit ''messaging-history.status'' (VObj [(''syncType'', VNum kind), (''status'', VStr status), (''explicit'', VBool explicit)])"

definition history_payload :: "bool \<Rightarrow> obj \<Rightarrow> jv" where
  "history_payload isFinalBatch evt =
     VObj [(''chats'', oget evt ''chats''), (''contacts'', oget evt ''contacts''), (''messages'', oget evt ''messages''),
       (''isLatest'', if oget evt ''syncType'' = VNum SYNC_ON_DEMAND then VUndef
          else VBool (oget evt ''syncType'' = VNum SYNC_INITIAL_BOOTSTRAP \<and> isFinalBatch)),
       (''progress'', if isFinalBatch then oget evt ''progress'' else VUndef),
       (''syncType'', oget evt ''syncType''), (''pastParticipants'', oget evt ''pastParticipants''),
       (''chunkOrder'', oget evt ''chunkOrder''), (''peerDataRequestSessionId'', oget evt ''peerDataRequestSessionId''),
       (''lidPnMappings'', if elems_of (oget evt ''lidPnMappings'') \<noteq> [] then oget evt ''lidPnMappings'' else VUndef)]"

definition d_historySync :: "history_status \<Rightarrow> obj \<Rightarrow> effect list" where
  "d_historySync h evt =
     (let isFinalBatch = (oget evt ''isFinalBatch'' \<noteq> VBool False) in
      (if isFinalBatch \<and> oget evt ''syncType'' = VNum SYNC_INITIAL_BOOTSTRAP \<and> \<not> initialBootstrapComplete h
       then [BootstrapDone, status_event SYNC_INITIAL_BOOTSTRAP ''complete'' True] else []) @
      (if isFinalBatch \<and> oget evt ''syncType'' = VNum SYNC_RECENT \<and> \<not> recentSyncComplete h
       then ClearPaused #
         (if oget evt ''progress'' = VNum 100 then [RecentDone, status_event SYNC_RECENT ''complete'' True] else [ArmPaused])
       else []) @
      [Emit ''messaging-history.set'' (history_payload isFinalBatch evt)] @
      (if elems_of (oget evt ''chats'') \<noteq> [] then [Emit ''chats.upsert'' (oget evt ''chats'')] else []))"

subsection \<open>The table\<close>

definition DISPATCHERS :: "env \<Rightarrow> history_status \<Rightarrow> nat \<Rightarrow> (js_string \<times> (obj \<Rightarrow> effect list)) list" where
  "DISPATCHERS s h fallback =
     [(''connected'', \<lambda>_. [connection_update [(''connection'', VStr ''open'')]]),
      (''offlineSyncCompleted'', \<lambda>_. [connection_update [(''receivedPendingNotifications'', VBool True)]]),
      (''disconnected'', \<lambda>_. d_disconnected s), (''qr'', d_qr), (''pairSuccess'', d_pairSuccess s),
      (''pairError'', \<lambda>_. emitRetrying), (''loggedOut'', d_loggedOut s), (''connectFailure'', d_connectFailure s),
      (''streamError'', d_streamError s),
      (''streamReplaced'', \<lambda>_. emitClose s ''Connection replaced'' dr_connectionReplaced VUndef),
      (''clientOutdated'', \<lambda>_. emitClose s ''Client outdated'' CLIENT_OUTDATED_STATUS VUndef),
      (''temporaryBan'', d_temporaryBan s), (''qrScannedWithoutMultidevice'', \<lambda>_. []), (''message'', d_message s),
      (''receipt'', d_receipt), (''undecryptableMessage'', d_undecryptableMessage s), (''contactUpdate'', d_contactUpdate),
      (''pictureUpdate'', d_pictureUpdate), (''presence'', d_presence), (''chatPresence'', d_chatPresence),
      (''groupUpdate'', d_groupUpdate s fallback), (''archiveUpdate'', d_archiveUpdate), (''pinUpdate'', d_pinUpdate),
      (''muteUpdate'', d_muteUpdate), (''starUpdate'', d_starUpdate), (''markChatAsReadUpdate'', d_markChatAsReadUpdate),
      (''lockChatUpdate'', d_lockChatUpdate), (''labelSublist'', d_labelSublist), (''labelEdit'', d_labelEdit),
      (''labelAssociation'', d_labelAssociation), (''appStateSyncFailed'', d_appStateSyncFailed),
      (''qrCodesExhausted'', \<lambda>_. emitClose s ''QR refs attempts ended'' dr_timedOut VUndef),
      (''settingUpdate'', d_settingUpdate), (''unarchiveChatsSetting'', d_unarchiveChatsSetting),
      (''reachoutTimelock'', \<lambda>evt. [connection_update [(''reachoutTimeLock'', oget evt ''state'')]]),
      (''incomingCall'', d_incomingCall s), (''dirtyState'', \<lambda>evt. calls s ''onDirtyState'' (VObj evt)),
      (''rawNode'', \<lambda>evt. emitCBEvents (oget evt ''node'')), (''notification'', \<lambda>_. []), (''mexNotification'', d_mexNotification),
      (''serverAck'', d_serverAck), (''noop'', \<lambda>_. []), (''lidMappingUpdate'', d_lidMappingUpdate),
      (''chatDelete'', \<lambda>evt. [Emit ''chats.delete'' (VArr [oget evt ''jid''])]),
      (''chatClear'', \<lambda>evt. [Emit ''messages.delete'' (VObj [(''jid'', oget evt ''jid''), (''all'', VBool True)])]),
      (''messageDelete'', d_messageDelete), (''newsletterLiveUpdate'', d_newsletterLiveUpdate),
      (''disappearingModeChanged'', d_disappearingModeChanged), (''historySync'', d_historySync h)]"

text \<open>An event of a type that is not in the table makes the lookup throw.\<close>

definition dispatcher_effects :: "env \<Rightarrow> history_status \<Rightarrow> nat \<Rightarrow> obj \<Rightarrow> effect list" where
  "dispatcher_effects s h fallback evt =
     (case map_of (DISPATCHERS s h fallback) (str_of (oget evt ''type'')) of None \<Rightarrow> [Throw] | Some f \<Rightarrow> f evt)"

end
