(* ===== verification/Dispatch.thy ===== *)
theory Dispatch
  imports Dispatchers
begin

text \<open>
  Running the dispatchers of \<open>src/src/Socket/events-core.ts\<close>: single events, batches of messages, the packed wire
  batches (\<open>history-sync-wire.ts\<close> included) and the pause timer of the history sync. The state is what the
  handlers own, and what the outside has seen in order. A listener or callback throws or not by the
  predicate \<open>throws\<close>; the listeners of \<open>connection.update\<close> never do, because the event buffer calls them one
  by one and catches. Handlers are not called from inside a listener.
\<close>

subsection \<open>State\<close>

record dstate =
  history :: history_status
  live :: "nat list"
  next_handle :: nat
  fallbackIds :: nat
  socket_user :: "(js_string option \<times> js_string option) option"
  creating :: "(canonical_group_update \<times> bool) list"
  seen :: "effect list"

definition makeEventHandlers :: "nat \<Rightarrow> (js_string option \<times> js_string option) option \<Rightarrow> dstate" where
  "makeEventHandlers ids u =
     \<lparr>history = \<lparr>initialBootstrapComplete = False, recentSyncComplete = False, pausedTimeout = None\<rparr>, live = [],
      next_handle = 0, fallbackIds = ids, socket_user = u, creating = [], seen = []\<rparr>"

definition see :: "effect \<Rightarrow> dstate \<Rightarrow> dstate" where
  "see e s = s\<lparr>seen := seen s @ [e]\<rparr>"

definition clearHistorySyncPausedTimeout :: "dstate \<Rightarrow> dstate" where
  "clearHistorySyncPausedTimeout s =
     s\<lparr>live := (case pausedTimeout (history s) of None \<Rightarrow> live s | Some t \<Rightarrow> filter (\<lambda>i. i \<noteq> t) (live s)),
       history := (history s)\<lparr>pausedTimeout := None\<rparr>\<rparr>"

definition arm_pause :: "dstate \<Rightarrow> dstate" where
  "arm_pause s =
     s\<lparr>live := live s @ [next_handle s], next_handle := Suc (next_handle s),
       history := (history s)\<lparr>pausedTimeout := Some (next_handle s)\<rparr>\<rparr>"

fun apply_effect :: "effect \<Rightarrow> dstate \<Rightarrow> dstate" where
  "apply_effect ClearPaused s = clearHistorySyncPausedTimeout s"
| "apply_effect ArmPaused s = arm_pause s"
| "apply_effect BootstrapDone s = s\<lparr>history := (history s)\<lparr>initialBootstrapComplete := True\<rparr>\<rparr>"
| "apply_effect RecentDone s = s\<lparr>history := (history s)\<lparr>recentSyncComplete := True\<rparr>\<rparr>"
| "apply_effect (TakeIds n) s = s\<lparr>fallbackIds := n\<rparr>"
| "apply_effect Throw s = s"
| "apply_effect (ResolveCreate n fromMe) s = s\<lparr>creating := creating s @ [(n, fromMe)]\<rparr>"
| "apply_effect (SetUser u) s = see (SetUser u) (s\<lparr>socket_user := Some (str_opt (jprop u ''id''), str_opt (jprop u ''lid''))\<rparr>)"
| "apply_effect e s = see e s"

fun raises :: "(effect \<Rightarrow> bool) \<Rightarrow> effect \<Rightarrow> bool" where
  "raises throws Throw = True"
| "raises throws (Emit name p) = (name \<noteq> ''connection.update'' \<and> throws (Emit name p))"
| "raises throws (WsEmit name p) = throws (WsEmit name p)"
| "raises throws (Callback name p) = throws (Callback name p)"
| "raises throws (CloseOwner e) = throws (CloseOwner e)"
| "raises throws e = False"

text \<open>The effects up to the first that throws, and whether all were done.\<close>

fun run :: "(effect \<Rightarrow> bool) \<Rightarrow> effect list \<Rightarrow> dstate \<Rightarrow> bool \<times> dstate" where
  "run throws [] s = (True, s)"
| "run throws (e # es) s = (if raises throws e then (False, apply_effect e s) else run throws es (apply_effect e s))"

subsection \<open>Single events\<close>

definition report :: "js_string \<Rightarrow> dstate \<Rightarrow> dstate" where
  "report what s = apply_effect (Report what) s"

definition dispatchCanonicalEvent :: "env \<Rightarrow> (effect \<Rightarrow> bool) \<Rightarrow> obj \<Rightarrow> dstate \<Rightarrow> dstate" where
  "dispatchCanonicalEvent cfg throws evt s =
     (case run throws (dispatcher_effects (cfg\<lparr>current_user := socket_user s\<rparr>) (history s) (fallbackIds s) evt) s of
        (True, s1) \<Rightarrow> s1
      | (False, s1) \<Rightarrow> report (str_of (oget evt ''type'')) s1)"

definition onEvent :: "env \<Rightarrow> (effect \<Rightarrow> bool) \<Rightarrow> js_string \<Rightarrow> jv \<Rightarrow> dstate \<Rightarrow> dstate" where
  "onEvent cfg throws eventType payload_of s =
     (case adaptBridgeEvent (runtime cfg) eventType payload_of of
        None \<Rightarrow> s
      | Some canonical \<Rightarrow> dispatchCanonicalEvent cfg throws canonical s)"

text \<open>The metadata of the \<open>i\<close>-th created group has arrived, or its fetch failed; either way the failure is only logged.\<close>

definition metadata_settles :: "env \<Rightarrow> (effect \<Rightarrow> bool) \<Rightarrow> nat \<Rightarrow> obj option \<Rightarrow> dstate \<Rightarrow> dstate" where
  "metadata_settles cfg throws i metadata s =
     (if i < length (creating s)
      then
        let (n, fromMe) = creating s ! i; s1 = s\<lparr>creating := take i (creating s) @ drop (Suc i) (creating s)\<rparr> in
        (case metadata of
           None \<Rightarrow> s1
         | Some m \<Rightarrow> snd (run throws (group_created cfg (fallbackIds s1) n fromMe m) s1))
      else s)"

text \<open>The pause timer's callback; an armed timer fires at most once.\<close>

definition pause_fires :: "(effect \<Rightarrow> bool) \<Rightarrow> nat \<Rightarrow> dstate \<Rightarrow> dstate" where
  "pause_fires throws t s =
     (if t \<notin> set (live s) then s
      else
        let s1 = s\<lparr>live := filter (\<lambda>i. i \<noteq> t) (live s)\<rparr>;
            (ok, s2) = (if \<not> recentSyncComplete (history s1)
                        then run throws [RecentDone, status_event SYNC_RECENT ''paused'' False] s1 else (True, s1))
        in if ok then s2\<lparr>history := (history s2)\<lparr>pausedTimeout := None\<rparr>\<rparr> else s2)"

subsection \<open>Batches\<close>

type_synonym pending_upsert = "(obj list \<times> upsert_metadata) option"

definition flush_pending :: "(effect \<Rightarrow> bool) \<Rightarrow> pending_upsert \<Rightarrow> dstate \<Rightarrow> bool \<times> dstate" where
  "flush_pending throws pending s =
     (case pending of None \<Rightarrow> (True, s) | Some (msgs, meta) \<Rightarrow> run throws [emitMessageUpsert msgs meta] s)"

text \<open>The branch of an ordinary message: whether it ended without a throw, and the pending upsert it leaves.\<close>

definition add_message :: "env \<Rightarrow> (effect \<Rightarrow> bool) \<Rightarrow> obj \<Rightarrow> pending_upsert \<Rightarrow> dstate \<Rightarrow> bool \<times> pending_upsert \<times> dstate" where
  "add_message cfg throws canonical pending s =
     (case run throws (emitInboundPushName canonical) s of
        (False, s1) \<Rightarrow> (False, pending, s1)
      | (True, s1) \<Rightarrow>
          (let meta = messageUpsertMetadata canonical in
           case canonicalMessageToWAMessage cfg canonical of
             None \<Rightarrow> (False, pending, s1)
           | Some msg \<Rightarrow>
               (case pending of
                  Some (msgs, meta1) \<Rightarrow>
                    if meta1 = meta then (True, Some (msgs @ [msg], meta1), s1)
                    else (case flush_pending throws pending s1 of
                            (True, s2) \<Rightarrow> (True, Some ([msg], meta), s2)
                          | (False, s2) \<Rightarrow> (False, pending, s2))
                | None \<Rightarrow> (True, Some ([msg], meta), s1))))"

definition ordinary :: "obj \<Rightarrow> bool" where
  "ordinary canonical \<longleftrightarrow> oget canonical ''type'' = VStr ''message'' \<and> \<not> hasMessageSideEffects canonical"

text \<open>Whether the loop ended without a throw escaping the handler, and the state.\<close>

fun dispatchCanonicalBatch :: "env \<Rightarrow> (effect \<Rightarrow> bool) \<Rightarrow> obj option list \<Rightarrow> pending_upsert \<Rightarrow> dstate \<Rightarrow> bool \<times> dstate" where
  "dispatchCanonicalBatch cfg throws [] pending s = flush_pending throws pending s"
| "dispatchCanonicalBatch cfg throws (None # rest) pending s = dispatchCanonicalBatch cfg throws rest pending s"
| "dispatchCanonicalBatch cfg throws (Some canonical # rest) pending s =
     (if \<not> ordinary canonical
      then (case flush_pending throws pending s of
              (False, s1) \<Rightarrow> (False, s1)
            | (True, s1) \<Rightarrow> dispatchCanonicalBatch cfg throws rest None (dispatchCanonicalEvent cfg throws canonical s1))
      else if shouldIgnoreJid cfg (oget canonical ''chatJid'') then dispatchCanonicalBatch cfg throws rest pending s
      else
        (case add_message cfg throws canonical pending s of
           (ok, pending1, s1) \<Rightarrow>
             dispatchCanonicalBatch cfg throws rest pending1 (if ok then s1 else report ''message'' s1)))"

subsection \<open>Wire batches\<close>

text \<open>
  The engine's decoders are parameters. A message batch is \<open>None\<close> when its header is malformed, else one
  pair per message: the decoded payload, if it decodes, and the envelope.
\<close>

definition onMessageBatch :: "env \<Rightarrow> (effect \<Rightarrow> bool) \<Rightarrow> (jv option \<times> jv) list option \<Rightarrow> dstate \<Rightarrow> bool \<times> dstate" where
  "onMessageBatch cfg throws view s =
     (case view of
        None \<Rightarrow> (True, report ''decoding the message wire batch'' s)
      | Some rows \<Rightarrow>
          dispatchCanonicalBatch cfg throws
            (map (\<lambda>(msg, info). adaptBridgeMessageWire (runtime cfg) (case msg of None \<Rightarrow> VNull | Some m \<Rightarrow> m) info) rows) None s)"

definition onReceiptBatch :: "env \<Rightarrow> (effect \<Rightarrow> bool) \<Rightarrow> jv list option \<Rightarrow> dstate \<Rightarrow> dstate" where
  "onReceiptBatch cfg throws receipts s =
     (case receipts of
        None \<Rightarrow> report ''decoding the receipt wire batch'' s
      | Some rs \<Rightarrow> fold (onEvent cfg throws ''receipt'') rs s)"

definition onServerAckBatch :: "env \<Rightarrow> (effect \<Rightarrow> bool) \<Rightarrow> jv list option \<Rightarrow> dstate \<Rightarrow> dstate" where
  "onServerAckBatch cfg throws acks s =
     (case acks of
        None \<Rightarrow> report ''decoding the server-ack wire batch'' s
      | Some rs \<Rightarrow> fold (onEvent cfg throws ''server_ack'') rs s)"

text \<open>
  A history batch: the conversations between consecutive offsets, each decoded or skipped, and the fields of
  the remainder that the envelope does not own. \<open>decode_conversation\<close> takes a start and an end,
  \<open>decode_remainder\<close> the encoded rest.
\<close>

definition conversation_slots :: "(jv \<Rightarrow> jv \<Rightarrow> jv option) \<Rightarrow> jv list \<Rightarrow> jv option list" where
  "conversation_slots decode_conversation offsets =
     map (\<lambda>i. decode_conversation (offsets ! i) (offsets ! Suc i)) [0..<length offsets - 1]"

definition decodeHistorySyncWireBatch :: "(jv \<Rightarrow> jv \<Rightarrow> jv option) \<Rightarrow> (jv \<Rightarrow> obj option) \<Rightarrow> obj \<Rightarrow> obj \<times> nat" where
  "decodeHistorySyncWireBatch decode_conversation decode_remainder batch =
     (let slots = (if isConversationHistorySync (oget batch ''syncType'')
                   then conversation_slots decode_conversation (elems_of (oget batch ''conversationOffsets'')) else []);
          conversations = List.map_filter (\<lambda>x. x) slots;
          metadata = omap_del ''remainderData'' (omap_del ''conversationOffsets'' (omap_del ''conversationData'' batch));
          remainder = oget batch ''remainderData'';
          fields0 = (if elems_of remainder = [] then []
                     else case decode_remainder remainder of
                       None \<Rightarrow> []
                     | Some m \<Rightarrow> fold omap_del [''syncType'', ''chunkOrder'', ''progress'', ''conversations''] m)
      in (object_assign (object_assign fields0 metadata) [(''conversations'', VArr conversations)],
          length (filter (\<lambda>x. x = None) slots)))"

definition onHistorySyncBatch :: "env \<Rightarrow> (effect \<Rightarrow> bool) \<Rightarrow> (jv \<Rightarrow> jv \<Rightarrow> jv option) \<Rightarrow> (jv \<Rightarrow> obj option) \<Rightarrow> obj \<Rightarrow> dstate \<Rightarrow> nat \<times> dstate" where
  "onHistorySyncBatch cfg throws decode_conversation decode_remainder batch s =
     (let (event, skipped) = decodeHistorySyncWireBatch decode_conversation decode_remainder batch in
      (skipped, onEvent cfg throws ''history_sync'' (VObj event) s))"

text \<open>A configuration with no callbacks, no filter and constructors that keep what they are given.\<close>

definition plain_env :: env where
  "plain_env =
     \<lparr>runtime = plain_runtime, ignores = None, callbacks = [], auto_reconnect = None, current_user = None,
      long_fromValue = \<lambda>v. VToNumber v, message_fromObject = Some, webMessageInfo_fromObject = Some,
      web_collections = [], inexact_millis = \<lambda>v. None\<rparr>"

end
