(* ===== verification/DispatchBatch.thy ===== *)
theory DispatchBatch
  imports Dispatch
begin

text \<open>
  The batched message path of \<open>src/src/Socket/events-core.ts\<close> against the one-by-one path: what is aggregated,
  what is contained when a listener throws, and what is not.
\<close>

subsection \<open>Running effects\<close>

lemma run_append:
  "run throws (xs @ ys) s = (case run throws xs s of (True, s1) \<Rightarrow> run throws ys s1 | (False, s1) \<Rightarrow> (False, s1))"
  by (induction xs arbitrary: s) auto

text \<open>What was seen before does not matter to what is done: running from a clean record adds the same.\<close>

definition onto :: "effect list \<Rightarrow> dstate \<Rightarrow> dstate" where
  "onto before s = s\<lparr>seen := before @ seen s\<rparr>"

definition core :: "dstate \<Rightarrow> dstate" where
  "core s = s\<lparr>seen := []\<rparr>"

lemma onto_simps [simp]:
  "history (onto b s) = history s" "fallbackIds (onto b s) = fallbackIds s" "socket_user (onto b s) = socket_user s"
  "seen (onto b s) = b @ seen s" "core (onto b s) = core s" "onto [] s = s"
  by (simp_all add: onto_def core_def)

lemma core_simps [simp]:
  "history (core s) = history s" "fallbackIds (core s) = fallbackIds s" "socket_user (core s) = socket_user s" "seen (core s) = []"
  "core (core s) = core s"
  by (simp_all add: core_def)

lemma onto_core: "s = onto (seen s) (core s)"
  by (simp add: onto_def core_def)

lemma apply_onto: "apply_effect e (onto b s) = onto b (apply_effect e s)"
  by (cases e) (simp_all add: onto_def see_def clearHistorySyncPausedTimeout_def arm_pause_def split: option.split)

lemma run_onto: "run throws es (onto b s) = map_prod id (onto b) (run throws es s)"
  by (induction es arbitrary: s) (auto simp: apply_onto)

lemma dispatch_onto: "dispatchCanonicalEvent cfg throws evt (onto b s) = onto b (dispatchCanonicalEvent cfg throws evt s)"
  by (simp add: dispatchCanonicalEvent_def run_onto report_def apply_onto split: prod.split bool.split)

lemma dispatch_core:
  "dispatchCanonicalEvent cfg throws evt s = onto (seen s) (dispatchCanonicalEvent cfg throws evt (core s))"
  by (metis dispatch_onto onto_core)

subsection \<open>Ordinary messages\<close>

lemma ordinary_effects:
  assumes "ordinary m" "\<not> shouldIgnoreJid cfg (oget m ''chatJid'')"
  shows "dispatcher_effects (cfg\<lparr>current_user := u\<rparr>) h ids m =
     emitInboundPushName m @
     (case canonicalMessageToWAMessage cfg m of None \<Rightarrow> [Throw] | Some w \<Rightarrow> [emitMessageUpsert [w] (messageUpsertMetadata m)])"
proof -
  have quiet: "jprop (jprop (oget m ''messageProto'') ''reactionMessage'') k = VUndef"
    "jprop (jprop (oget m ''messageProto'') ''protocolMessage'') k = VUndef"
    "\<not> truthy (jprop (oget m ''messageProto'') ''protocolMessage'')" for k
    using assms(1) by (auto simp: ordinary_def hasMessageSideEffects_def nullish_def)
  have "canonicalMessageToWAMessage (cfg\<lparr>current_user := u\<rparr>) m = canonicalMessageToWAMessage cfg m"
    "shouldIgnoreJid (cfg\<lparr>current_user := u\<rparr>) (oget m ''chatJid'') = shouldIgnoreJid cfg (oget m ''chatJid'')"
    by (simp_all add: canonicalMessageToWAMessage_def shouldIgnoreJid_def)
  then show ?thesis
    using assms by (simp add: ordinary_def dispatcher_effects_def DISPATCHERS_def d_message_def reaction_effects_def label_effects_def
        protocol_effects_def quiet split: option.split)
qed

lemma ignored_effects:
  assumes "ordinary m" "shouldIgnoreJid cfg (oget m ''chatJid'')"
  shows "dispatcher_effects (cfg\<lparr>current_user := u\<rparr>) h ids m = []"
  using assms by (simp add: ordinary_def dispatcher_effects_def DISPATCHERS_def d_message_def shouldIgnoreJid_def)

lemma ignored_dispatch:
  "ordinary m \<Longrightarrow> shouldIgnoreJid cfg (oget m ''chatJid'') \<Longrightarrow> dispatchCanonicalEvent cfg throws m s = s"
  by (simp add: dispatchCanonicalEvent_def ignored_effects)

subsection \<open>What the outside sees\<close>

text \<open>Announcements: the \<open>contacts.update\<close> emissions and the reported errors. The rest is seen message by message.\<close>

fun announcement :: "effect \<Rightarrow> bool" where
  "announcement (Emit name p) = (name = ''contacts.update'')"
| "announcement (Report what) = True"
| "announcement e = False"

fun split_upsert :: "effect \<Rightarrow> effect list" where
  "split_upsert (Emit name (VObj ((k, VArr ms) # rest))) =
     (if name = ''messages.upsert'' \<and> k = ''messages'' then map (\<lambda>m. Emit name (VObj ((k, VArr [m]) # rest))) ms
      else [Emit name (VObj ((k, VArr ms) # rest))])"
| "split_upsert e = [e]"

definition announced :: "effect list \<Rightarrow> effect list" where
  "announced es = filter announcement es"

definition delivered :: "effect list \<Rightarrow> effect list" where
  "delivered es = concat (map split_upsert (filter (\<lambda>e. \<not> announcement e) es))"

lemma seen_append [simp]:
  "announced (xs @ ys) = announced xs @ announced ys" "delivered (xs @ ys) = delivered xs @ delivered ys"
  "announced [] = []" "delivered [] = []"
  by (simp_all add: announced_def delivered_def)

definition pending_messages :: "pending_upsert \<Rightarrow> effect list" where
  "pending_messages p = (case p of None \<Rightarrow> [] | Some (msgs, meta) \<Rightarrow> map (\<lambda>m. emitMessageUpsert [m] meta) msgs)"

lemma seen_upsert [simp]:
  "announced [emitMessageUpsert msgs meta] = []"
  "delivered [emitMessageUpsert msgs meta] = pending_messages (Some (msgs, meta))"
  by (simp_all add: announced_def delivered_def pending_messages_def emitMessageUpsert_def upsert_payload_def o_def)

lemma push_name_cases: "emitInboundPushName m = [] \<or> (\<exists>p. emitInboundPushName m = [Emit ''contacts.update'' p])"
  by (simp add: emitInboundPushName_def Let_def)

definition upsert_quiet :: "(effect \<Rightarrow> bool) \<Rightarrow> bool" where
  "upsert_quiet throws \<longleftrightarrow> (\<forall>msgs meta. \<not> throws (emitMessageUpsert msgs meta))"

lemma quiet_upsert [simp]: "upsert_quiet throws \<Longrightarrow> \<not> raises throws (emitMessageUpsert msgs meta)"
  by (simp add: upsert_quiet_def emitMessageUpsert_def del: split_paired_All)

lemma see_onto [simp]: "see e s = onto (seen s @ [e]) (core s)"
  by (simp add: see_def onto_def core_def)

lemma apply_upsert [simp]: "apply_effect (emitMessageUpsert msgs meta) s = onto (seen s @ [emitMessageUpsert msgs meta]) (core s)"
  by (simp add: emitMessageUpsert_def)

text \<open>The two states agree, but for the order of announcements and for what is still pending.\<close>

definition in_step :: "pending_upsert \<Rightarrow> dstate \<Rightarrow> dstate \<Rightarrow> bool" where
  "in_step pending s s' \<longleftrightarrow>
     core s = core s' \<and> announced (seen s) = announced (seen s') \<and>
     delivered (seen s) @ pending_messages pending = delivered (seen s')"

lemma flush_in_step:
  assumes "upsert_quiet throws" "in_step pending s s'"
  shows "fst (flush_pending throws pending s)" "in_step None (snd (flush_pending throws pending s)) s'"
  using assms by (auto simp: flush_pending_def in_step_def pending_messages_def split: option.splits)

lemma dispatch_in_step:
  assumes "in_step None s s'"
  shows "in_step None (dispatchCanonicalEvent cfg throws evt s) (dispatchCanonicalEvent cfg throws evt s')"
proof -
  have "core s = core s'" using assms by (simp add: in_step_def)
  then show ?thesis
    using assms unfolding dispatch_core [of cfg throws evt s] dispatch_core [of cfg throws evt s'] in_step_def
    by (simp add: pending_messages_def)
qed


lemma push_name_in_step:
  assumes "in_step pending s s'"
  shows "fst (run throws (emitInboundPushName m) s) = fst (run throws (emitInboundPushName m) s')"
    "in_step pending (snd (run throws (emitInboundPushName m) s)) (snd (run throws (emitInboundPushName m) s'))"
  using push_name_cases [of m] assms by (auto simp: in_step_def announced_def delivered_def)

lemma report_in_step: "in_step pending s s' \<Longrightarrow> in_step pending (report what s) (report what s')"
  by (simp add: in_step_def report_def announced_def delivered_def)

lemma single_ordinary:
  assumes "ordinary m" "\<not> shouldIgnoreJid cfg (oget m ''chatJid'')" "upsert_quiet throws"
  shows "dispatchCanonicalEvent cfg throws m s =
     (case run throws (emitInboundPushName m) s of
        (False, s1) \<Rightarrow> report ''message'' s1
      | (True, s1) \<Rightarrow>
          (case canonicalMessageToWAMessage cfg m of
             None \<Rightarrow> report ''message'' s1
           | Some w \<Rightarrow> apply_effect (emitMessageUpsert [w] (messageUpsertMetadata m)) s1))"
  using assms
  by (simp add: dispatchCanonicalEvent_def ordinary_effects run_append ordinary_def split: prod.split bool.split option.split)

lemma add_message_in_step:
  assumes m: "ordinary m" "\<not> shouldIgnoreJid cfg (oget m ''chatJid'')" and quiet: "upsert_quiet throws" and step: "in_step pending s s'"
    and add: "add_message cfg throws m pending s = (ok, pending1, s1)"
  shows "in_step pending1 (if ok then s1 else report ''message'' s1) (dispatchCanonicalEvent cfg throws m s')"
proof -
  obtain ok0 t where t: "run throws (emitInboundPushName m) s = (ok0, t)" by fastforce
  obtain ok1 t' where t': "run throws (emitInboundPushName m) s' = (ok1, t')" by fastforce
  have same: "ok1 = ok0" "in_step pending t t'" using push_name_in_step [OF step, of throws m] t t' by simp_all
  note single = single_ordinary [OF m quiet, of s']
  show ?thesis
  proof (cases "ok0 \<and> canonicalMessageToWAMessage cfg m \<noteq> None")
    case False
    then have "\<not> ok" "pending1 = pending" "s1 = t" "dispatchCanonicalEvent cfg throws m s' = report ''message'' t'"
      using add single t t' same(1) by (auto simp: add_message_def Let_def split: bool.splits)
    then show ?thesis using report_in_step [OF same(2)] by simp
  next
    case True
    then obtain w where w: "ok0" "canonicalMessageToWAMessage cfg m = Some w" by blast
    have single: "dispatchCanonicalEvent cfg throws m s' = apply_effect (emitMessageUpsert [w] (messageUpsertMetadata m)) t'"
      using single t' same(1) w by simp
    show ?thesis
    proof (cases pending)
      case None
      then have "ok" "pending1 = Some ([w], messageUpsertMetadata m)" "s1 = t" using add t w by (auto simp: add_message_def Let_def)
      then show ?thesis using same(2) None by (simp add: single in_step_def pending_messages_def)
    next
      case (Some pm)
      obtain msgs meta where pm: "pm = (msgs, meta)" by (cases pm)
      show ?thesis
      proof (cases "meta = messageUpsertMetadata m")
        case True
        then have "ok" "pending1 = Some (msgs @ [w], meta)" "s1 = t" using add t w Some pm by (auto simp: add_message_def Let_def)
        then show ?thesis using same(2) Some pm True by (simp add: single in_step_def pending_messages_def)
      next
        case False
        then have "ok" "pending1 = Some ([w], messageUpsertMetadata m)" "s1 = snd (flush_pending throws pending t)"
          using add t w Some pm quiet by (auto simp: add_message_def Let_def flush_pending_def)
        then show ?thesis using flush_in_step(2) [OF quiet same(2)] by (simp add: single in_step_def pending_messages_def)
      qed
    qed
  qed
qed

lemma batch_in_step:
  assumes "upsert_quiet throws" "in_step pending s s'"
  shows "fst (dispatchCanonicalBatch cfg throws events pending s) \<and>
     in_step None (snd (dispatchCanonicalBatch cfg throws events pending s))
       (fold (dispatchCanonicalEvent cfg throws) (List.map_filter (\<lambda>x. x) events) s')"
  using assms(2)
proof (induction events arbitrary: pending s s')
  case Nil
  then show ?case using flush_in_step [OF assms(1)] by (simp add: List.map_filter_def)
next
  case (Cons e events)
  show ?case
  proof (cases e)
    case None
    then show ?thesis using Cons by (simp add: List.map_filter_def)
  next
    case (Some m)
    consider (other) "\<not> ordinary m" | (ignored) "ordinary m" "shouldIgnoreJid cfg (oget m ''chatJid'')"
      | (normal) "ordinary m" "\<not> shouldIgnoreJid cfg (oget m ''chatJid'')" by blast
    then show ?thesis
    proof cases
      case other
      obtain s1 where f: "flush_pending throws pending s = (True, s1)" "in_step None s1 s'"
        using flush_in_step [OF assms(1) Cons.prems] by (metis prod.collapse)
      show ?thesis using Cons.IH [OF dispatch_in_step [OF f(2)]] f(1) other by (simp add: Some List.map_filter_def)
    next
      case ignored
      then show ?thesis using Cons.IH [OF Cons.prems] ignored_dispatch [OF ignored] by (simp add: Some List.map_filter_def)
    next
      case normal
      obtain ok pending1 s1 where add: "add_message cfg throws m pending s = (ok, pending1, s1)" using prod_cases3 by blast
      show ?thesis
        using Cons.IH [OF add_message_in_step [OF normal assms(1) Cons.prems add]] add normal by (simp add: Some List.map_filter_def)
    qed
  qed
qed

text \<open>
  C34: Batching is invisible. Unless a listener of \<open>messages.upsert\<close> throws, a batch of canonical events handled
  together never lets an error escape and has the same effect as the events handled one at a time, whatever the
  other listeners and the message constructor do: the same state of the socket afterwards, the same
  messages, reactions, edits, receipts and other events in the same order, with the upserts of the batch read message by message
  under their type and request id, and the same push names and error reports in the same order. Only the
  interleaving of push names and reports with the upserts may differ.
\<close>

theorem batch_equals_single_events:
  "upsert_quiet throws \<longrightarrow>
     (let (returned, s1) = dispatchCanonicalBatch cfg throws events None s;
          s2 = fold (dispatchCanonicalEvent cfg throws) (List.map_filter (\<lambda>x. x) events) s
      in returned \<and> core s1 = core s2 \<and> delivered (seen s1) = delivered (seen s2) \<and> announced (seen s1) = announced (seen s2))"
proof
  assume q: "upsert_quiet throws"
  have "in_step None s s" by (simp add: in_step_def pending_messages_def)
  from batch_in_step [OF q this, of cfg events]
  show "let (returned, s1) = dispatchCanonicalBatch cfg throws events None s;
          s2 = fold (dispatchCanonicalEvent cfg throws) (List.map_filter (\<lambda>x. x) events) s
      in returned \<and> core s1 = core s2 \<and> delivered (seen s1) = delivered (seen s2) \<and> announced (seen s1) = announced (seen s2)"
    by (simp add: in_step_def pending_messages_def case_prod_beta)
qed

definition message_example :: "js_string \<Rightarrow> obj \<Rightarrow> obj" where
  "message_example i extra =
     [(''type'', VStr ''message''), (''chatJid'', VStr ''7@s.whatsapp.net''), (''isGroup'', VBool False), (''isFromMe'', VBool False),
      (''id'', VStr i), (''timestamp'', VNum 5), (''messageProto'', VObj [])] @ extra"

theorem batch_equals_single_events_witness:
  "(let (returned, s1) = dispatchCanonicalBatch plain_env (\<lambda>e. False)
         [Some (message_example ''A'' []), None, Some (message_example ''B'' [(''isOffline'', VBool True)])] None (makeEventHandlers 0 None)
    in returned \<and> length (delivered (seen s1)) = 2)"
proof -
  have q: "upsert_quiet (\<lambda>e. False)" by (simp add: upsert_quiet_def)
  have "length (delivered (seen (fold (dispatchCanonicalEvent plain_env (\<lambda>e. False))
     (List.map_filter (\<lambda>x. x) [Some (message_example ''A'' []), None, Some (message_example ''B'' [(''isOffline'', VBool True)])])
     (makeEventHandlers 0 None)))) = 2"
    by code_simp
  then show ?thesis
    using batch_equals_single_events [rule_format, OF q, of plain_env "[Some (message_example ''A'' []), None, Some (message_example ''B'' [(''isOffline'', VBool True)])]" "makeEventHandlers 0 None"]
    by (auto simp: Let_def case_prod_beta)
qed

text \<open>
  C37: What a throwing \<open>messages.upsert\<close> listener does to a batch. When two neighbouring messages of a batch
  differ in type or request id and the listener throws, the first is delivered twice and the second
  never, although only one error is reported, and the second throw escapes the handler. One at a time, each
  message is delivered once and both errors are reported.
\<close>

theorem throwing_upsert_listener:
  "ordinary m1 \<and> ordinary m2 \<and> ignores cfg = None \<and> emitInboundPushName m1 = [] \<and> emitInboundPushName m2 = [] \<and>
   canonicalMessageToWAMessage cfg m1 = Some w1 \<and> canonicalMessageToWAMessage cfg m2 = Some w2 \<and>
   messageUpsertMetadata m1 \<noteq> messageUpsertMetadata m2 \<and> (\<forall>msgs meta. throws (emitMessageUpsert msgs meta)) \<longrightarrow>
   (let u1 = emitMessageUpsert [w1] (messageUpsertMetadata m1); u2 = emitMessageUpsert [w2] (messageUpsertMetadata m2) in
     (let (returned, s1) = dispatchCanonicalBatch cfg throws [Some m1, Some m2] None s
      in \<not> returned \<and> seen s1 = seen s @ [u1, Report ''message'', u1]) \<and>
     seen (fold (dispatchCanonicalEvent cfg throws) [m1, m2] s) = seen s @ [u1, Report ''message'', u2, Report ''message''])"
proof
  assume a: "ordinary m1 \<and> ordinary m2 \<and> ignores cfg = None \<and> emitInboundPushName m1 = [] \<and> emitInboundPushName m2 = [] \<and>
    canonicalMessageToWAMessage cfg m1 = Some w1 \<and> canonicalMessageToWAMessage cfg m2 = Some w2 \<and>
    messageUpsertMetadata m1 \<noteq> messageUpsertMetadata m2 \<and> (\<forall>msgs meta. throws (emitMessageUpsert msgs meta))"
  then have r: "raises throws (emitMessageUpsert msgs meta)" for msgs meta by (simp add: emitMessageUpsert_def del: split_paired_All)
  have i: "\<not> shouldIgnoreJid cfg c" for c using a by (simp add: shouldIgnoreJid_def)
  have t: "str_of (oget m1 ''type'') = ''message''" "str_of (oget m2 ''type'') = ''message''" using a by (simp_all add: ordinary_def)
  have d: "dispatcher_effects (cfg\<lparr>current_user := u\<rparr>) h ids m1 = [emitMessageUpsert [w1] (messageUpsertMetadata m1)]"
    "dispatcher_effects (cfg\<lparr>current_user := u\<rparr>) h ids m2 = [emitMessageUpsert [w2] (messageUpsertMetadata m2)]" for u h ids
    using a ordinary_effects [of m1 cfg u h ids] ordinary_effects [of m2 cfg u h ids] i by simp_all
  show "let u1 = emitMessageUpsert [w1] (messageUpsertMetadata m1); u2 = emitMessageUpsert [w2] (messageUpsertMetadata m2) in
     (let (returned, s1) = dispatchCanonicalBatch cfg throws [Some m1, Some m2] None s
      in \<not> returned \<and> seen s1 = seen s @ [u1, Report ''message'', u1]) \<and>
     seen (fold (dispatchCanonicalEvent cfg throws) [m1, m2] s) = seen s @ [u1, Report ''message'', u2, Report ''message'']"
    using a i by (simp add: add_message_def flush_pending_def dispatchCanonicalEvent_def d r t report_def Let_def)
qed

theorem throwing_upsert_listener_witness:
  "\<not> fst (dispatchCanonicalBatch plain_env (\<lambda>e. True) [Some (message_example ''A'' []), Some (message_example ''B'' [(''isOffline'', VBool True)])]
       None (makeEventHandlers 0 None))"
proof -
  let ?m1 = "message_example ''A'' []" and ?m2 = "message_example ''B'' [(''isOffline'', VBool True)]"
  have "ordinary ?m1 \<and> ordinary ?m2 \<and> ignores plain_env = None \<and> emitInboundPushName ?m1 = [] \<and> emitInboundPushName ?m2 = [] \<and>
    canonicalMessageToWAMessage plain_env ?m1 = Some (the (canonicalMessageToWAMessage plain_env ?m1)) \<and>
    canonicalMessageToWAMessage plain_env ?m2 = Some (the (canonicalMessageToWAMessage plain_env ?m2)) \<and>
    messageUpsertMetadata ?m1 \<noteq> messageUpsertMetadata ?m2 \<and> (\<forall>msgs meta. (\<lambda>e. True) (emitMessageUpsert msgs meta))"
    by (simp, code_simp)
  from throwing_upsert_listener [rule_format, OF this, of "makeEventHandlers 0 None"] show ?thesis
    by (auto simp: Let_def case_prod_beta)
qed

end
