(* ===== verification/DispatchLifecycle.thy ===== *)
theory DispatchLifecycle
  imports DispatchBatch
begin

text \<open>
  The lifecycle side of \<open>src/src/Socket/events-core.ts\<close>: the milestones of the history sync with their pause
  timer over whole runs of the socket, and the events that close it.
\<close>

subsection \<open>Inputs of a socket\<close>

text \<open>Configuration and the listeners' behaviour may change from input to input.\<close>

datatype socket_input =
    EventIn env "effect \<Rightarrow> bool" obj
  | BatchIn env "effect \<Rightarrow> bool" "obj option list"
  | MetadataIn env "effect \<Rightarrow> bool" nat "obj option"
  | PauseFires "effect \<Rightarrow> bool" nat
  | CleanUp

fun socket_react :: "socket_input \<Rightarrow> dstate \<Rightarrow> dstate" where
  "socket_react (EventIn cfg throws evt) s = dispatchCanonicalEvent cfg throws evt s"
| "socket_react (BatchIn cfg throws events) s = snd (dispatchCanonicalBatch cfg throws events None s)"
| "socket_react (MetadataIn cfg throws i m) s = metadata_settles cfg throws i m s"
| "socket_react (PauseFires throws t) s = pause_fires throws t s"
| "socket_react CleanUp s = clearHistorySyncPausedTimeout s"

subsection \<open>Milestones\<close>

fun is_status :: "effect \<Rightarrow> bool" where
  "is_status (Emit name p) = (name = ''messaging-history.status'')"
| "is_status e = False"

text \<open>Effects that leave the milestones and the pause timer alone, or only clear the timer.\<close>

definition calm :: "effect \<Rightarrow> bool" where
  "calm e \<longleftrightarrow> \<not> is_status e \<and> e \<noteq> ArmPaused \<and> e \<noteq> BootstrapDone \<and> e \<noteq> RecentDone"

definition bootstrap_status :: effect where
  "bootstrap_status = status_event SYNC_INITIAL_BOOTSTRAP ''complete'' True"

definition recent_complete :: effect where
  "recent_complete = status_event SYNC_RECENT ''complete'' True"

definition recent_paused :: effect where
  "recent_paused = status_event SYNC_RECENT ''paused'' False"

lemmas milestones = bootstrap_status_def recent_complete_def recent_paused_def

lemma milestones_distinct:
  "is_status bootstrap_status" "is_status recent_complete" "is_status recent_paused"
  "bootstrap_status \<noteq> recent_complete" "bootstrap_status \<noteq> recent_paused" "recent_complete \<noteq> recent_paused"
  by (simp_all add: milestones status_event_def SYNC_INITIAL_BOOTSTRAP_def SYNC_RECENT_def)

definition history_inv :: "dstate \<Rightarrow> bool" where
  "history_inv s \<longleftrightarrow>
     distinct (live s) \<and> (\<forall>t \<in> set (live s). pausedTimeout (history s) = Some t) \<and>
     count_list (seen s) bootstrap_status = of_bool (initialBootstrapComplete (history s)) \<and>
     count_list (seen s) recent_complete + count_list (seen s) recent_paused = of_bool (recentSyncComplete (history s))"

lemma calm_effects [simp]:
  "calm (Emit name p) \<longleftrightarrow> name \<noteq> ''messaging-history.status''" "calm (WsEmit name p)" "calm (SetUser v)" "calm (Callback name p)"
  "calm (CloseOwner e)" "calm ClearPaused" "calm (TakeIds n)" "calm (ResolveCreate g b)" "calm (Report w)" "calm Throw"
  by (simp_all add: calm_def)

lemma calm_emits [simp]: "calm (emitMessageUpsert msgs meta)" "calm (connection_update u)" "calm (domain_effect d)"
  by (simp_all add: emitMessageUpsert_def connection_update_def domain_effect_def split: domain_event.split)

lemma calm_calls [simp]: "list_all calm (calls cfg name p)"
  by (simp add: calls_def)

lemma calm_close [simp]: "list_all calm (emitClose cfg r st d)"
  by (simp add: emitClose_def split: sum.split)

lemma calm_retrying [simp]: "list_all calm emitRetrying"
  by (simp add: emitRetrying_def)

lemma calm_push_name [simp]: "list_all calm (emitInboundPushName m)"
  using push_name_cases [of m] by auto

lemma calm_change [simp]: "list_all calm (chat_change evt fs)"
  by (simp add: chat_change_def)

lemma calm_stanza [simp]: "list_all calm (emitCBEvents node)"
  by (auto simp: emitCBEvents_def attr_events_def Let_def list_all_iff)

lemma calm_count:
  assumes "calm e"
  shows "e \<noteq> bootstrap_status" "e \<noteq> recent_complete" "e \<noteq> recent_paused"
  using assms milestones_distinct(1-3) by (auto simp: calm_def)

text \<open>Every dispatcher but that of the history sync is calm.\<close>

lemma calm_message: "list_all calm (d_message cfg evt)"
  by (simp add: d_message_def reaction_effects_def label_effects_def protocol_effects_def Let_def split: option.split)

lemma calm_undecryptable: "list_all calm (d_undecryptableMessage cfg evt)"
  by (simp add: d_undecryptableMessage_def Let_def split: option.split)

lemma calm_group: "list_all calm (d_groupUpdate cfg ids evt)"
  by (auto simp: d_groupUpdate_def Let_def list_all_iff split: option.split prod.split)

lemma calm_ban: "list_all calm (d_temporaryBan cfg evt)"
  by (simp add: d_temporaryBan_def Let_def split: option.split)

lemma calm_newsletter: "list_all calm (d_newsletterLiveUpdate evt)"
  by (auto simp: d_newsletterLiveUpdate_def newsletter_reaction_def list_all_iff)

lemma calm_lid: "list_all calm (d_lidMappingUpdate evt)"
  by (auto simp: d_lidMappingUpdate_def list_all_iff)

lemmas small_dispatchers = d_disconnected_def d_qr_def d_pairSuccess_def d_loggedOut_def d_connectFailure_def d_streamError_def
  d_receipt_def d_contactUpdate_def d_pictureUpdate_def d_presence_def d_chatPresence_def d_archiveUpdate_def d_pinUpdate_def
  d_muteUpdate_def d_starUpdate_def d_markChatAsReadUpdate_def d_lockChatUpdate_def d_labelSublist_def d_labelEdit_def
  d_labelAssociation_def d_appStateSyncFailed_def d_settingUpdate_def d_unarchiveChatsSetting_def d_incomingCall_def
  d_mexNotification_def d_serverAck_def d_messageDelete_def d_disappearingModeChanged_def

lemma calm_table: "list_all (\<lambda>(k, f). k = ''historySync'' \<or> (\<forall>evt. list_all calm (f evt))) (DISPATCHERS cfg h ids)"
  unfolding DISPATCHERS_def list.pred_inject(2) prod.case
  by (intro conjI; simp add: calm_message calm_undecryptable calm_group calm_ban calm_newsletter calm_lid small_dispatchers Let_def
      split: option.split)

lemma calm_dispatcher:
  assumes "oget evt ''type'' \<noteq> VStr ''historySync''"
  shows "list_all calm (dispatcher_effects cfg h ids evt)"
proof (cases "map_of (DISPATCHERS cfg h ids) (str_of (oget evt ''type''))")
  case (Some f)
  have "str_of (oget evt ''type'') \<noteq> ''historySync''" using assms by (cases "oget evt ''type''") auto
  then show ?thesis
    using calm_table [of cfg h ids] map_of_SomeD [OF Some] by (auto simp: dispatcher_effects_def Some list_all_iff)
qed (simp add: dispatcher_effects_def)

lemma history_dispatcher:
  "oget evt ''type'' = VStr ''historySync'' \<Longrightarrow> dispatcher_effects cfg h ids evt = d_historySync h evt"
  by (simp add: dispatcher_effects_def DISPATCHERS_def)

subsection \<open>The invariant\<close>

lemma history_inv_see: "calm e \<Longrightarrow> history_inv s \<Longrightarrow> history_inv (onto (seen s @ [e]) (core s))"
  using calm_count [of e] by (auto simp: history_inv_def onto_def core_def)

lemma calm_apply:
  assumes "calm e" "history_inv s"
  shows "history_inv (apply_effect e s)"
proof (cases e)
  case (SetUser u)
  have inv: "history_inv (s\<lparr>socket_user := Some (str_opt (jprop u ''id''), str_opt (jprop u ''lid''))\<rparr>)" using assms by (simp add: history_inv_def)
  then show ?thesis using history_inv_see [OF _ inv, of "SetUser u"] by (simp add: SetUser)
next
  case ClearPaused
  then show ?thesis using assms by (auto simp: history_inv_def clearHistorySyncPausedTimeout_def split: option.split)
qed (use assms history_inv_see [OF assms] in \<open>simp_all add: calm_def, simp_all add: history_inv_def\<close>)

lemma calm_run: "list_all calm es \<Longrightarrow> history_inv s \<Longrightarrow> history_inv (snd (run throws es s))"
  by (induction es arbitrary: s) (auto intro: calm_apply)

lemma report_inv: "history_inv s \<Longrightarrow> history_inv (report w s)"
  unfolding report_def by (rule calm_apply) simp_all


definition history_chunk :: "obj \<Rightarrow> bool" where
  "history_chunk evt \<longleftrightarrow> oget evt ''type'' = VStr ''historySync'' \<and> oget evt ''isFinalBatch'' \<noteq> VBool False"

lemma calm_history_rest:
  "list_all calm ([Emit ''messaging-history.set'' (history_payload isFinalBatch evt)] @
     (if elems_of (oget evt ''chats'') \<noteq> [] then [Emit ''chats.upsert'' (oget evt ''chats'')] else []))"
  by simp

lemma quiet_state_effects [simp]:
  "\<not> raises throws ClearPaused" "\<not> raises throws ArmPaused" "\<not> raises throws BootstrapDone" "\<not> raises throws RecentDone"
  by simp_all

lemma status_applied [simp]: "apply_effect (status_event k st b) s = onto (seen s @ [status_event k st b]) (core s)"
  by (simp add: status_event_def)

lemma bootstrap_inv:
  assumes "history_inv s" "\<not> initialBootstrapComplete (history s)"
  shows "history_inv (snd (run throws [BootstrapDone, bootstrap_status] s))"
    "recentSyncComplete (history (snd (run throws [BootstrapDone, bootstrap_status] s))) = recentSyncComplete (history s)"
  using assms milestones_distinct(4,5) by (auto simp: history_inv_def onto_def core_def bootstrap_status_def)

lemma recent_inv:
  assumes "history_inv s" "\<not> recentSyncComplete (history s)"
  shows "history_inv (snd (run throws [ClearPaused, RecentDone, recent_complete] s))"
    "history_inv (snd (run throws [ClearPaused, ArmPaused] s))"
  using assms milestones_distinct(4-6)
  by (auto simp: history_inv_def onto_def core_def recent_complete_def clearHistorySyncPausedTimeout_def arm_pause_def split: option.splits)

lemma run_append_inv:
  assumes "history_inv (snd (run throws xs s))" "list_all calm ys"
  shows "history_inv (snd (run throws (xs @ ys) s))"
  using assms calm_run [OF assms(2), of "snd (run throws xs s)" throws]
  by (cases "run throws xs s") (auto simp: run_append split: bool.split)

lemma history_dispatch_inv:
  assumes "history_inv s"
  shows "history_inv (snd (run throws (d_historySync (history s) evt) s))"
proof -
  define isFinalBatch where "isFinalBatch = (oget evt ''isFinalBatch'' \<noteq> VBool False)"
  define rest where "rest = [Emit ''messaging-history.set'' (history_payload isFinalBatch evt)] @
     (if elems_of (oget evt ''chats'') \<noteq> [] then [Emit ''chats.upsert'' (oget evt ''chats'')] else [])"
  have calm: "list_all calm rest" unfolding rest_def by (rule calm_history_rest)
  consider (boot) "d_historySync (history s) evt = [BootstrapDone, bootstrap_status] @ rest" "\<not> initialBootstrapComplete (history s)"
    | (complete) "d_historySync (history s) evt = [ClearPaused, RecentDone, recent_complete] @ rest" "\<not> recentSyncComplete (history s)"
    | (arm) "d_historySync (history s) evt = [ClearPaused, ArmPaused] @ rest" "\<not> recentSyncComplete (history s)"
    | (plain) "d_historySync (history s) evt = rest"
    unfolding d_historySync_def isFinalBatch_def [symmetric] Let_def rest_def milestones SYNC_INITIAL_BOOTSTRAP_def SYNC_RECENT_def
    by (cases "isFinalBatch \<and> oget evt ''syncType'' = VNum 0 \<and> \<not> initialBootstrapComplete (history s)";
        cases "isFinalBatch \<and> oget evt ''syncType'' = VNum 3 \<and> \<not> recentSyncComplete (history s)";
        cases "oget evt ''progress'' = VNum 100") auto
  then show ?thesis
  proof cases
    case boot
    show ?thesis unfolding boot(1) by (rule run_append_inv [OF bootstrap_inv(1) [OF assms boot(2)] calm])
  next
    case complete
    show ?thesis unfolding complete(1) by (rule run_append_inv [OF recent_inv(1) [OF assms complete(2)] calm])
  next
    case arm
    show ?thesis unfolding arm(1) by (rule run_append_inv [OF recent_inv(2) [OF assms arm(2)] calm])
  next
    case plain
    show ?thesis unfolding plain by (rule calm_run [OF calm assms])
  qed
qed

lemma dispatch_inv:
  assumes "history_inv s"
  shows "history_inv (dispatchCanonicalEvent cfg throws evt s)"
proof -
  have "history_inv (snd (run throws (dispatcher_effects (cfg\<lparr>current_user := socket_user s\<rparr>) (history s) (fallbackIds s) evt) s))"
    using history_dispatch_inv [OF assms] calm_run [OF calm_dispatcher assms] history_dispatcher [of evt]
    by (cases "oget evt ''type'' = VStr ''historySync''") simp_all
  then show ?thesis
    using report_inv by (auto simp: dispatchCanonicalEvent_def split: prod.split bool.split)
qed

lemma flush_inv: "history_inv s \<Longrightarrow> history_inv (snd (flush_pending throws pending s))"
  unfolding flush_pending_def by (cases pending) (auto intro!: calm_run simp del: run.simps)

lemma add_message_inv:
  "history_inv s \<Longrightarrow> add_message cfg throws m pending s = (ok, pending1, s1) \<Longrightarrow> history_inv s1"
  using calm_run [OF calm_push_name, of s throws m] flush_inv [of "snd (run throws (emitInboundPushName m) s)" throws pending]
  by (cases "run throws (emitInboundPushName m) s")
    (auto simp: add_message_def Let_def split: bool.splits option.splits prod.splits if_splits)

lemma batch_inv: "history_inv s \<Longrightarrow> history_inv (snd (dispatchCanonicalBatch cfg throws events pending s))"
proof (induction cfg throws events pending s rule: dispatchCanonicalBatch.induct)
  case (3 cfg throws canonical rest pending s)
  show ?case
    using "3.prems" "3.IH" flush_inv [OF "3.prems", of throws pending] add_message_inv [OF "3.prems"] dispatch_inv report_inv
    by (auto split: prod.split bool.split)
qed (auto intro: flush_inv)

lemma calm_created: "list_all calm (group_created cfg ids n fromMe m)"
  by (simp add: group_created_def split: prod.split)

lemma metadata_inv:
  assumes "history_inv s"
  shows "history_inv (metadata_settles cfg throws i m s)"
proof -
  have "history_inv (s\<lparr>creating := cs\<rparr>)" for cs using assms by (simp add: history_inv_def)
  then show ?thesis
    using assms calm_run [OF calm_created] by (auto simp: metadata_settles_def Let_def split: prod.split option.split)
qed

lemma pause_fires_live:
  assumes "history_inv s" "t \<in> set (live s)"
  shows "live s = [t]" "pausedTimeout (history s) = Some t"
proof -
  have all: "\<forall>x \<in> set (live s). pausedTimeout (history s) = Some x" and d: "distinct (live s)"
    using assms(1) by (simp_all add: history_inv_def)
  have p: "pausedTimeout (history s) = Some t" using bspec [OF all assms(2)] .
  then have "\<forall>x \<in> set (live s). x = t" using all by simp
  then have only: "x = t" if "x \<in> set (live s)" for x using that by blast
  show "live s = [t]"
  proof (cases "live s")
    case (Cons x xs)
    have "x = t" using only Cons by simp
    moreover have "xs = []" using only [of "hd xs"] d Cons \<open>x = t\<close> by (cases xs) auto
    ultimately show ?thesis using Cons by simp
  qed (use assms(2) in simp)
  show "pausedTimeout (history s) = Some t" by (rule p)
qed

lemma paused_applied [simp]: "apply_effect recent_paused s = onto (seen s @ [recent_paused]) (core s)"
  by (simp add: recent_paused_def)

lemma pause_inv:
  assumes "history_inv s"
  shows "history_inv (pause_fires throws t s)"
proof (cases "t \<in> set (live s)")
  case True
  note l = pause_fires_live [OF assms True]
  have c: "count_list (seen s) bootstrap_status = of_bool (initialBootstrapComplete (history s))"
    "count_list (seen s) recent_complete + count_list (seen s) recent_paused = of_bool (recentSyncComplete (history s))"
    using assms by (simp_all add: history_inv_def)
  show ?thesis
    using l c milestones_distinct(4-6)
    by (auto simp: pause_fires_def history_inv_def onto_def core_def recent_paused_def [symmetric] Let_def split: prod.split)
qed (simp add: pause_fires_def assms)

lemma cleanup_live: "history_inv s \<Longrightarrow> live (clearHistorySyncPausedTimeout s) = []"
  by (cases "pausedTimeout (history s)")
    (auto simp: clearHistorySyncPausedTimeout_def history_inv_def filter_empty_conv)

lemma cleanup_inv: "history_inv s \<Longrightarrow> history_inv (clearHistorySyncPausedTimeout s)"
  using calm_apply [of ClearPaused s] by simp

lemma react_inv: "history_inv s \<Longrightarrow> history_inv (socket_react e s)"
  by (cases e) (simp_all add: dispatch_inv batch_inv metadata_inv pause_inv cleanup_inv)

interpretation socket: reactive "makeEventHandlers ids u" socket_react history_inv
  by unfold_locales (simp add: makeEventHandlers_def history_inv_def, rule react_inv)

text \<open>A final RECENT chunk below 100 percent arms the timer before anything a listener could stop.\<close>

definition partial_recent_chunk :: "obj \<Rightarrow> bool" where
  "partial_recent_chunk evt \<longleftrightarrow>
     history_chunk evt \<and> oget evt ''syncType'' = VNum SYNC_RECENT \<and> oget evt ''progress'' \<noteq> VNum 100"

lemma run_rest_live:
  assumes "list_all (\<lambda>e. \<exists>n p. e = Emit n p) es"
  shows "live (snd (run throws es s)) = live s \<and> history (snd (run throws es s)) = history s"
  using assms by (induction es arbitrary: s) (auto simp: onto_def core_def)

lemma partial_chunk_arms:
  fixes cfg throws
  assumes "history_inv s" "partial_recent_chunk evt" "\<not> recentSyncComplete (history s)"
  defines "s1 \<equiv> dispatchCanonicalEvent cfg throws evt s"
  shows "live s1 = [next_handle s] \<and> \<not> recentSyncComplete (history s1)"
proof -
  define rest where "rest = [Emit ''messaging-history.set'' (history_payload True evt)] @
     (if elems_of (oget evt ''chats'') \<noteq> [] then [Emit ''chats.upsert'' (oget evt ''chats'')] else [])"
  have eff: "dispatcher_effects (cfg\<lparr>current_user := socket_user s\<rparr>) (history s) (fallbackIds s) evt = [ClearPaused, ArmPaused] @ rest"
    using assms(2,3) by (simp add: partial_recent_chunk_def history_chunk_def history_dispatcher d_historySync_def rest_def
        SYNC_RECENT_def SYNC_INITIAL_BOOTSTRAP_def)
  define a where "a = arm_pause (clearHistorySyncPausedTimeout s)"
  have arm: "live a = [next_handle s]" "\<not> recentSyncComplete (history a)"
    using assms(3) cleanup_live [OF assms(1)]
    by (simp_all add: a_def arm_pause_def, simp_all add: clearHistorySyncPausedTimeout_def)
  have "list_all (\<lambda>e. \<exists>n p. e = Emit n p) rest" by (simp add: rest_def)
  from run_rest_live [OF this, of throws a] arm
  have "live (snd (run throws rest a)) = [next_handle s] \<and> \<not> recentSyncComplete (history (snd (run throws rest a)))" by simp
  then show ?thesis
    unfolding s1_def dispatchCanonicalEvent_def eff
    by (auto simp: a_def report_def onto_def core_def split: prod.split bool.split)
qed


subsection \<open>Closing and retrying\<close>

text \<open>The status an event closes the socket with; \<open>None\<close> when the engine goes on or comes back by itself.\<close>

definition terminal_status :: "env \<Rightarrow> obj \<Rightarrow> nat option" where
  "terminal_status cfg evt =
     (let t = str_of (oget evt ''type''); r = reason_code (oget evt ''reason'') in
      if t = ''disconnected'' then (if auto_reconnect cfg = Some False then Some 428 else None)
      else if t = ''loggedOut'' then Some 401
      else if t = ''connectFailure''
      then (if r \<in> {Some 500, Some 503} \<and> auto_reconnect cfg \<noteq> Some False then None else Some (mapConnectFailureToDisconnect r))
      else if t = ''streamReplaced'' then Some 440
      else if t = ''clientOutdated'' then Some 405
      else if t = ''temporaryBan'' then Some 403
      else if t = ''qrCodesExhausted'' then Some 408
      else None)"

definition close_effect :: "env \<Rightarrow> js_error \<Rightarrow> effect" where
  "close_effect cfg error =
     (if ''onTerminalClose'' \<in> set (callbacks cfg) then CloseOwner error
      else connection_update (close_update (js_now (runtime cfg)) error))"

fun closes :: "effect \<Rightarrow> bool" where
  "closes (CloseOwner e) = True"
| "closes (Emit name p) = (name = ''connection.update'' \<and> jprop p ''connection'' = VStr ''close'')"
| "closes e = False"

fun retrying :: "effect \<Rightarrow> bool" where
  "retrying (Emit name p) = (name = ''connection.update'' \<and> jprop p ''connection'' = VStr ''connecting'')"
| "retrying e = False"

definition neutral :: "effect \<Rightarrow> bool" where
  "neutral e \<longleftrightarrow> \<not> closes e \<and> \<not> retrying e"

lemma neutral_effects [simp]:
  "name \<noteq> ''connection.update'' \<Longrightarrow> neutral (Emit name p)" "neutral (WsEmit name p)" "neutral (SetUser v)" "neutral (Callback name p)"
  "neutral ClearPaused" "neutral ArmPaused" "neutral BootstrapDone" "neutral RecentDone" "neutral (TakeIds n)"
  "neutral (ResolveCreate g b)" "neutral (Report w)" "neutral Throw" "neutral (emitMessageUpsert msgs meta)" "neutral (domain_effect d)"
  "neutral (status_event k st b)"
  by (simp_all add: neutral_def emitMessageUpsert_def domain_effect_def status_event_def split: domain_event.split)

lemma neutral_update [simp]: "neutral (connection_update u) \<longleftrightarrow> oget u ''connection'' \<noteq> VStr ''close'' \<and> oget u ''connection'' \<noteq> VStr ''connecting''"
  by (simp add: neutral_def connection_update_def)

lemma neutral_lists [simp]: "list_all neutral (calls cfg name p)" "list_all neutral (chat_change evt fs)" "list_all neutral (emitInboundPushName m)"
  "list_all neutral (emitCBEvents node)"
  using push_name_cases [of m]
  by (auto simp: calls_def chat_change_def, auto simp: emitCBEvents_def attr_events_def Let_def list_all_iff)

lemma neutral_message: "list_all neutral (d_message cfg evt)"
  by (simp add: d_message_def reaction_effects_def label_effects_def protocol_effects_def Let_def split: option.split)

lemma neutral_undecryptable: "list_all neutral (d_undecryptableMessage cfg evt)"
  by (simp add: d_undecryptableMessage_def Let_def split: option.split)

lemma neutral_group: "list_all neutral (d_groupUpdate cfg ids evt)"
  by (auto simp: d_groupUpdate_def Let_def list_all_iff split: option.split prod.split)

lemma neutral_newsletter: "list_all neutral (d_newsletterLiveUpdate evt)"
  by (auto simp: d_newsletterLiveUpdate_def newsletter_reaction_def list_all_iff)

lemma neutral_lid: "list_all neutral (d_lidMappingUpdate evt)"
  by (auto simp: d_lidMappingUpdate_def list_all_iff)

lemma neutral_history: "list_all neutral (d_historySync h evt)"
  by (simp add: d_historySync_def Let_def)

definition lifecycle_types :: "js_string list" where
  "lifecycle_types = [''disconnected'', ''pairError'', ''loggedOut'', ''connectFailure'', ''streamError'', ''streamReplaced'', ''clientOutdated'',
     ''temporaryBan'', ''qrCodesExhausted'']"

lemma neutral_table: "list_all (\<lambda>(k, f). k \<in> set lifecycle_types \<or> (\<forall>evt. list_all neutral (f evt))) (DISPATCHERS cfg h ids)"
  unfolding DISPATCHERS_def list.pred_inject(2) prod.case
  by (intro conjI; simp add: neutral_message neutral_undecryptable neutral_group neutral_newsletter neutral_lid neutral_history
      small_dispatchers Let_def lifecycle_types_def event_fields split: option.split)

lemma neutral_dispatcher:
  assumes "str_of (oget evt ''type'') \<notin> set lifecycle_types"
  shows "list_all neutral (dispatcher_effects cfg h ids evt)"
  using assms neutral_table [of cfg h ids]
  by (auto simp: dispatcher_effects_def list_all_iff split: option.split dest!: map_of_SomeD)

lemma close_emitted:
  assumes "400 \<le> status"
  shows "\<exists>err. emitClose cfg r status d = [ClearPaused, close_effect cfg err] \<and> boom_ok err \<and> statusCode (the (response err)) = int status"
proof -
  obtain b where b: "new_boom r (no_options\<lparr>opt_statusCode := Some (int status), opt_data := d\<rparr>) = Inr b"
      and ok: "boom_ok b" "statusCode (the (response b)) = int status"
  proof -
    let ?e = "(plain_error r)\<lparr>own_data := Some (if nullish d then VNull else d)\<rparr>"
    obtain b0 where b0: "initializeBoom ?e (int status) [] = Inr b0" using initialize_total [of "int status" ?e "[]"] assms by auto
    show ?thesis
    proof (rule that)
      show "new_boom r (no_options\<lparr>opt_statusCode := Some (int status), opt_data := d\<rparr>) = Inr (b0\<lparr>decorated := object_assign (decorated b0) []\<rparr>)"
        using b0 by (cases "nullish d") (simp_all add: new_boom_def no_options_def)
    qed (use initialized_ok [OF b0] parse_show_int [of "int status"] in \<open>simp_all add: boom_ok_def\<close>)
  qed
  have "emitClose cfg r status d = [ClearPaused, close_effect cfg b]" using b by (simp add: emitClose_def close_effect_def)
  then show ?thesis using ok by blast
qed


text \<open>A deadline that can be printed, which is all the adapter lets through.\<close>

definition printable_deadline :: "env \<Rightarrow> jv \<Rightarrow> bool" where
  "printable_deadline cfg x \<longleftrightarrow> truthy x \<longrightarrow> (\<exists>ms s. date_millis cfg x = Some ms \<and> toISOString ms = Some s)"

lemma dates_print: "date_millis cfg (VNum n) = Some ms \<Longrightarrow> \<exists>s. toISOString ms = Some s"
  by (auto simp: date_millis_def toISOString_def Let_def split: if_splits prod.split)

lemma adapted_deadline:
  assumes "temporary_ban (runtime cfg) d = Some evt"
  shows "printable_deadline cfg (oget evt ''expire'')"
proof -
  define r where "r = absoluteFromDuration (js_now (runtime cfg)) (to_int (asDurationSeconds (jprop d ''expire'')))"
  have e: "oget evt ''expire'' = onum (map_option VNum r)"
    using assms by (auto simp: temporary_ban_def event_fields r_def)
  show ?thesis
  proof (cases r)
    case (Some n)
    have "\<bar>n\<bar> * 1000 \<le> MAX_TIME_VALUE"
      using Some by (auto simp: r_def absoluteFromDuration_def MAX_DATE_SECONDS_def MAX_TIME_VALUE_def Let_def split: option.splits if_splits)
    then have "date_millis cfg (VNum n) = Some (n * 1000)" by (simp add: date_millis_def abs_mult)
    then show ?thesis using dates_print by (auto simp: printable_deadline_def e Some)
  qed (simp add: e printable_deadline_def onum_def)
qed

lemma terminal_codes: "terminal_status cfg evt = Some code \<Longrightarrow> 400 \<le> code"
  by (auto simp: terminal_status_def Let_def mapConnectFailureToDisconnect_def dr_connectionClosed_def dr_loggedOut_def dr_forbidden_def
      dr_multideviceMismatch_def dr_unavailableService_def dr_timedOut_def dr_restartRequired_def split: if_splits option.splits)

lemmas status_codes = dr_connectionClosed_def dr_loggedOut_def dr_forbidden_def dr_timedOut_def dr_connectionReplaced_def CLIENT_OUTDATED_STATUS_def

lemma retry_effects: "list_all (\<lambda>e. \<not> closes e) emitRetrying"
  by (simp add: emitRetrying_def connection_update_def oget_def)

lemma lifecycle_cases:
  assumes "str_of (oget evt ''type'') \<in> set lifecycle_types"
    and "oget evt ''type'' = VStr ''temporaryBan'' \<longrightarrow> printable_deadline cfg (oget evt ''expire'')"
  shows "(case terminal_status cfg evt of
      Some code \<Rightarrow> \<exists>r d. dispatcher_effects cfg h ids evt = emitClose cfg r code d
    | None \<Rightarrow> dispatcher_effects cfg h ids evt \<in> {[], emitRetrying} \<and>
        (dispatcher_effects cfg h ids evt = emitRetrying \<longrightarrow> auto_reconnect cfg \<noteq> Some False \<or> oget evt ''type'' = VStr ''pairError''))"
proof -
  have t: "oget evt ''type'' = VStr (str_of (oget evt ''type''))" using assms(1) by (cases "oget evt ''type''") (auto simp: lifecycle_types_def)
  have reconnect: "isReconnectableConnectFailure r \<longleftrightarrow> r \<in> {Some 500, Some 503}" for r
    by (auto simp: isReconnectableConnectFailure_def RECONNECTABLE_CONNECT_FAILURE_REASONS_def split: option.splits)
  show ?thesis
    using assms(1) [unfolded lifecycle_types_def list.set insert_iff empty_iff]
  proof (elim disjE)
    assume b: "str_of (oget evt ''type'') = ''temporaryBan''"
    then have "oget evt ''type'' = VStr ''temporaryBan''" using t by simp
    then have "printable_deadline cfg (oget evt ''expire'')" using assms(2) by simp
    then show ?thesis
      by (cases "truthy (oget evt ''expire'')")
        (auto simp: b dispatcher_effects_def DISPATCHERS_def terminal_status_def d_temporaryBan_def printable_deadline_def Let_def status_codes,
          (rule exI)+, rule refl)
  next
    assume b: "str_of (oget evt ''type'') = ''connectFailure''"
    then show ?thesis
      by (cases "isReconnectableConnectFailure (reason_code (oget evt ''reason'')) \<and> auto_reconnect cfg \<noteq> Some False")
        (auto simp: dispatcher_effects_def DISPATCHERS_def terminal_status_def d_connectFailure_def Let_def reconnect)
  qed (use t in \<open>auto simp: dispatcher_effects_def DISPATCHERS_def terminal_status_def small_dispatchers Let_def status_codes emitRetrying_def\<close>)
qed


text \<open>
  C36: What closes a socket. An event ends the socket with exactly one close, carrying a well-formed error with the
  status of the table, and cancels the pause timer first, when the engine will not come back from it: logged out,
  replaced, outdated, banned, QR codes exhausted, a connection failure that is not retried, or any drop while
  automatic reconnection is off. Every other event publishes no close; and \<open>connecting\<close> is published only while the engine
  may reconnect, or for a failed pairing. The deadline of a ban can always be printed once it came through the adapter, so a ban
  is never lost to a date out of range.
\<close>

theorem terminal_events_close_once:
  "(oget evt ''type'' = VStr ''temporaryBan'' \<longrightarrow> printable_deadline cfg (oget evt ''expire'')) \<longrightarrow>
     (let es = dispatcher_effects cfg h ids evt in
       (case terminal_status cfg evt of
          Some code \<Rightarrow> \<exists>err. es = [ClearPaused, close_effect cfg err] \<and> boom_ok err \<and> statusCode (the (response err)) = int code
        | None \<Rightarrow> \<not> list_ex closes es) \<and>
       (list_ex retrying es \<longrightarrow> auto_reconnect cfg \<noteq> Some False \<or> oget evt ''type'' = VStr ''pairError'')) \<and>
     (temporary_ban (runtime cfg) d = Some ban \<longrightarrow> printable_deadline cfg (oget ban ''expire''))"
proof
  assume dated: "oget evt ''type'' = VStr ''temporaryBan'' \<longrightarrow> printable_deadline cfg (oget evt ''expire'')"
  define es where "es = dispatcher_effects cfg h ids evt"
  have no_retry: "\<not> list_ex retrying [ClearPaused, close_effect cfg err]" for err
    by (simp add: close_effect_def connection_update_def close_update_def oget_def)
  have "(case terminal_status cfg evt of
          Some code \<Rightarrow> \<exists>err. es = [ClearPaused, close_effect cfg err] \<and> boom_ok err \<and> statusCode (the (response err)) = int code
        | None \<Rightarrow> \<not> list_ex closes es) \<and>
       (list_ex retrying es \<longrightarrow> auto_reconnect cfg \<noteq> Some False \<or> oget evt ''type'' = VStr ''pairError'')"
  proof (cases "str_of (oget evt ''type'') \<in> set lifecycle_types")
    case True
    note cs = lifecycle_cases [OF True dated, of h ids, folded es_def]
    show ?thesis
    proof (cases "terminal_status cfg evt")
      case None
      then show ?thesis using cs retry_effects by (auto simp: list_ex_iff list_all_iff)
    next
      case (Some code)
      then obtain r dd where "es = emitClose cfg r code dd" using cs by auto
      then obtain err where "es = [ClearPaused, close_effect cfg err]" "boom_ok err" "statusCode (the (response err)) = int code"
        using close_emitted [OF terminal_codes [OF Some]] by metis
      then show ?thesis using Some no_retry by auto
    qed
  next
    case False
    then have "terminal_status cfg evt = None" by (auto simp: terminal_status_def lifecycle_types_def Let_def)
    moreover have "\<not> list_ex closes es \<and> \<not> list_ex retrying es"
      using neutral_dispatcher [OF False, of cfg h ids] by (auto simp: es_def neutral_def list_all_iff list_ex_iff)
    ultimately show ?thesis by simp
  qed
  then show "(let es = dispatcher_effects cfg h ids evt in
       (case terminal_status cfg evt of
          Some code \<Rightarrow> \<exists>err. es = [ClearPaused, close_effect cfg err] \<and> boom_ok err \<and> statusCode (the (response err)) = int code
        | None \<Rightarrow> \<not> list_ex closes es) \<and>
       (list_ex retrying es \<longrightarrow> auto_reconnect cfg \<noteq> Some False \<or> oget evt ''type'' = VStr ''pairError'')) \<and>
     (temporary_ban (runtime cfg) d = Some ban \<longrightarrow> printable_deadline cfg (oget ban ''expire''))"
    using adapted_deadline unfolding es_def Let_def by blast
qed

theorem terminal_events_close_once_witness:
  "\<exists>err. dispatcher_effects plain_env (history (makeEventHandlers 0 None)) 0 [(''type'', VStr ''temporaryBan''), (''code'', VNum 101), (''expire'', VNum 60)] =
     [ClearPaused, close_effect plain_env err] \<and> statusCode (the (response err)) = 403"
proof -
  let ?evt = "[(''type'', VStr ''temporaryBan''), (''code'', VNum 101), (''expire'', VNum 60)]" and ?h = "history (makeEventHandlers 0 None)"
  have "printable_deadline plain_env (oget ?evt ''expire'')"
    by (simp add: printable_deadline_def date_millis_def MAX_TIME_VALUE_def toISOString_def Let_def oget_def split: prod.split)
  from terminal_events_close_once [rule_format, of ?evt plain_env ?h 0] this
  have "case terminal_status plain_env ?evt of
          Some code \<Rightarrow> \<exists>err. dispatcher_effects plain_env ?h 0 ?evt = [ClearPaused, close_effect plain_env err] \<and> boom_ok err \<and> statusCode (the (response err)) = int code
        | None \<Rightarrow> \<not> list_ex closes (dispatcher_effects plain_env ?h 0 ?evt)"
    unfolding Let_def by blast
  moreover have "terminal_status plain_env ?evt = Some 403" by code_simp
  ultimately show ?thesis by auto
qed


end
