(* ===== verification/BaileysTypes.thy ===== *)
theory BaileysTypes
  imports Dispatch
begin

text \<open>
  The outbound contract, \<open>BaileysEventMap\<close> of \<open>src/src/Types/Events.ts\<close> and the types it refers to, in the type language of
  \<open>CanonicalTypes\<close>. A \<open>Partial\<close> type has all its fields optional; of the types of the protocol schema only the fields the
  socket writes itself are described. A \<open>Date\<close> may be invalid where the type says no more than \<open>Date\<close>.
\<close>

abbreviation nullable :: "ftype \<Rightarrow> ftype" where
  "nullable t \<equiv> TUnion [t, TNull]"

definition any_date :: ftype where
  "any_date = TObj [req ''getTime'' TUnknown]"

subsection \<open>The types referred to\<close>

definition wa_key :: ftype where
  "wa_key = TObj
     [opt ''remoteJid'' (nullable TString), opt ''fromMe'' (nullable TBoolean), opt ''id'' (nullable TString),
      opt ''participant'' (nullable TString), opt ''remoteJidAlt'' TString, opt ''remoteJidUsername'' TString,
      opt ''participantAlt'' TString, opt ''participantUsername'' TString, opt ''server_id'' TString,
      opt ''addressingMode'' TString, opt ''isViewOnce'' TBoolean]"

definition contact_field_types :: "field list" where
  "contact_field_types =
     [opt ''lid'' TString, opt ''phoneNumber'' TString, opt ''name'' TString, opt ''notify'' TString, opt ''verifiedName'' TString,
      opt ''imgUrl'' (nullable TString), opt ''status'' TString, opt ''username'' TString]"

definition contact :: ftype where
  "contact = TObj (req ''id'' TString # contact_field_types)"

definition partial_contact :: ftype where
  "partial_contact = TObj (opt ''id'' TString # contact_field_types)"

definition group_participant :: ftype where
  "group_participant = TObj
     (req ''id'' TString # contact_field_types @
      [opt ''isAdmin'' TBoolean, opt ''isSuperAdmin'' TBoolean, opt ''admin'' (nullable (TLit [''admin'', ''superadmin'']))])"

definition partial_group_metadata :: ftype where
  "partial_group_metadata = TObj
     [opt ''id'' TString, opt ''subject'' TString, opt ''desc'' TString, opt ''restrict'' TBoolean, opt ''announce'' TBoolean,
      opt ''memberAddMode'' TBoolean, opt ''joinApprovalMode'' TBoolean, opt ''inviteCode'' TString, opt ''author'' TString,
      opt ''authorPn'' TString, opt ''authorUsername'' TString]"

definition presence_data :: ftype where
  "presence_data = TObj
     [req ''lastKnownPresence'' (TLit [''unavailable'', ''available'', ''composing'', ''recording'', ''paused'']), opt ''lastSeen'' TNumber]"

definition partial_chat :: ftype where
  "partial_chat = TObj
     [opt ''id'' TString, opt ''name'' (nullable TString), opt ''description'' (nullable TString), opt ''archived'' (nullable TBoolean),
      opt ''pinned'' (nullable TNumber), opt ''muteEndTime'' (nullable TNumber), opt ''unreadCount'' (nullable TNumber),
      opt ''ephemeralExpiration'' (nullable TNumber), opt ''ephemeralSettingTimestamp'' (nullable TNumber)]"

definition label :: ftype where
  "label = TObj [req ''id'' TString, req ''name'' TString, req ''color'' TNumber, req ''deleted'' TBoolean, opt ''predefinedId'' TString,
     opt ''actionTimestamp'' TString]"

definition label_association :: ftype where
  "label_association = TUnion
     [TObj [req ''type'' (TLit [LABEL_CHAT]), req ''chatId'' TString, req ''labelId'' TString],
      TObj [req ''type'' (TLit [LABEL_MESSAGE]), req ''chatId'' TString, req ''messageId'' TString, req ''labelId'' TString]]"

definition connection_state :: ftype where
  "connection_state = TObj
     [opt ''connection'' (TLit [''open'', ''connecting'', ''close'']),
      opt ''lastDisconnect'' (TObj [req ''error'' (TObj [req ''message'' TString]), req ''date'' TDate]), opt ''isNewLogin'' TBoolean,
      opt ''qr'' TString, opt ''receivedPendingNotifications'' TBoolean, opt ''isOnline'' TBoolean, opt ''reachoutTimeLock'' reachout_state]"

definition partial_creds :: ftype where
  "partial_creds = TObj
     [opt ''me'' contact, opt ''registered'' TBoolean, opt ''platform'' TString, opt ''accountSettings'' (TObj [opt ''unarchiveChats'' TBoolean])]"

definition wa_call_event :: ftype where
  "wa_call_event = TObj
     [req ''chatId'' TString, req ''from'' TString, opt ''callCreator'' TString, opt ''callerPn'' TString, opt ''isGroup'' TBoolean,
      opt ''groupJid'' TString, req ''id'' TString, req ''date'' any_date, opt ''isVideo'' TBoolean,
      req ''status'' (TLit [''offer'', ''ringing'', ''preaccept'', ''transport'', ''relaylatency'', ''timeout'', ''reject'', ''accept'', ''terminate'']),
      req ''offline'' TBoolean, opt ''latencyMs'' TNumber, opt ''callerCountryCode'' TString, opt ''deviceClass'' TString,
      opt ''joinable'' TBoolean, opt ''audio'' (TArray TString), opt ''duration'' TNumber, opt ''audioDuration'' TNumber,
      opt ''stanzaId'' TString, opt ''notify'' TString, opt ''platform'' TString, opt ''version'' TString]"

definition user_receipt :: ftype where
  "user_receipt = TObj [opt ''receiptTimestamp'' (nullable TNumber), opt ''readTimestamp'' (nullable TNumber), opt ''playedTimestamp'' (nullable TNumber)]"

definition setting_update :: ftype where
  "setting_update = TUnion
     [TObj [req ''setting'' (TLit [''unarchiveChats'']), req ''value'' TBoolean], TObj [req ''setting'' (TLit [''locale'']), req ''value'' TString],
      TObj [req ''setting'' (TLit [''disableLinkPreviews'']), req ''value'' (TObj [])], TObj [req ''setting'' (TLit [''timeFormat'']), req ''value'' (TObj [])],
      TObj [req ''setting'' (TLit [''privacySettingRelayAllCalls'']), req ''value'' (TObj [])],
      TObj [req ''setting'' (TLit [''statusPrivacy'']), req ''value'' (TObj [])],
      TObj [req ''setting'' (TLit [''notificationActivitySetting'']), req ''value'' TNumber],
      TObj [req ''setting'' (TLit [''channelsPersonalisedRecommendation'']), req ''value'' (TObj [])]]"

subsection \<open>The event map\<close>

text \<open>The events the dispatchers emit; an update's payload stands as \<open>TObj []\<close> where it is a partial protocol message.\<close>

definition baileys_event_map :: "(js_string \<times> ftype) list" where
  "baileys_event_map =
     [(''connection.update'', connection_state), (''creds.update'', partial_creds),
      (''messaging-history.set'', TObj [req ''chats'' (TArray TUnknown), req ''contacts'' (TArray TUnknown), req ''messages'' (TArray TUnknown),
         opt ''lidPnMappings'' (TArray TUnknown), opt ''isLatest'' TBoolean, opt ''progress'' (nullable TNumber), opt ''syncType'' (nullable TNumber),
         opt ''pastParticipants'' TUnknown, opt ''chunkOrder'' (nullable TNumber), opt ''peerDataRequestSessionId'' (nullable TString)]),
      (''messaging-history.status'', TObj [req ''syncType'' TNumber, req ''status'' (TLit [''complete'', ''paused'']), req ''explicit'' TBoolean]),
      (''chats.upsert'', TArray TUnknown), (''chats.update'', TArray partial_chat),
      (''lid-mapping.update'', TObj [req ''lid'' TString, req ''pn'' TString]), (''chats.delete'', TArray TString),
      (''presence.update'', TObj [req ''id'' TString, req ''presences'' (TDict presence_data)]),
      (''contacts.update'', TArray partial_contact),
      (''messages.delete'', TUnion [TObj [req ''keys'' (TArray wa_key)], TObj [req ''jid'' TString, req ''all'' (TBool True)]]),
      (''messages.update'', TArray (TObj [req ''update'' (TObj []), req ''key'' (TObj [])])),
      (''messages.upsert'', TObj [req ''messages'' (TArray (TObj [])), req ''type'' (TLit [''append'', ''notify'']), opt ''requestId'' TString]),
      (''messages.reaction'', TArray (TObj [req ''key'' TUnknown, req ''reaction'' (TObj [opt ''key'' (nullable (TObj []))])])),
      (''message-receipt.update'', TArray (TObj [req ''key'' wa_key, req ''receipt'' user_receipt])),
      (''groups.update'', TArray partial_group_metadata),
      (''group-participants.update'', TObj [req ''id'' TString, req ''author'' TString, opt ''authorPn'' TString, opt ''authorUsername'' TString,
         req ''participants'' (TArray group_participant), req ''action'' (TLit [''add'', ''remove'', ''promote'', ''demote'', ''modify''])]),
      (''group.join-request'', TObj [req ''id'' TString, req ''author'' TString, opt ''authorPn'' TString, opt ''authorUsername'' TString,
         req ''participant'' TString, opt ''participantPn'' TString, req ''action'' (TLit [''created'', ''revoked'', ''rejected'']),
         opt ''method'' (TLit [''invite_link'', ''linked_group_join'', ''non_admin_add''])]),
      (''group.member-tag.update'', TObj [req ''groupId'' TString, req ''participant'' TString, opt ''participantAlt'' TString,
         req ''label'' TUnknown, opt ''messageTimestamp'' TNumber]),
      (''call'', TArray wa_call_event),
      (''labels.sublist'', TObj [req ''predefinedId'' TNumber, req ''chatJid'' TString, req ''change'' (TLit [''upsert'', ''remove'']),
         opt ''subListId'' TNumber, opt ''actionTimestamp'' TString, req ''fromFullSync'' TBoolean]),
      (''labels.edit'', label),
      (''labels.association'', TObj [req ''association'' label_association, req ''type'' (TLit [''add'', ''remove'']), opt ''actionTimestamp'' TString]),
      (''app-state-sync.failed'', TObj [req ''fatal'' (TArray TString), req ''retryable'' (TArray TString), req ''skipped'' (TArray TString),
         req ''connected'' TBoolean]),
      (''newsletter.reaction'', TObj [req ''id'' TString, req ''server_id'' TString,
         req ''reaction'' (TObj [opt ''code'' TString, opt ''count'' TNumber, opt ''removed'' TBoolean])]),
      (''message-capping.update'', TDict TUnknown),
      (''chats.lock'', TObj [req ''id'' TString, req ''locked'' TBoolean]), (''settings.update'', setting_update)]"

text \<open>An emission of a known event with a payload of its type.\<close>

definition conforming :: "effect \<Rightarrow> bool" where
  "conforming e \<longleftrightarrow>
     (case e of
        Emit name p \<Rightarrow> (case map_of baileys_event_map name of None \<Rightarrow> False | Some t \<Rightarrow> conforms t p)
      | _ \<Rightarrow> True)"

end
