(* ===== verification/DispatchTyping.thy ===== *)
theory DispatchTyping
  imports BaileysTypes
begin

text \<open>
  What the dispatchers of \<open>src/src/Socket/events-core.ts\<close> emit has the types \<open>BaileysEventMap\<close> declares, for every event that
  conforms to the canonical contract: one lemma per dispatcher, and the theorem for the table, which composes with
  that of the adapters.
\<close>

named_theorems outgoing "typing of the values the dispatchers build"

lemma emit_conforming: "conforming (Emit name p) \<longleftrightarrow> (case map_of baileys_event_map name of None \<Rightarrow> False | Some t \<Rightarrow> conforms t p)"
  by (simp add: conforming_def)

lemma conforming_other [simp]:
  "conforming (WsEmit n p)" "conforming (SetUser v)" "conforming (Callback n p)" "conforming (CloseOwner e)" "conforming ClearPaused"
  "conforming ArmPaused" "conforming BootstrapDone" "conforming RecentDone" "conforming (TakeIds i)" "conforming (ResolveCreate g b)"
  "conforming (Report w)" "conforming Throw"
  by (simp_all add: conforming_def)

lemma conforming_calls [simp]: "list_all conforming (calls cfg n p)"
  by (simp add: calls_def)

lemma conforming_stanza [simp]: "list_all conforming (emitCBEvents node)"
  by (auto simp: emitCBEvents_def attr_events_def Let_def list_all_iff)

subsection \<open>Fields\<close>

lemma oget_Cons [outgoing]: "oget ((k, v) # m) k' = (if k' = k then v else oget m k')"
  by (simp add: oget_def)

lemma oget_spread [outgoing]: "oget (spread_if c k v @ m) k' = (if c \<and> k' = k then v else oget m k')"
  by (simp add: spread_if_def oget_def)

lemma oget_spread_end [outgoing]: "oget (spread_if c k v) k' = (if c \<and> k' = k then v else VUndef)"
  by (simp add: spread_if_def oget_def)

text \<open>Reading a field does not need the rest of the object simplified.\<close>

lemma oget_weak_cong: "k = k' \<Longrightarrow> oget m k = oget m k'"
  by simp

lemma fits_nullable [outgoing]: "fits b (TUnion [t, TNull]) x \<longleftrightarrow> fits b t x \<or> x = VNull"
  by (auto simp: fits_def)

lemma fits_required: "fits False t x \<Longrightarrow> fits b t x"
  by (simp add: fits_def)

lemma fits_present: "fits True t x \<Longrightarrow> x \<noteq> VUndef \<Longrightarrow> fits b t x"
  by (simp add: fits_def)

lemma truthy_present [simp]: "truthy x \<Longrightarrow> x \<noteq> VUndef"
  by auto

lemma fits_optional: "fits b t x \<Longrightarrow> fits True t x"
  by (auto simp: fits_def)

lemma fits_typed_string [simp]: "fits False TString x \<longleftrightarrow> (\<exists>s. x = VStr s)"
  by (cases x) (simp_all add: fits_def)

lemma fits_typed_boolean [simp]: "fits False TBoolean x \<longleftrightarrow> (\<exists>b. x = VBool b)"
  by (cases x) (simp_all add: fits_def)

lemma fits_optional_string [simp]: "fits True TString x \<longleftrightarrow> x = VUndef \<or> (\<exists>s. x = VStr s)"
  by (cases x) (simp_all add: fits_def)

lemma fits_optional_boolean [simp]: "fits True TBoolean x \<longleftrightarrow> x = VUndef \<or> (\<exists>b. x = VBool b)"
  by (cases x) (simp_all add: fits_def)

lemma conforms_object [outgoing]: "conforms (TObj fs) (VObj m) \<longleftrightarrow> has_fields fs (VObj m)"
  by simp

lemma conforms_array [outgoing]: "conforms (TArray t) (VArr xs) \<longleftrightarrow> list_all (conforms t) xs"
  by simp

lemma fits_null_value [outgoing]: "fits b TNumber VNull = False" "fits b TString VNull = False" "fits b TBoolean VNull = False"
  by (simp_all add: fits_def is_finite_def)

lemma fits_number_literal [outgoing]: "fits b TNumber (VNum n)"
  by (simp add: fits_def is_finite_def)

lemma fits_dict [outgoing]: "fits b (TDict t) (VObj m) \<longleftrightarrow> list_all (\<lambda>p. conforms t (snd p)) m"
  by (simp add: fits_def)

lemma fits_number_weaken: "fits False TNumber x \<Longrightarrow> fits True TNumber x"
  by (simp add: fits_def)

lemma fits_when: "fits True t (if c then x else VUndef) \<longleftrightarrow> (c \<longrightarrow> fits True t x)"
  by (simp add: fits_def)

lemma fits_coalesce: "fits True TString x \<Longrightarrow> fits False TString y \<Longrightarrow> fits False TString (jv_coalesce x y)"
  by (auto simp: jv_coalesce_def nullish_def)

lemma fits_subset: "fits b (TLit ss) x \<Longrightarrow> set ss \<subseteq> set ts \<Longrightarrow> fits b (TLit ts) x"
  by (auto simp: fits_def split: jv.splits)

lemmas outgoing_types = connection_state_def partial_creds_def contact_def partial_contact_def contact_field_types_def group_participant_def
  partial_group_metadata_def presence_data_def partial_chat_def label_def label_association_def wa_call_event_def user_receipt_def
  setting_update_def wa_key_def

lemmas event_of = conforms.simps(12) has_fields_Cons jprop.simps(1)

subsection \<open>The dispatchers\<close>

lemma event_lookup:
  "map_of baileys_event_map ''chats.update'' = Some (TArray partial_chat)"
  "map_of baileys_event_map ''contacts.update'' = Some (TArray partial_contact)"
  "map_of baileys_event_map ''connection.update'' = Some connection_state"
  "map_of baileys_event_map ''creds.update'' = Some partial_creds"
  "map_of baileys_event_map ''chats.lock'' = Some (TObj [req ''id'' TString, req ''locked'' TBoolean])"
  "map_of baileys_event_map ''chats.delete'' = Some (TArray TString)"
  "map_of baileys_event_map ''labels.edit'' = Some label"
  "map_of baileys_event_map ''call'' = Some (TArray wa_call_event)"
  "map_of baileys_event_map ''groups.update'' = Some (TArray partial_group_metadata)"
  "map_of baileys_event_map ''settings.update'' = Some setting_update"
  by (simp_all add: baileys_event_map_def)

lemma pin_typed: "conforms canonical_pin_update (VObj evt) \<Longrightarrow> list_all conforming (d_pinUpdate evt)"
  by (auto simp: canonical_pin_update_def event_of d_pinUpdate_def chat_change_def emit_conforming event_lookup outgoing_types outgoing typing
      dest: fits_optional)

lemma archive_typed: "conforms canonical_archive_update (VObj evt) \<Longrightarrow> list_all conforming (d_archiveUpdate evt)"
  by (auto simp: canonical_archive_update_def event_of d_archiveUpdate_def chat_change_def emit_conforming event_lookup outgoing_types outgoing typing)

lemma mute_typed: "conforms canonical_mute_update (VObj evt) \<Longrightarrow> list_all conforming (d_muteUpdate evt)"
  by (auto simp: canonical_mute_update_def event_of d_muteUpdate_def chat_change_def jv_coalesce_def emit_conforming event_lookup outgoing_types outgoing typing)

lemma read_typed: "conforms canonical_mark_chat_as_read_update (VObj evt) \<Longrightarrow> list_all conforming (d_markChatAsReadUpdate evt)"
  by (auto simp: canonical_mark_chat_as_read_update_def event_of d_markChatAsReadUpdate_def chat_change_def emit_conforming event_lookup outgoing_types outgoing typing)

lemma lock_typed: "conforms canonical_lock_chat_update (VObj evt) \<Longrightarrow> list_all conforming (d_lockChatUpdate evt)"
  by (auto simp: canonical_lock_chat_update_def event_of d_lockChatUpdate_def emit_conforming event_lookup outgoing_types outgoing typing)

lemma fits_coalesce_optional: "fits True TString x \<Longrightarrow> fits True TString y \<Longrightarrow> fits True TString (jv_coalesce x y)"
  by (auto simp: jv_coalesce_def nullish_def)

lemma contact_typed: "conforms canonical_contact_update (VObj evt) \<Longrightarrow> list_all conforming (d_contactUpdate evt)"
proof -
  assume c: "conforms canonical_contact_update (VObj evt)"
  have f: "fits False TString (oget evt ''jid'')" "fits True TString (oget evt ''fullName'')" "fits True TString (oget evt ''firstName'')"
    "fits True TString (oget evt ''lidJid'')" "fits True TString (oget evt ''pnJid'')"
    using c unfolding canonical_contact_update_def event_of by (simp_all del: fits_typed_string fits_optional_string)
  show ?thesis
    by (simp add: d_contactUpdate_def Let_def emit_conforming event_lookup partial_contact_def contact_field_types_def conforms_array
        conforms_object has_fields_Cons oget_Cons oget_spread oget_spread_end fits_when fits_absent f
        fits_required [OF f(1)] fits_coalesce_optional [OF f(2,3)] fits_nullable del: fits_typed_string fits_optional_string)
qed

lemma event_lookup_object:
  "map_of baileys_event_map ''messages.update'' = Some (TArray (TObj [req ''update'' (TObj []), req ''key'' (TObj [])]))"
  "map_of baileys_event_map ''presence.update'' = Some (TObj [req ''id'' TString, req ''presences'' (TDict presence_data)])"
  "map_of baileys_event_map ''messages.delete'' =
     Some (TUnion [TObj [req ''keys'' (TArray wa_key)], TObj [req ''jid'' TString, req ''all'' (TBool True)]])"
  "map_of baileys_event_map ''messages.upsert'' =
     Some (TObj [req ''messages'' (TArray (TObj [])), req ''type'' (TLit [''append'', ''notify'']), opt ''requestId'' TString])"
  "map_of baileys_event_map ''message-receipt.update'' = Some (TArray (TObj [req ''key'' wa_key, req ''receipt'' user_receipt]))"
  "map_of baileys_event_map ''lid-mapping.update'' = Some (TObj [req ''lid'' TString, req ''pn'' TString])"
  "map_of baileys_event_map ''chats.upsert'' = Some (TArray TUnknown)"
  "map_of baileys_event_map ''message-capping.update'' = Some (TDict TUnknown)"
  by (simp_all add: baileys_event_map_def)

lemmas typed_emission = emit_conforming event_lookup event_lookup_object outgoing_types outgoing typing

lemma star_typed: "conforms canonical_star_update (VObj evt) \<Longrightarrow> list_all conforming (d_starUpdate evt)"
  by (auto simp: canonical_star_update_def event_of d_starUpdate_def typed_emission)

lemma picture_typed: "conforms canonical_picture_update (VObj evt) \<Longrightarrow> list_all conforming (d_pictureUpdate evt)"
  by (auto simp: canonical_picture_update_def event_of d_pictureUpdate_def typed_emission)

lemma presence_out_typed: "conforms canonical_presence (VObj evt) \<Longrightarrow> list_all conforming (d_presence evt)"
  by (auto simp: canonical_presence_def event_of d_presence_def typed_emission)

lemma chat_presence_out_typed: "conforms canonical_chat_presence (VObj evt) \<Longrightarrow> list_all conforming (d_chatPresence evt)"
  by (auto simp: canonical_chat_presence_def event_of d_chatPresence_def typed_emission Let_def)

lemma sublist_typed: "conforms canonical_label_sublist (VObj evt) \<Longrightarrow> list_all conforming (d_labelSublist evt)"
  by (auto simp: canonical_label_sublist_def event_of d_labelSublist_def oget_del emit_conforming baileys_event_map_def outgoing typing)

lemma label_edit_typed: "conforms canonical_label_edit (VObj evt) \<Longrightarrow> list_all conforming (d_labelEdit evt)"
  by (auto simp: canonical_label_edit_def event_of d_labelEdit_def action_time_def typed_emission)

lemma label_association_typed: "conforms canonical_label_association (VObj evt) \<Longrightarrow> list_all conforming (d_labelAssociation evt)"
  by (auto simp: canonical_label_association_def event_of d_labelAssociation_def action_time_def emit_conforming baileys_event_map_def
      label_association_def LABEL_CHAT_def LABEL_MESSAGE_def outgoing typing)

lemma state_failed_typed: "conforms canonical_app_state_sync_failed (VObj evt) \<Longrightarrow> list_all conforming (d_appStateSyncFailed evt)"
  by (auto simp: canonical_app_state_sync_failed_def event_of d_appStateSyncFailed_def emit_conforming baileys_event_map_def outgoing typing)

lemma unarchive_typed: "conforms canonical_unarchive_chats_setting (VObj evt) \<Longrightarrow> list_all conforming (d_unarchiveChatsSetting evt)"
  by (auto simp: canonical_unarchive_chats_setting_def event_of d_unarchiveChatsSetting_def typed_emission)

lemma pair_typed: "conforms canonical_pair_success (VObj evt) \<Longrightarrow> list_all conforming (d_pairSuccess cfg evt)"
  by (auto simp: canonical_pair_success_def event_of d_pairSuccess_def typed_emission)

lemma qr_out_typed: "conforms canonical_qr (VObj evt) \<Longrightarrow> list_all conforming (d_qr evt)"
  by (auto simp: canonical_qr_def event_of d_qr_def connection_update_def typed_emission)

lemma ack_typed: "conforms canonical_server_ack (VObj evt) \<Longrightarrow> list_all conforming (d_serverAck evt)"
  by (auto simp: canonical_server_ack_def event_of d_serverAck_def typed_emission)

lemma message_delete_typed: "conforms canonical_message_delete (VObj evt) \<Longrightarrow> list_all conforming (d_messageDelete evt)"
  by (auto simp: canonical_message_delete_def event_of d_messageDelete_def typed_emission)

lemma disappearing_typed: "conforms canonical_disappearing_mode_changed (VObj evt) \<Longrightarrow> list_all conforming (d_disappearingModeChanged evt)"
  by (auto simp: canonical_disappearing_mode_changed_def event_of d_disappearingModeChanged_def chat_change_def typed_emission intro: fits_number_weaken)

lemma error_val_typed [outgoing]: "fits b (TObj [req ''message'' TString]) (error_val e)"
  by (simp add: error_val_def fits_object has_fields_Cons outgoing)

lemma date_typed [outgoing]: "fits b TDate (date_object ms)"
  by (simp add: fits_def is_date_def date_object_def oget_def)

lemma close_typed [simp]: "list_all conforming (emitClose cfg r st d)"
  by (auto simp: emitClose_def connection_update_def close_update_def typed_emission outgoing split: sum.split)

lemma retrying_typed [simp]: "list_all conforming emitRetrying"
  by (auto simp: emitRetrying_def connection_update_def typed_emission)

lemma ban_typed: "list_all conforming (d_temporaryBan cfg evt)"
  by (simp add: d_temporaryBan_def Let_def split: option.split)

lemma any_date_typed [outgoing]: "fits b any_date (date_val ms)"
  by (auto simp: any_date_def date_val_def date_object_def fits_object has_fields_Cons fits_unknown split: option.split)

lemma call_status: "fits False (TLit call_action_types) x \<Longrightarrow>
    fits False (TLit [''offer'', ''ringing'', ''preaccept'', ''transport'', ''relaylatency'', ''timeout'', ''reject'', ''accept'', ''terminate'']) x"
  by (erule fits_subset) (simp add: call_action_types_def)

lemma call_typed: "conforms canonical_incoming_call (VObj evt) \<Longrightarrow> list_all conforming (d_incomingCall cfg evt)"
proof -
  assume c: "conforms canonical_incoming_call (VObj evt)"
  define a where "a = oget evt ''action''"
  have f: "fits False TString (oget evt ''from'')" "fits False TBoolean (oget evt ''offline'')" "fits True TString (oget evt ''stanzaId'')"
    "fits True TString (oget evt ''notify'')" "fits True TString (oget evt ''platform'')" "fits True TString (oget evt ''version'')"
    and act: "fits False canonical_call_action a"
    using c unfolding canonical_incoming_call_def event_of a_def by (simp_all del: fits_typed_string fits_optional_string)
  have g: "fits False (TLit call_action_types) (jprop a ''type'')" "fits False TString (jprop a ''callId'')" "fits True TString (jprop a ''callCreator'')"
    "fits True TString (jprop a ''callerPn'')" "fits True TString (jprop a ''callerCountryCode'')" "fits True TString (jprop a ''deviceClass'')"
    "fits True TBoolean (jprop a ''joinable'')" "fits True (TArray TString) (jprop a ''audio'')" "fits True TNumber (jprop a ''duration'')"
    "fits True TNumber (jprop a ''audioDuration'')"
    using act unfolding canonical_call_action_def fits_def [of False "TObj _"] conforms.simps(12) has_fields_Cons
    by (simp_all del: fits_typed_string fits_optional_string fits_typed_boolean fits_optional_boolean)
  note rules = fits_coalesce [OF g(3) f(1)] call_status [OF g(1)] f g fits_boolean(1) any_date_typed
  show ?thesis
    unfolding d_incomingCall_def Let_def a_def [symmetric]
    by (simp only: list_all_append conforming_calls list.pred_inject emit_conforming event_lookup option.case wa_call_event_def
          conforms_array conforms_object has_fields_Cons simp_thms append_Cons append_Nil jprop.simps, intro conjI;
        simp add: oget_Cons oget_spread oget_spread_end fits_when fits_absent rules fits_required [OF f(1)] cong: oget_weak_cong
          del: fits_typed_string fits_optional_string fits_typed_boolean fits_optional_boolean)
qed

lemma reachout_out_typed:
  "conforms canonical_reachout_timelock (VObj evt) \<Longrightarrow> list_all conforming [connection_update [(''reachoutTimeLock'', oget evt ''state'')]]"
  by (simp add: canonical_reachout_timelock_def event_of connection_update_def typed_emission outgoing fits_required)

lemma chat_delete_typed: "conforms canonical_chat_delete (VObj evt) \<Longrightarrow> list_all conforming [Emit ''chats.delete'' (VArr [oget evt ''jid''])]"
  by (auto simp: canonical_chat_delete_def event_of typed_emission)

lemma chat_clear_typed: "conforms canonical_chat_clear (VObj evt) \<Longrightarrow>
    list_all conforming [Emit ''messages.delete'' (VObj [(''jid'', oget evt ''jid''), (''all'', VBool True)])]"
  by (auto simp: canonical_chat_clear_def event_of typed_emission fits_def)

lemma lid_typed: "conforms canonical_lid_mapping_update (VObj evt) \<Longrightarrow> list_all conforming (d_lidMappingUpdate evt)"
  by (auto simp: canonical_lid_mapping_update_def event_of d_lidMappingUpdate_def emit_conforming event_lookup_object list_all_iff fits_def
      split: jv.splits)

lemma newsletter_typed: "conforms canonical_newsletter_live_update (VObj evt) \<Longrightarrow> list_all conforming (d_newsletterLiveUpdate evt)"
proof -
  assume c: "conforms canonical_newsletter_live_update (VObj evt)"
  have jid: "fits False TString (oget evt ''newsletterJid'')" and msgs: "fits False (TArray (TObj [req ''serverId'' TString,
      req ''reactions'' (TArray (TObj [req ''code'' TString, req ''count'' TNumber]))])) (oget evt ''messages'')"
    using c unfolding canonical_newsletter_live_update_def event_of by (simp_all del: fits_typed_string)
  have one: "conforming (newsletter_reaction evt m r)" if m: "m \<in> set (elems_of (oget evt ''messages''))" and r: "r \<in> set (elems_of (jprop m ''reactions''))" for m r
  proof -
    have m1: "fits False TString (jprop m ''serverId'')" "fits False (TArray (TObj [req ''code'' TString, req ''count'' TNumber])) (jprop m ''reactions'')"
      using msgs m by (cases "oget evt ''messages''"; simp add: fits_def [of False "TArray _"] list_all_iff has_fields_Cons del: fits_typed_string)+
    have r1: "fits False TString (jprop r ''code'')" "fits False TNumber (jprop r ''count'')"
      using m1(2) r by (cases "jprop m ''reactions''"; simp add: fits_def [of False "TArray _"] list_all_iff has_fields_Cons del: fits_typed_string)+
    show ?thesis
      by (simp add: newsletter_reaction_def emit_conforming baileys_event_map_def conforms_object has_fields_Cons oget_Cons fits_object jid m1(1) r1
          fits_required [OF r1(1)] fits_required [OF r1(2)] del: fits_typed_string fits_optional_string)
  qed
  then show ?thesis by (auto simp: d_newsletterLiveUpdate_def list_all_iff)
qed

lemma receipt_out_typed: "conforms canonical_receipt (VObj evt) \<Longrightarrow> list_all conforming (d_receipt evt)"
proof -
  assume c: "conforms canonical_receipt (VObj evt)"
  have f: "fits False TString (oget evt ''chatJid'')" "fits True TString (oget evt ''senderJid'')" "fits False TBoolean (oget evt ''isFromMe'')"
    "fits False (TArray TString) (oget evt ''messageIds'')" "fits False TNumber (oget evt ''timestamp'')"
    using c unfolding canonical_receipt_def event_of by (simp_all del: fits_typed_string fits_optional_string fits_typed_boolean)
  have ids: "fits False TString i" if "i \<in> set (elems_of (oget evt ''messageIds''))" for i
    using f(4) that by (cases "oget evt ''messageIds''"; simp add: fits_def list_all_iff del: fits_typed_string)
  show ?thesis
    by (auto simp: d_receipt_def Let_def emit_conforming event_lookup_object wa_key_def user_receipt_def conforms_array conforms_object has_fields_Cons
        oget_Cons fits_object fits_nullable fits_absent list_all_iff f fits_required [OF ids] fits_required [OF f(1)] fits_required [OF f(3)]
        fits_number_weaken [OF f(5)] simp del: fits_typed_string fits_optional_string fits_typed_boolean fits_optional_boolean)
qed

lemma setting_out_typed: "conforms canonical_setting_update (VObj evt) \<Longrightarrow> list_all conforming (d_settingUpdate evt)"
  by (auto simp: canonical_setting_update_def setting_def d_settingUpdate_def emit_conforming event_lookup setting_update_def has_fields_Cons oget_del
      conforms_object)

lemma mex_typed: "list_all conforming (d_mexNotification evt)"
proof -
  have keyed: "conforms (TDict TUnknown) p" if "as_record v = Some p" for v p
    using that by (auto simp: as_record_def list_all_iff split: jv.splits)
  have "conforms (TDict TUnknown) p" if "extractMessageCappingPayload (oget evt ''payload'') = Some p" for p
    using that keyed by (auto simp: extractMessageCappingPayload_def Let_def split: option.splits if_splits)
  then show ?thesis by (auto simp: d_mexNotification_def emit_conforming event_lookup_object split: option.split)
qed

lemma history_typed: "conforms canonical_history_sync (VObj evt) \<Longrightarrow> list_all conforming (d_historySync h evt)"
proof -
  assume c: "conforms canonical_history_sync (VObj evt)"
  have f: "fits False (TArray TUnknown) (oget evt ''chats'')" "fits False (TArray TUnknown) (oget evt ''contacts'')"
    "fits False (TArray TUnknown) (oget evt ''messages'')" "fits False (TArray TUnknown) (oget evt ''lidPnMappings'')"
    "fits True TNumber (oget evt ''syncType'')" "fits True TNumber (oget evt ''progress'')" "fits True TNumber (oget evt ''chunkOrder'')"
    "fits True TString (oget evt ''peerDataRequestSessionId'')"
    using c unfolding canonical_history_sync_def event_of by (simp_all del: fits_optional_string)
  have st: "conforming (status_event k s b)" if "s \<in> {''complete'', ''paused''}" for k s b
    using that by (auto simp: status_event_def emit_conforming baileys_event_map_def outgoing typing)
  have pl: "conforming (Emit ''messaging-history.set'' (history_payload fin evt))" for fin
    by (simp add: history_payload_def emit_conforming baileys_event_map_def conforms_object has_fields_Cons oget_Cons f fits_required [OF f(4)]
        fits_nullable fits_absent fits_unknown fits_boolean(1) del: fits_optional_string)
  have up: "conforming (Emit ''chats.upsert'' (oget evt ''chats''))"
    using f(1) by (simp add: emit_conforming event_lookup_object fits_def)
  show ?thesis by (simp add: d_historySync_def Let_def st pl up)
qed

lemma push_name_typed:
  assumes "fits False TString (oget evt ''chatJid'')" "fits True TString (oget evt ''senderJid'')" "fits True TString (oget evt ''pushName'')"
  shows "list_all conforming (emitInboundPushName evt)"
  by (simp add: emitInboundPushName_def Let_def emit_conforming event_lookup partial_contact_def contact_field_types_def conforms_array
      conforms_object has_fields_Cons oget_Cons fits_absent fits_nullable assms fits_required [OF fits_coalesce [OF assms(2,1)]]
      del: fits_typed_string fits_optional_string)

lemma upsert_typed:
  "fst meta \<in> {''append'', ''notify''} \<Longrightarrow> fits True TString (snd meta) \<Longrightarrow> conforming (emitMessageUpsert msgs meta)"
  by (simp add: emitMessageUpsert_def upsert_payload_def emit_conforming event_lookup_object conforms_object has_fields_Cons oget_Cons
      oget_spread_end fits_array list_all_iff fits_literal fits_when fits_absent del: fits_optional_string)

lemma message_fields:
  assumes "conforms canonical_message (VObj evt)"
  shows "fits False TString (oget evt ''chatJid'')" "fits True TString (oget evt ''senderJid'')" "fits True TString (oget evt ''pushName'')"
    "fits True TString (oget evt ''participantAlt'')" "fits True TString (oget evt ''unavailableRequestId'')" "fits False TNumber (oget evt ''timestamp'')"
  using assms unfolding canonical_message_def event_of by (simp_all del: fits_typed_string fits_optional_string)

lemma reaction_typed: "list_all conforming (reaction_effects evt key)"
  by (simp add: reaction_effects_def Let_def emit_conforming baileys_event_map_def conforms_array conforms_object has_fields_Cons oget_Cons
      oget_set fits_object fits_nullable fits_unknown)

lemma label_typed:
  assumes "conforms canonical_message (VObj evt)"
  shows "list_all conforming (label_effects evt)"
proof -
  note f = message_fields [OF assms]
  have "fits False TString (oget evt ''senderJid'')" if "truthy (oget evt ''senderJid'')"
    using f(2) truthy_present [OF that] by (rule fits_present)
  then show ?thesis
    by (simp add: label_effects_def Let_def emit_conforming baileys_event_map_def conforms_object has_fields_Cons oget_Cons f fits_unknown
        fits_number_weaken [OF f(6)] del: fits_typed_string fits_optional_string)
qed

lemma protocol_typed: "list_all conforming (protocol_effects evt waMsg)"
  by (simp add: protocol_effects_def Let_def emit_conforming event_lookup_object conforms_array conforms_object has_fields_Cons oget_Cons fits_object)

lemma message_typed: "conforms canonical_message (VObj evt) \<Longrightarrow> list_all conforming (d_message cfg evt)"
  using push_name_typed [OF message_fields(1-3)] reaction_typed label_typed [of evt] protocol_typed
    upsert_typed [of "messageUpsertMetadata evt"] message_fields(5) [of evt]
  by (auto simp: d_message_def messageUpsertMetadata_def MESSAGE_UPSERT_APPEND_def MESSAGE_UPSERT_NOTIFY_def simp del: fits_optional_string
      split: option.split)

lemma undecryptable_typed: "conforms canonical_undecryptable_message (VObj evt) \<Longrightarrow> list_all conforming (d_undecryptableMessage cfg evt)"
proof -
  assume c: "conforms canonical_undecryptable_message (VObj evt)"
  have f: "fits False TString (oget evt ''chatJid'')" "fits True TString (oget evt ''senderJid'')" "fits True TString (oget evt ''pushName'')"
    using c unfolding canonical_undecryptable_message_def event_of by (simp_all del: fits_typed_string fits_optional_string)
  have "conforming (emitMessageUpsert msgs (MESSAGE_UPSERT_NOTIFY, VUndef))" for msgs
    by (rule upsert_typed) (simp_all add: MESSAGE_UPSERT_NOTIFY_def)
  then show ?thesis
    using push_name_typed [OF f] by (simp add: d_undecryptableMessage_def Let_def split: option.split)
qed

subsection \<open>Groups\<close>

lemma participant_typed: "conforms group_participant (VObj (canonicalGroupParticipantToBaileys p))"
  by (cases p)
    (auto simp: canonicalGroupParticipantToBaileys_def group_participant_def contact_field_types_def admin_val_def has_fields_Cons conforms_object
      oget_def fits_nullable fits_absent fits_string fits_literal opt_val_def fits_def split: option.splits)

lemma optional_string: "fits True TString (opt_val o1)"
  by (rule fits_string(2))

lemma oget_when_defined:
  "oget (when_defined k o1 @ m) k' = (if o1 \<noteq> None \<and> k' = k then opt_val o1 else oget m k')"
  "oget (when_defined k o1) k' = (if o1 \<noteq> None \<and> k' = k then opt_val o1 else VUndef)"
  by (simp_all add: when_defined_def oget_def opt_val_def split: option.split)

lemma metadata_typed:
  assumes "metadata_change a = Some change"
  shows "conforms partial_group_metadata (VObj ([(''id'', VStr i)] @ change @ when_defined ''author'' a1 @ when_defined ''authorPn'' a2 @ when_defined ''authorUsername'' a3))"
  using assms
  by (cases a)
    (auto simp: partial_group_metadata_def has_fields_Cons conforms_object oget_Cons oget_when_defined fits_when fits_absent fits_boolean(1)
      optional_string fits_string(1) simp del: fits_optional_string fits_optional_boolean)

lemma domain_typed: "buildGroupNotificationDomainEvent n = Some d \<Longrightarrow> conforming (domain_effect d)"
proof -
  assume d: "buildGroupNotificationDomainEvent n = Some d"
  have named: "name \<in> {''add'', ''remove'', ''promote'', ''demote'', ''modify''}" if "participant_action (action n) = Some (st, name, ps)" for st name ps
    using that by (cases "action n") auto
  have author: "fits False TString (jv_coalesce (opt_val a) (VStr []))" for a
    by (cases a) (simp_all add: opt_val_def jv_coalesce_def nullish_def)
  show ?thesis
  proof (cases "participant_action (action n)")
    case (Some q)
    obtain st name ps where q: "q = (st, name, ps)" by (cases q)
    have "fits False (TLit [''add'', ''remove'', ''promote'', ''demote'', ''modify'']) (VStr name)"
      using named [of st name ps] Some q by (simp add: fits_literal)
    then show ?thesis
      using d by (auto simp: buildGroupNotificationDomainEvent_def Some q domain_effect_def emit_conforming baileys_event_map_def has_fields_Cons
          conforms_object oget_Cons fits_array list_all_iff participant_typed author optional_string fits_string(1)
          simp del: fits_typed_string fits_optional_string)
  next
    case None
    then obtain change where "metadata_change (action n) = Some change"
        "d = GroupsUpdateEvent ([(''id'', VStr (groupJid n))] @ change @ when_defined ''author'' (author n) @
           when_defined ''authorPn'' (authorPn n) @ when_defined ''authorUsername'' (authorUsername n))"
      using d by (auto simp: buildGroupNotificationDomainEvent_def)
    then show ?thesis using metadata_typed by (simp add: domain_effect_def emit_conforming event_lookup)
  qed
qed

lemma join_typed: "r \<in> set (buildGroupJoinRequestEvents n) \<Longrightarrow> conforming (Emit ''group.join-request'' (join_request_val r))"
proof -
  assume r: "r \<in> set (buildGroupJoinRequestEvents n)"
  have m: "fits True (TLit [''invite_link'', ''linked_group_join'', ''non_admin_add'']) (opt_val (validateRequestMethod x))" for x
    by (auto simp: validateRequestMethod_def KNOWN_REQUEST_METHODS_def opt_val_def fits_def split: option.split)
  have "\<exists>a. author n = Some a \<and> jr_common r = [(''id'', VStr (groupJid n)), (''author'', VStr a), (''authorPn'', opt_val (authorPn n)),
      (''authorUsername'', opt_val (authorUsername n))] \<and> jr_action r \<in> {''created'', ''revoked'', ''rejected''} \<and>
      (jr_method r = None \<or> (\<exists>x. jr_method r = validateRequestMethod x))"
    using r by (cases "author n") (auto simp: buildGroupJoinRequestEvents_def nonempty_def opt_val_def Let_def split: group_action.splits if_splits)
  then obtain a where c: "jr_common r = [(''id'', VStr (groupJid n)), (''author'', VStr a), (''authorPn'', opt_val (authorPn n)),
      (''authorUsername'', opt_val (authorUsername n))]" "jr_action r \<in> {''created'', ''revoked'', ''rejected''}"
      and meth: "jr_method r = None \<or> (\<exists>x. jr_method r = validateRequestMethod x)" by blast
  have m1: "fits True (TLit [''invite_link'', ''linked_group_join'', ''non_admin_add'']) (opt_val (jr_method r))"
    using meth m by (auto simp: opt_val_def fits_absent)
  have a1: "fits False (TLit [''created'', ''revoked'', ''rejected'']) (VStr (jr_action r))" using c(2) by (simp add: fits_literal)
  show ?thesis
    by (simp add: join_request_val_def c(1) emit_conforming baileys_event_map_def has_fields_Cons conforms_object oget_Cons m1 a1 optional_string
        fits_string(1) del: fits_typed_string fits_optional_string)
qed

lemma chat_updates_typed: "u \<in> set (buildGroupNotificationChatUpdates n) \<Longrightarrow> conforms partial_chat (VObj u)"
  by (cases "action n")
    (auto simp: buildGroupNotificationChatUpdates_def partial_chat_def has_fields_Cons conforms_object oget_Cons fits_nullable fits_absent
      fits_number_literal jv_or_def optional_string simp del: fits_optional_string, auto simp: fits_def is_finite_def)

lemma group_typed: "list_all conforming (d_groupUpdate cfg ids evt)"
proof -
  define n where "n = read_group_update evt"
  have u: "conforming (emitMessageUpsert msgs (MESSAGE_UPSERT_APPEND, VUndef))" for msgs
    by (rule upsert_typed) (simp_all add: MESSAGE_UPSERT_APPEND_def)
  have c: "conforming (Emit ''chats.update'' (VArr (map VObj (buildGroupNotificationChatUpdates n))))"
    using chat_updates_typed by (auto simp: emit_conforming event_lookup conforms_array list_all_iff)
  show ?thesis
    using u c join_typed [of _ n] domain_typed [of n]
    by (auto simp: d_groupUpdate_def Let_def n_def [symmetric] list_all_iff split: option.split prod.split)
qed

subsection \<open>The table\<close>

definition arms :: "(js_string \<times> ftype) list" where
  "arms =
     [(''connected'', canonical_connected), (''offlineSyncCompleted'', canonical_offline_sync_completed), (''disconnected'', canonical_disconnected),
      (''qr'', canonical_qr), (''pairSuccess'', canonical_pair_success), (''pairError'', canonical_pair_error),
      (''loggedOut'', canonical_logged_out), (''connectFailure'', canonical_connect_failure), (''streamError'', canonical_stream_error),
      (''streamReplaced'', canonical_stream_replaced), (''clientOutdated'', canonical_client_outdated), (''temporaryBan'', canonical_temporary_ban),
      (''qrScannedWithoutMultidevice'', canonical_qr_scanned_without_multidevice), (''message'', canonical_message), (''receipt'', canonical_receipt),
      (''undecryptableMessage'', canonical_undecryptable_message), (''contactUpdate'', canonical_contact_update),
      (''pictureUpdate'', canonical_picture_update), (''presence'', canonical_presence), (''chatPresence'', canonical_chat_presence),
      (''groupUpdate'', canonical_group_update_event), (''archiveUpdate'', canonical_archive_update), (''pinUpdate'', canonical_pin_update),
      (''muteUpdate'', canonical_mute_update), (''starUpdate'', canonical_star_update), (''markChatAsReadUpdate'', canonical_mark_chat_as_read_update),
      (''lockChatUpdate'', canonical_lock_chat_update), (''labelSublist'', canonical_label_sublist), (''labelEdit'', canonical_label_edit),
      (''labelAssociation'', canonical_label_association), (''appStateSyncFailed'', canonical_app_state_sync_failed),
      (''qrCodesExhausted'', canonical_qr_codes_exhausted), (''settingUpdate'', canonical_setting_update),
      (''unarchiveChatsSetting'', canonical_unarchive_chats_setting), (''reachoutTimelock'', canonical_reachout_timelock),
      (''incomingCall'', canonical_incoming_call), (''dirtyState'', canonical_dirty_state), (''rawNode'', canonical_raw_node),
      (''notification'', canonical_notification), (''mexNotification'', canonical_mex_notification), (''serverAck'', canonical_server_ack),
      (''noop'', canonical_noop), (''lidMappingUpdate'', canonical_lid_mapping_update), (''chatDelete'', canonical_chat_delete),
      (''chatClear'', canonical_chat_clear), (''messageDelete'', canonical_message_delete),
      (''newsletterLiveUpdate'', canonical_newsletter_live_update), (''disappearingModeChanged'', canonical_disappearing_mode_changed),
      (''historySync'', canonical_history_sync)]"

lemma fits_tag: "fits False (TLit [k]) x \<longleftrightarrow> x = VStr k"
  by (cases x) (auto simp: fits_def)

definition tagged :: "js_string \<Rightarrow> ftype \<Rightarrow> bool" where
  "tagged k ty \<longleftrightarrow> (\<forall>evt. conforms ty (VObj evt) \<longrightarrow> oget evt ''type'' = VStr k)"

lemma tagged_object: "tagged k (TObj (tag k # fs))"
  by (simp add: tagged_def has_fields_Cons fits_tag)

lemma tagged_setting: "tagged ''settingUpdate'' canonical_setting_update"
  by (auto simp: tagged_def canonical_setting_update_def setting_def has_fields_Cons fits_tag)

lemma arms_tagged: "list_all (\<lambda>p. tagged (fst p) (snd p)) arms"
  unfolding arms_def list.pred_inject fst_conv snd_conv
  by (simp only: tagged_setting simp_thms, unfold canonical_connected_def canonical_offline_sync_completed_def canonical_disconnected_def canonical_qr_def canonical_pair_success_def
        canonical_pair_error_def canonical_logged_out_def canonical_connect_failure_def canonical_stream_error_def canonical_stream_replaced_def
        canonical_client_outdated_def canonical_temporary_ban_def canonical_qr_scanned_without_multidevice_def canonical_message_def
        canonical_receipt_def canonical_undecryptable_message_def canonical_contact_update_def canonical_picture_update_def canonical_presence_def
        canonical_chat_presence_def canonical_group_update_event_def canonical_archive_update_def canonical_pin_update_def
        canonical_mute_update_def canonical_star_update_def canonical_mark_chat_as_read_update_def canonical_lock_chat_update_def
        canonical_label_sublist_def canonical_label_edit_def canonical_label_association_def canonical_app_state_sync_failed_def
        canonical_qr_codes_exhausted_def canonical_unarchive_chats_setting_def canonical_reachout_timelock_def canonical_incoming_call_def
        canonical_dirty_state_def canonical_raw_node_def canonical_notification_def canonical_mex_notification_def canonical_server_ack_def
        canonical_noop_def canonical_lid_mapping_update_def canonical_chat_delete_def canonical_chat_clear_def canonical_message_delete_def
        canonical_newsletter_live_update_def canonical_disappearing_mode_changed_def canonical_history_sync_def,
      simp only: tagged_object simp_thms list.pred_inject(1))

lemma arms_complete: "set canonical_event_types \<subseteq> snd ` set arms"
  unfolding canonical_event_types_def arms_def by (simp add: insert_commute)

lemma conforms_some_arm:
  assumes "conforms canonical_event (VObj evt)"
  obtains k ty where "(k, ty) \<in> set arms" "oget evt ''type'' = VStr k" "conforms ty (VObj evt)"
proof -
  have "\<exists>ty \<in> set ts. conforms ty v" if "conforms_one ts v" for ts v
    using that by (induction ts) auto
  then obtain ty where ty: "ty \<in> set canonical_event_types" "conforms ty (VObj evt)"
    using assms by (auto simp: canonical_event_def)
  then obtain k where k: "(k, ty) \<in> set arms" using arms_complete by fastforce
  then have "tagged k ty" using arms_tagged by (auto simp: list_all_iff)
  then show ?thesis using that k ty(2) by (simp add: tagged_def)
qed

lemma arms_distinct: "distinct (map fst arms)"
  unfolding arms_def by simp

lemma aligned_lookup:
  assumes "list_all2 (\<lambda>p q. fst p = fst q \<and> R (snd p) (snd q)) xs ys" "map_of ys k = Some y"
  shows "\<exists>x. map_of xs k = Some x \<and> R x y"
  using assms by (induction rule: list_all2_induct) (auto split: if_splits)

lemma table_conforming:
  "list_all2 (\<lambda>p q. fst p = fst q \<and> (\<forall>evt. conforms (snd q) (VObj evt) \<longrightarrow> list_all conforming (snd p evt))) (DISPATCHERS cfg h ids) arms"
proof -
  have update: "list_all conforming [connection_update [(''connection'', VStr ''open'')]]"
    "list_all conforming [connection_update [(''receivedPendingNotifications'', VBool True)]]"
    by (simp_all add: connection_update_def typed_emission)
  have empty: "list_all conforming []" by simp
  have sometimes: "list_all conforming (d_disconnected cfg)" "list_all conforming (d_loggedOut cfg evt)" "list_all conforming (d_connectFailure cfg evt)"
    "list_all conforming (d_streamError cfg evt)" for evt
    by (simp_all add: d_disconnected_def d_loggedOut_def d_connectFailure_def d_streamError_def Let_def)
  show ?thesis
    unfolding DISPATCHERS_def arms_def list_all2_Cons list_all2_Nil fst_conv snd_conv
    by (intro conjI TrueI allI impI refl update sometimes close_typed retrying_typed ban_typed group_typed mex_typed conforming_calls conforming_stanza empty;
        (erule qr_out_typed pair_typed message_typed receipt_out_typed undecryptable_typed contact_typed picture_typed presence_out_typed
          chat_presence_out_typed archive_typed pin_typed mute_typed star_typed read_typed lock_typed sublist_typed label_edit_typed
          label_association_typed state_failed_typed setting_out_typed unarchive_typed reachout_out_typed call_typed ack_typed lid_typed
          chat_delete_typed chat_clear_typed message_delete_typed newsletter_typed disappearing_typed history_typed)?)
qed

lemma dispatch_conforming:
  assumes "conforms canonical_event (VObj evt)"
  shows "list_all conforming (dispatcher_effects cfg h ids evt)"
proof -
  obtain k ty where k: "(k, ty) \<in> set arms" "oget evt ''type'' = VStr k" "conforms ty (VObj evt)" using conforms_some_arm [OF assms] .
  have "map_of arms k = Some ty" using k(1) arms_distinct by simp
  from aligned_lookup [OF table_conforming this, of cfg h ids]
  obtain f where "map_of (DISPATCHERS cfg h ids) k = Some f" "\<forall>evt. conforms ty (VObj evt) \<longrightarrow> list_all conforming (f evt)" by blast
  then show ?thesis using k(2,3) by (simp add: dispatcher_effects_def)
qed



end
