(* ===== verification/Spec2Isabelle.thy ===== *)
theory Spec2Isabelle
  imports RetryManager Jid SnapshotStore ClientOwner TerminalClose Transport HistorySync EventBuffer GroupNotif MessageRoutes DispatchLifecycle DispatchTyping
begin

text \<open>
  Verification library for the baileyrs repository (work in progress header).
\<close>

end
